(* ===== verification/Nawst_Prelude.thy ===== *)
theory Nawst_Prelude
  imports
    Complex_Main
    "HOL-Library.Word"
    "HOL-Library.Finite_Map"
    "HOL-Library.Char_ord"
    "HOL-Library.List_Lexorder"
    "HOL-Library.Multiset"
begin

text \<open>
  What the components share. Go's fixed width integers are words (\<open>u8\<close>, \<open>u16\<close>, \<open>u32\<close>, \<open>u64\<close>),
  \<^verbatim>\<open>[]byte\<close> is a list of bytes, a Go string is a \<^typ>\<open>string\<close> (its comparison \<open><\<close> is the bytewise
  lexicographic order of \<^verbatim>\<open>HOL-Library.List_Lexorder\<close>), a Go map is a finite map
  (\<^verbatim>\<open>HOL-Library.Finite_Map\<close>) and a \<^verbatim>\<open>map[K]bool\<close> or \<^verbatim>\<open>map[K]struct{}\<close> used as a set is a finite
  set. Go visits the entries of a map in an unspecified order; a definition that ranges over a map
  takes the order as an argument (\<open>rng\<close>), and the locale \<open>map_range\<close> states all a client may
  rely on.
\<close>

type_synonym u8 = "8 word"
type_synonym u16 = "16 word"
type_synonym u32 = "32 word"
type_synonym u64 = "64 word"
type_synonym bytes = "u8 list"

named_theorems go_simps \<open>rewrite rules for the operations on Go maps and sets\<close>

section \<open>Maps of sets\<close>

text \<open>Reading a \<^verbatim>\<open>map[V]map[K]bool\<close> at an absent key gives a nil map, which reads as empty.\<close>

definition idx_set :: "('v, 'k fset) fmap \<Rightarrow> 'v \<Rightarrow> 'k fset" where
  "idx_set m v = (case fmlookup m v of None \<Rightarrow> {||} | Some S \<Rightarrow> S)"

lemma idx_set_empty [go_simps]: "idx_set fmempty v = {||}"
  by (simp add: idx_set_def)

lemma idx_set_upd [go_simps]: "idx_set (fmupd u S m) v = (if u = v then S else idx_set m v)"
  by (simp add: idx_set_def)

lemma idx_set_drop [go_simps]: "idx_set (fmdrop u m) v = (if u = v then {||} else idx_set m v)"
  by (simp add: idx_set_def)

lemma idx_set_None: "fmlookup m v = None \<Longrightarrow> idx_set m v = {||}"
  by (simp add: idx_set_def)

lemma idx_set_Some: "fmlookup m v = Some S \<Longrightarrow> idx_set m v = S"
  by (simp add: idx_set_def)

text \<open>The inner sets that hold something: what the \<^verbatim>\<open>vnodesWith...\<close> counters are meant to count.\<close>

definition used :: "('v, 'k fset) fmap \<Rightarrow> 'v set" where
  "used m = {v. idx_set m v \<noteq> {||}}"

lemma used_empty [go_simps]: "used fmempty = {}"
  by (simp add: used_def idx_set_empty)

lemma finite_used [simp, intro]: "finite (used m)"
proof -
  have "used m \<subseteq> fset (fmdom m)"
    by (auto simp: used_def idx_set_def fmlookup_dom_iff split: option.splits)
  then show ?thesis by (rule finite_subset) simp
qed

lemma used_upd [go_simps]:
  "used (fmupd v S m) = (if S = {||} then used m - {v} else insert v (used m))"
  by (auto simp: used_def idx_set_upd)

lemma used_drop [go_simps]: "used (fmdrop v m) = used m - {v}"
  by (auto simp: used_def idx_set_drop)

lemma in_used: "v \<in> used m \<longleftrightarrow> idx_set m v \<noteq> {||}"
  by (simp add: used_def)

lemma card_used_pos: "v \<in> used m \<Longrightarrow> 0 < card (used m)"
  by (auto simp: card_gt_0_iff)

lemma int_card_Diff1: "finite A \<Longrightarrow> x \<in> A \<Longrightarrow> int (card (A - {x})) = int (card A) - 1"
  using card_gt_0_iff [of A] by (auto simp: card_Diff_singleton of_nat_diff)

section \<open>Sums over a map\<close>

definition fm_sum :: "('v \<Rightarrow> int) \<Rightarrow> ('k, 'v) fmap \<Rightarrow> int" where
  "fm_sum f m = (\<Sum>k\<in>fset (fmdom m). f (the (fmlookup m k)))"

lemma fm_sum_empty [go_simps]: "fm_sum f fmempty = 0"
  by (simp add: fm_sum_def)

lemma fm_sum_drop [go_simps]:
  "fm_sum f (fmdrop k m) = fm_sum f m - (case fmlookup m k of None \<Rightarrow> 0 | Some v \<Rightarrow> f v)"
proof (cases "fmlookup m k")
  case None
  then have "fmdrop k m = m" by (intro fmap_ext) auto
  with None show ?thesis by simp
next
  case (Some v)
  then have k: "k \<in> fset (fmdom m)" by (rule fmdomI)
  have "fset (fmdom (fmdrop k m)) = fset (fmdom m) - {k}" by auto
  moreover have "(\<Sum>i\<in>fset (fmdom m) - {k}. f (the (fmlookup (fmdrop k m) i)))
      = (\<Sum>i\<in>fset (fmdom m) - {k}. f (the (fmlookup m i)))"
    by (intro sum.cong) auto
  ultimately show ?thesis
    using Some k by (simp add: fm_sum_def sum_diff1)
qed

lemma fm_sum_upd [go_simps]:
  "fm_sum f (fmupd k v m) = fm_sum f m - (case fmlookup m k of None \<Rightarrow> 0 | Some w \<Rightarrow> f w) + f v"
proof -
  have d: "fmdrop k (fmupd k v m) = fmdrop k m" by (intro fmap_ext) auto
  have "fm_sum f (fmdrop k (fmupd k v m)) = fm_sum f (fmupd k v m) - f v"
    by (simp add: fm_sum_drop)
  with fm_sum_drop [of f k m] show ?thesis by (simp add: d)
qed

text \<open>Reading a \<^verbatim>\<open>map[K]int\<close>: an absent key reads as zero.\<close>

definition get0 :: "('k, 'v::zero) fmap \<Rightarrow> 'k \<Rightarrow> 'v" where
  "get0 m k = (case fmlookup m k of None \<Rightarrow> 0 | Some n \<Rightarrow> n)"

lemma get0_empty [go_simps]: "get0 fmempty k = 0"
  by (simp add: get0_def)

lemma get0_upd [go_simps]: "get0 (fmupd j n m) k = (if j = k then n else get0 m k)"
  by (simp add: get0_def)

lemma get0_absent: "k \<notin> fset (fmdom m) \<Longrightarrow> get0 m k = 0"
  by (simp add: get0_def fmdom_notD)

lemma fm_sum_get0: "fm_sum (\<lambda>n. n) m = (\<Sum>k\<in>fset (fmdom m). get0 m k)"
  unfolding fm_sum_def get0_def by (rule sum.cong) (auto simp: fmlookup_dom_iff)

section \<open>Library functions\<close>

text \<open>\<^verbatim>\<open>strconv.FormatUint(n, 10)\<close>.\<close>

fun dec :: "nat \<Rightarrow> string" where
  "dec n = (if n < 10 then [char_of (48 + n)] else dec (n div 10) @ [char_of (48 + n mod 10)])"

declare dec.simps [simp del]

definition dec_int :: "int \<Rightarrow> string" where
  "dec_int n = (if n < 0 then CHR ''-'' # dec (nat (- n)) else dec (nat n))"

text \<open>\<^verbatim>\<open>strings.Join\<close>.\<close>

fun join_with :: "string \<Rightarrow> string list \<Rightarrow> string" where
  "join_with sep [] = []"
| "join_with sep [w] = w"
| "join_with sep (w # ws) = w @ sep @ join_with sep ws"

text \<open>
  \<^verbatim>\<open>sort.Slice\<close> with a comparison function, by insertion. Where the comparison is a strict order
  that is total on the elements, the sorted list is unique and the algorithm does not matter: the
  locale \<^verbatim>\<open>sort_order\<close>.
\<close>

fun insert_by :: "('a \<Rightarrow> 'a \<Rightarrow> bool) \<Rightarrow> 'a \<Rightarrow> 'a list \<Rightarrow> 'a list" where
  "insert_by lt x [] = [x]"
| "insert_by lt x (y # ys) = (if lt y x then y # insert_by lt x ys else x # y # ys)"

definition sort_by :: "('a \<Rightarrow> 'a \<Rightarrow> bool) \<Rightarrow> 'a list \<Rightarrow> 'a list" where
  "sort_by lt xs = foldr (insert_by lt) xs []"

lemma mset_insert_by [simp]: "mset (insert_by lt x ys) = add_mset x (mset ys)"
  by (induction ys) auto

lemma mset_sort_by [simp]: "mset (sort_by lt xs) = mset xs"
  by (induction xs) (simp_all add: sort_by_def)

lemma set_sort_by [simp]: "set (sort_by lt xs) = set xs"
  by (metis mset_sort_by set_mset_mset)

lemma length_sort_by [simp]: "length (sort_by lt xs) = length xs"
  by (metis mset_sort_by size_mset)

lemma distinct_sort_by [simp]: "distinct (sort_by lt xs) = distinct xs"
  by (metis mset_sort_by mset_eq_imp_distinct_iff)

lemma distinct_map_sort_by [simp]: "distinct (map f (sort_by lt xs)) = distinct (map f xs)"
  by (metis mset_eq_imp_distinct_iff mset_map mset_sort_by)

locale sort_order =
  fixes lt :: "'a \<Rightarrow> 'a \<Rightarrow> bool" and A :: "'a set" and key :: "'a \<Rightarrow> 'k"
  assumes lt_irrefl: "a \<in> A \<Longrightarrow> \<not> lt a a"
    and lt_trans: "a \<in> A \<Longrightarrow> b \<in> A \<Longrightarrow> c \<in> A \<Longrightarrow> lt a b \<Longrightarrow> lt b c \<Longrightarrow> lt a c"
    and lt_total: "a \<in> A \<Longrightarrow> b \<in> A \<Longrightarrow> key a \<noteq> key b \<Longrightarrow> lt a b \<or> lt b a"
begin

lemma sorted_insert_by:
  assumes "sorted_wrt lt ys" "set (x # ys) \<subseteq> A" "key x \<notin> key ` set ys"
  shows "sorted_wrt lt (insert_by lt x ys)"
  using assms
proof (induction ys)
  case (Cons y ys)
  have set: "set (insert_by lt x ys) = insert x (set ys)" by (metis mset_insert_by set_mset_add_mset_insert set_mset_mset)
  show ?case
  proof (cases "lt y x")
    case True
    with Cons show ?thesis by (auto simp: set)
  next
    case False
    with Cons.prems lt_total [of x y] have "lt x y" by auto
    with Cons.prems lt_trans have "\<forall>z\<in>set ys. lt x z" by (simp, blast)
    with \<open>lt x y\<close> False Cons.prems show ?thesis by auto
  qed
qed simp

lemma sorted_sort_by:
  "set xs \<subseteq> A \<Longrightarrow> distinct (map key xs) \<Longrightarrow> sorted_wrt lt (sort_by lt xs)"
proof (induction xs)
  case (Cons x xs)
  then have "sorted_wrt lt (insert_by lt x (sort_by lt xs))" by (intro sorted_insert_by) auto
  then show ?case by (simp add: sort_by_def)
qed (simp add: sort_by_def)

lemma sorted_unique:
  "sorted_wrt lt xs \<Longrightarrow> sorted_wrt lt ys \<Longrightarrow> mset xs = mset ys \<Longrightarrow> set xs \<subseteq> A \<Longrightarrow> xs = ys"
proof (induction xs arbitrary: ys)
  case (Cons x xs)
  then obtain y zs where ys: "ys = y # zs" by (cases ys) auto
  have sets: "insert x (set xs) = insert y (set zs)"
    using arg_cong [OF Cons.prems(3), of set_mset] by (simp add: ys)
  have "x = y"
  proof (rule ccontr)
    assume "x \<noteq> y"
    with sets have "x \<in> set zs" "y \<in> set xs" by auto
    with Cons.prems ys have "lt y x" "lt x y" "x \<in> A" "y \<in> A" by auto
    with lt_trans lt_irrefl show False by blast
  qed
  with Cons ys show ?case by simp
qed simp

text \<open>Any sorted permutation is the one \<^verbatim>\<open>sort_by\<close> computes.\<close>

lemma sort_by_unique:
  "set xs \<subseteq> A \<Longrightarrow> distinct (map key xs) \<Longrightarrow> mset ys = mset xs \<Longrightarrow> sorted_wrt lt ys \<Longrightarrow> ys = sort_by lt xs"
  by (rule sorted_unique) (auto simp: sorted_sort_by dest: mset_eq_setD)

text \<open>The first elements are the least ones.\<close>

lemma take_sort_by:
  assumes "set xs \<subseteq> A" "distinct (map key xs)" "a \<in> set (take k (sort_by lt xs))"
    and "b \<in> set xs" "b \<notin> set (take k (sort_by lt xs))"
  shows "lt a b"
proof -
  have "b \<in> set (take k (sort_by lt xs)) \<union> set (drop k (sort_by lt xs))"
    unfolding set_append [symmetric] append_take_drop_id using assms(4) by simp
  moreover have "sorted_wrt lt (take k (sort_by lt xs) @ drop k (sort_by lt xs))"
    using sorted_sort_by [OF assms(1,2)] by simp
  ultimately show ?thesis using assms(3,5) unfolding sorted_wrt_append by blast
qed

end

text \<open>The strings of \<^verbatim>\<open>sort.Strings\<close>.\<close>

interpretation string_order: sort_order "(<) :: 'a::linorder \<Rightarrow> 'a \<Rightarrow> bool" UNIV "\<lambda>x. x"
  by unfold_locales auto

section \<open>Ranging over a map\<close>

locale map_range =
  fixes rng :: "'a fset \<Rightarrow> 'a list"
  assumes range_distinct: "distinct (rng S)"
    and range_set: "set (rng S) = fset S"
begin

lemma range_length: "length (rng S) = fcard S"
  by (metis distinct_card fcard.rep_eq range_distinct range_set)

lemma range_empty [simp]: "rng {||} = []"
  using range_set [of "{||}"] by simp

lemma range_perm:
  assumes "distinct xs" and "set xs = fset S"
  shows "mset (rng S) = mset xs"
  using assms by (simp add: range_distinct range_set set_eq_iff_mset_eq_distinct [symmetric])

end

text \<open>One order that can be computed: increasing keys.\<close>

interpretation sorted_range: map_range "sorted_list_of_fset :: 'a::linorder fset \<Rightarrow> 'a list"
  by unfold_locales (simp_all add: sorted_list_of_fset.rep_eq)

section \<open>State machines\<close>

text \<open>
  A component whose goroutines are interleaved is a step function, undefined where a step is not enabled, and
  the run of a list of steps.
\<close>

locale step_machine =
  fixes step :: "'e \<Rightarrow> 's \<Rightarrow> 's option" and run :: "'e list \<Rightarrow> 's \<Rightarrow> 's option"
  assumes run_Nil: "run [] s = Some s"
    and run_Cons: "run (e # es) s = Option.bind (step e s) (run es)"
begin

lemma run_append: "run (es @ fs) s = Option.bind (run es s) (run fs)"
  by (induction es arbitrary: s) (simp_all add: run_Nil run_Cons split: bind_splits)

text \<open>What every allowed step keeps, every run of allowed steps keeps.\<close>

lemma run_invariant:
  assumes "run es s = Some s'" "P s" "\<And>e. e \<in> set es \<Longrightarrow> ok e"
    and "\<And>e s s'. P s \<Longrightarrow> ok e \<Longrightarrow> step e s = Some s' \<Longrightarrow> P s'"
  shows "P s'"
  using assms(1-3)
proof (induction es arbitrary: s)
  case (Cons e es)
  then obtain s1 where "step e s = Some s1" "run es s1 = Some s'" by (auto simp: run_Cons Option.bind_eq_Some_conv)
  with Cons show ?case using assms(4) [of s e s1] by simp
qed (simp add: run_Nil)

end

end
