(* ===== verification/Commands.thy ===== *)
theory Commands
  imports Nawst_Prelude
begin

text \<open>
  The commands of \<^verbatim>\<open>src/core/loop.go\<close> and the errors of \<^verbatim>\<open>src/core/errors.go\<close>, shared by the store,
  the write-ahead log, the event loop and the RPC layer.
\<close>

text \<open>\<^verbatim>\<open>OpType\<close> is a \<^verbatim>\<open>uint8\<close>: a byte read back from the log may be none of the three constants.\<close>

type_synonym OpType = u8

definition OpPut :: OpType where "OpPut = 0"
definition OpGet :: OpType where "OpGet = 1"
definition OpDelete :: OpType where "OpDelete = 2"

lemmas op_defs = OpPut_def OpGet_def OpDelete_def

lemma op_distinct [simp]:
  "OpPut \<noteq> OpGet" "OpPut \<noteq> OpDelete" "OpGet \<noteq> OpPut" "OpGet \<noteq> OpDelete" "OpDelete \<noteq> OpPut"
  "OpDelete \<noteq> OpGet"
  by (simp_all add: op_defs)

record Command =
  cmd_Op :: OpType
  cmd_Key :: string
  cmd_Value :: bytes
  cmd_VNodeID :: u16
  cmd_Version :: u64

datatype core_error = ErrKeyNotFound | ErrInvalidKey | ErrInvalidOperation

end
