(* ===== verification/Versioned_KV.thy ===== *)
theory Versioned_KV
  imports Commands
begin

text \<open>
  What the store promises, without its indexes: a map from keys to a version and a value (or a
  tombstone), where a write takes effect unless a newer version is known. The locale
  \<open>versioned_store\<close> is the contract of an implementation; its lemmas give clients
  order-independence and read-back.
\<close>

section \<open>Last writer wins\<close>

type_synonym vstate = "string \<rightharpoonup> u64 \<times> bytes option"

definition cur_version :: "vstate \<Rightarrow> string \<Rightarrow> u64" where
  "cur_version st k = (case st k of None \<Rightarrow> 0 | Some (ver, _) \<Rightarrow> ver)"

definition effect :: "Command \<Rightarrow> bytes option" where
  "effect c = (if cmd_Op c = OpPut then Some (cmd_Value c) else None)"

definition is_write :: "Command \<Rightarrow> bool" where
  "is_write c \<longleftrightarrow> cmd_Op c = OpPut \<or> cmd_Op c = OpDelete"

definition vwrite :: "Command \<Rightarrow> vstate \<Rightarrow> vstate" where
  "vwrite c st =
     (let cur = cur_version st (cmd_Key c);
          ver = (if cmd_Version c = 0 then cur + 1 else cmd_Version c)
      in if cmd_Version c \<noteq> 0 \<and> cmd_Version c < cur then st
         else if is_write c then st(cmd_Key c \<mapsto> (ver, effect c))
         else st)"

definition vread :: "vstate \<Rightarrow> string \<Rightarrow> core_error + (bytes \<times> u64)" where
  "vread st k = (case st k of Some (ver, Some val) \<Rightarrow> Inr (val, ver) | _ \<Rightarrow> Inl ErrKeyNotFound)"

text \<open>Two commands agree when they do not give one version of one key two different contents.\<close>

definition agree :: "Command \<Rightarrow> Command \<Rightarrow> bool" where
  "agree c d \<longleftrightarrow> (cmd_Key c = cmd_Key d \<and> cmd_Version c = cmd_Version d
      \<longrightarrow> is_write c = is_write d \<and> effect c = effect d)"

definition versioned :: "Command \<Rightarrow> bool" where
  "versioned c \<longleftrightarrow> cmd_Version c \<noteq> 0"

lemma cur_version_upd [simp]:
  "cur_version (st(k \<mapsto> (ver, e))) k' = (if k' = k then ver else cur_version st k')"
  by (simp add: cur_version_def)

lemma vwrite_other: "k \<noteq> cmd_Key c \<Longrightarrow> vwrite c st k = st k"
  by (simp add: vwrite_def Let_def)

lemma vwrite_versioned:
  "versioned c \<Longrightarrow> vwrite c st =
     (if is_write c \<and> cur_version st (cmd_Key c) \<le> cmd_Version c
      then st(cmd_Key c \<mapsto> (cmd_Version c, effect c)) else st)"
  by (auto simp: versioned_def vwrite_def Let_def)

lemma vwrite_commute:
  assumes "versioned c" "versioned d" "agree c d"
  shows "vwrite c (vwrite d st) = vwrite d (vwrite c st)"
proof (cases "cmd_Key c = cmd_Key d")
  case True
  with assms show ?thesis
    by (cases "cmd_Version c" "cmd_Version d" rule: linorder_cases)
      (auto simp: vwrite_versioned agree_def)
next
  case False
  with assms(1,2) show ?thesis
    by (auto simp: vwrite_versioned fun_upd_twist)
qed

lemma vwrite_idem: "versioned c \<Longrightarrow> vwrite c (vwrite c st) = vwrite c st"
  by (auto simp: vwrite_versioned)

lemma vwrite_set_fold:
  assumes "\<forall>c\<in>set cs. versioned c" "\<forall>c\<in>set cs. \<forall>d\<in>set cs. agree c d" "set ds = set cs"
  shows "fold vwrite cs st = fold vwrite ds st"
proof -
  have idem: "comp_fun_idem_on (set cs) vwrite"
    by unfold_locales (auto simp: fun_eq_iff vwrite_commute vwrite_idem assms(1,2))
  have "Finite_Set.fold vwrite st (set cs) = fold vwrite cs st"
    by (rule comp_fun_idem_on.fold_set_fold [OF idem]) simp
  moreover have "Finite_Set.fold vwrite st (set ds) = fold vwrite ds st"
    by (rule comp_fun_idem_on.fold_set_fold [OF idem]) (simp add: assms(3))
  ultimately show ?thesis by (simp add: assms(3))
qed

text \<open>Versions only grow, and a write that was seen is not older than what is kept.\<close>

lemma cur_version_vwrite:
  "versioned c \<Longrightarrow> cur_version (vwrite c st) k =
     (if is_write c \<and> k = cmd_Key c then max (cur_version st k) (cmd_Version c) else cur_version st k)"
  by (auto simp: vwrite_versioned max_def)

lemma cur_version_fold_mono:
  "\<forall>c\<in>set cs. versioned c \<Longrightarrow> cur_version st k \<le> cur_version (fold vwrite cs st) k"
proof (induction cs arbitrary: st)
  case (Cons c cs)
  have "cur_version st k \<le> cur_version (vwrite c st) k" using Cons.prems by (simp add: cur_version_vwrite)
  also have "\<dots> \<le> cur_version (fold vwrite cs (vwrite c st)) k" using Cons by simp
  finally show ?case by simp
qed simp

lemma cur_version_fold_seen:
  assumes "\<forall>c\<in>set cs. versioned c" "c \<in> set cs" "is_write c"
  shows "cmd_Version c \<le> cur_version (fold vwrite cs st) (cmd_Key c)"
proof -
  from assms(2) obtain xs ys where cs: "cs = xs @ c # ys" by (auto simp: in_set_conv_decomp)
  have "cmd_Version c \<le> cur_version (vwrite c (fold vwrite xs st)) (cmd_Key c)"
    using assms(1,3) cs by (simp add: cur_version_vwrite)
  also have "\<dots> \<le> cur_version (fold vwrite ys (vwrite c (fold vwrite xs st))) (cmd_Key c)"
    using assms(1) cs by (intro cur_version_fold_mono) simp
  finally show ?thesis by (simp add: cs)
qed

section \<open>The contract of a store\<close>

locale versioned_store =
  fixes exec :: "Command \<Rightarrow> 's \<Rightarrow> 's"
    and read :: "'s \<Rightarrow> string \<Rightarrow> core_error + (bytes \<times> u64)"
    and abs :: "'s \<Rightarrow> vstate"
    and ok :: "'s \<Rightarrow> bool"
    and valid :: "Command \<Rightarrow> bool"
  assumes exec_ok: "ok s \<Longrightarrow> valid c \<Longrightarrow> ok (exec c s)"
    and exec_abs: "ok s \<Longrightarrow> valid c \<Longrightarrow> abs (exec c s) = vwrite c (abs s)"
    and read_abs: "ok s \<Longrightarrow> read s k = vread (abs s) k"
begin

lemma fold_ok: "ok s \<Longrightarrow> \<forall>c\<in>set cs. valid c \<Longrightarrow> ok (fold exec cs s)"
  by (induction cs arbitrary: s) (auto simp: exec_ok)

lemma fold_abs: "ok s \<Longrightarrow> \<forall>c\<in>set cs. valid c \<Longrightarrow> abs (fold exec cs s) = fold vwrite cs (abs s)"
  by (induction cs arbitrary: s) (auto simp: exec_ok exec_abs)

lemma converge:
  assumes "ok s" "ok t" "abs s = abs t" "\<forall>c\<in>set cs. valid c \<and> versioned c"
    and "\<forall>c\<in>set cs. \<forall>d\<in>set cs. agree c d" "set ds = set cs"
  shows "read (fold exec cs s) k = read (fold exec ds t) k"
proof -
  have "fold vwrite cs (abs s) = fold vwrite ds (abs t)"
    using assms(3-6) vwrite_set_fold [of cs ds "abs t"] by simp
  with assms show ?thesis
    by (simp add: read_abs fold_ok fold_abs)
qed

lemma read_exec:
  assumes "ok s" "valid c" "versioned c" "is_write c"
  shows "read (exec c s) k =
    (if k = cmd_Key c \<and> cur_version (abs s) k \<le> cmd_Version c
     then (case effect c of Some val \<Rightarrow> Inr (val, cmd_Version c) | None \<Rightarrow> Inl ErrKeyNotFound)
     else read s k)"
proof -
  have "read (exec c s) k = vread (vwrite c (abs s)) k"
    using assms(1,2) by (simp add: read_abs exec_ok exec_abs)
  then show ?thesis
    using assms by (auto simp: vwrite_versioned vread_def read_abs)
qed

end

end
