(* ===== verification/Store.thy ===== *)
theory Store
  imports Versioned_KV
begin

text \<open>
  \<^verbatim>\<open>src/core/store.go\<close>: the versioned key-value store with its per-vnode key and tombstone indexes
  and its counters, that it keeps them consistent, and that it implements the abstract versioned
  map of \<open>Versioned_KV\<close>.
\<close>

section \<open>The store\<close>

record keyMeta =
  meta_Version :: u64
  meta_Tombstone :: bool

record Store =
  storage :: "(string, bytes) fmap"
  vNodeIdx :: "(u16, string fset) fmap"
  tombstoneIdx :: "(u16, string fset) fmap"
  meta :: "(string, keyMeta) fmap"
  tombstoneCount :: int
  valueBytes :: int
  vnodesWithData :: int
  vnodesWithTombstones :: int

definition NewStore :: Store where
  "NewStore = \<lparr>storage = fmempty, vNodeIdx = fmempty, tombstoneIdx = fmempty, meta = fmempty,
     tombstoneCount = 0, valueBytes = 0, vnodesWithData = 0, vnodesWithTombstones = 0\<rparr>"

text \<open>\<^verbatim>\<open>s.meta[key]\<close>: the zero \<^verbatim>\<open>keyMeta\<close> where the key is absent.\<close>

definition meta_get :: "Store \<Rightarrow> string \<Rightarrow> keyMeta" where
  "meta_get s k = (case fmlookup (meta s) k of
     None \<Rightarrow> \<lparr>meta_Version = 0, meta_Tombstone = False\<rparr> | Some m \<Rightarrow> m)"


subsection \<open>Apply\<close>

text \<open>
  The two index updates of \<^verbatim>\<open>Apply\<close>, each on a pair of an index and its counter. Adding a key to a
  vnode's set counts the vnode when the set was empty; removing one leaves the (possibly empty) set
  in place and stops counting the vnode when the set becomes empty, if the counter is positive.
\<close>

definition idx_add :: "u16 \<Rightarrow> string \<Rightarrow> (u16, string fset) fmap \<times> int \<Rightarrow> (u16, string fset) fmap \<times> int"
where
  "idx_add v k = (\<lambda>(idx, n).
     (fmupd v (finsert k (idx_set idx v)) idx, if fcard (idx_set idx v) = 0 then n + 1 else n))"

definition idx_remove :: "u16 \<Rightarrow> string \<Rightarrow> (u16, string fset) fmap \<times> int \<Rightarrow> (u16, string fset) fmap \<times> int"
where
  "idx_remove v k = (\<lambda>(idx, n).
     (case fmlookup idx v of
        None \<Rightarrow> (idx, n)
      | Some ks \<Rightarrow>
          (if k |\<in>| ks
           then (let ks' = ks |-| {|k|}
                 in (fmupd v ks' idx, if fcard ks' = 0 \<and> n > 0 then n - 1 else n))
           else (idx, n))))"

definition apply_put :: "Command \<Rightarrow> Store \<Rightarrow> Store" where
  "apply_put c s =
     (let k = cmd_Key c;
          curMeta = meta_get s k;
          oldLen = (case fmlookup (storage s) k of None \<Rightarrow> 0 | Some old \<Rightarrow> int (length old));
          (vi, nd) = idx_add (cmd_VNodeID c) k (vNodeIdx s, vnodesWithData s);
          (ti, nt) = idx_remove (cmd_VNodeID c) k (tombstoneIdx s, vnodesWithTombstones s)
      in s\<lparr>storage := fmupd k (cmd_Value c) (storage s),
           valueBytes := valueBytes s - oldLen + int (length (cmd_Value c)),
           vNodeIdx := vi, vnodesWithData := nd,
           tombstoneIdx := ti, vnodesWithTombstones := nt,
           tombstoneCount := (if meta_Tombstone curMeta then tombstoneCount s - 1 else tombstoneCount s),
           meta := fmupd k \<lparr>meta_Version = cmd_Version c, meta_Tombstone = False\<rparr> (meta s)\<rparr>)"

definition apply_delete :: "Command \<Rightarrow> Store \<Rightarrow> Store" where
  "apply_delete c s =
     (let k = cmd_Key c;
          curMeta = meta_get s k;
          oldLen = (case fmlookup (storage s) k of None \<Rightarrow> 0 | Some old \<Rightarrow> int (length old));
          (vi, nd) = idx_remove (cmd_VNodeID c) k (vNodeIdx s, vnodesWithData s);
          (ti, nt) = idx_add (cmd_VNodeID c) k (tombstoneIdx s, vnodesWithTombstones s)
      in s\<lparr>storage := fmdrop k (storage s),
           valueBytes := valueBytes s - oldLen,
           vNodeIdx := vi, vnodesWithData := nd,
           tombstoneIdx := ti, vnodesWithTombstones := nt,
           tombstoneCount := (if \<not> meta_Tombstone curMeta then tombstoneCount s + 1 else tombstoneCount s),
           meta := fmupd k \<lparr>meta_Version = cmd_Version c, meta_Tombstone = True\<rparr> (meta s)\<rparr>)"

definition Apply :: "Command \<Rightarrow> Store \<Rightarrow> core_error option \<times> Store" where
  "Apply cmd0 s =
     (let curMeta = meta_get s (cmd_Key cmd0)
      in if cmd_Version cmd0 \<noteq> 0 \<and> cmd_Version cmd0 < meta_Version curMeta then (None, s)
         else
           (let cmd = (if cmd_Version cmd0 = 0 then cmd0\<lparr>cmd_Version := meta_Version curMeta + 1\<rparr>
                       else cmd0)
            in if cmd_Op cmd = OpPut then (None, apply_put cmd s)
               else if cmd_Op cmd = OpDelete then (None, apply_delete cmd s)
               else (Some ErrInvalidOperation, s)))"

subsection \<open>Reads\<close>

definition GetWithVersion :: "Store \<Rightarrow> string \<Rightarrow> core_error + (bytes \<times> u64)" where
  "GetWithVersion s key =
     (case fmlookup (storage s) key of
        None \<Rightarrow> Inl ErrKeyNotFound
      | Some val \<Rightarrow>
          (let m = meta_get s key
           in if meta_Tombstone m then Inl ErrKeyNotFound else Inr (val, meta_Version m)))"

definition Get :: "Store \<Rightarrow> string \<Rightarrow> core_error + bytes" where
  "Get s key = (case GetWithVersion s key of Inl e \<Rightarrow> Inl e | Inr (val, _) \<Rightarrow> Inr val)"

definition GetKeysForVNode :: "(string fset \<Rightarrow> string list) \<Rightarrow> Store \<Rightarrow> u16 \<Rightarrow> string list" where
  "GetKeysForVNode rng s v =
     (case fmlookup (vNodeIdx s) v of None \<Rightarrow> [] | Some ks \<Rightarrow> rng ks)"

record SnapshotEntry =
  ent_Key :: string
  ent_Value :: bytes
  ent_Version :: u64
  ent_Tombstone :: bool

record VNodeSnapshot =
  snap_VNodeID :: u16
  snap_Entries :: "SnapshotEntry list"

definition data_entries :: "Store \<Rightarrow> string list \<Rightarrow> SnapshotEntry list" where
  "data_entries s ks = List.map_filter (\<lambda>k.
     (case fmlookup (storage s) k of
        None \<Rightarrow> None
      | Some val \<Rightarrow> Some \<lparr>ent_Key = k, ent_Value = val,
          ent_Version = meta_Version (meta_get s k), ent_Tombstone = meta_Tombstone (meta_get s k)\<rparr>)) ks"

definition tombstone_entries :: "Store \<Rightarrow> string list \<Rightarrow> SnapshotEntry list" where
  "tombstone_entries s ks = map (\<lambda>k.
     \<lparr>ent_Key = k, ent_Value = [], ent_Version = meta_Version (meta_get s k), ent_Tombstone = True\<rparr>) ks"

definition SnapshotVNode :: "(string fset \<Rightarrow> string list) \<Rightarrow> Store \<Rightarrow> u16 \<Rightarrow> VNodeSnapshot" where
  "SnapshotVNode rng s v =
     (case fmlookup (vNodeIdx s) v of
        None \<Rightarrow> \<lparr>snap_VNodeID = v, snap_Entries = []\<rparr>
      | Some ks \<Rightarrow> \<lparr>snap_VNodeID = v,
          snap_Entries = data_entries s (rng ks)
            @ tombstone_entries s (rng (idx_set (tombstoneIdx s) v))\<rparr>)"

subsection \<open>Dropping a vnode\<close>

text \<open>
  The two loops delete keys and count down once per tombstone, whatever the order; the map
  deletions are written as one bulk deletion, the counting as a recursion over the set's size.
\<close>

fun count_down :: "nat \<Rightarrow> int \<Rightarrow> int" where
  "count_down 0 n = n"
| "count_down (Suc i) n = count_down i (if n > 0 then n - 1 else n)"

definition DeleteVNodeData :: "u16 \<Rightarrow> Store \<Rightarrow> Store" where
  "DeleteVNodeData v s =
     (let indexSet = idx_set (vNodeIdx s) v;
          tsSet = idx_set (tombstoneIdx s) v
      in if fcard indexSet = 0 \<and> fcard tsSet = 0 then s
         else s\<lparr>storage := fmdrop_fset indexSet (storage s),
                meta := fmdrop_fset tsSet (fmdrop_fset indexSet (meta s)),
                tombstoneCount := count_down (fcard tsSet) (tombstoneCount s),
                vnodesWithData := (if fcard indexSet > 0 \<and> vnodesWithData s > 0
                  then vnodesWithData s - 1 else vnodesWithData s),
                vnodesWithTombstones := (if fcard tsSet > 0 \<and> vnodesWithTombstones s > 0
                  then vnodesWithTombstones s - 1 else vnodesWithTombstones s),
                vNodeIdx := fmdrop v (vNodeIdx s),
                tombstoneIdx := fmdrop v (tombstoneIdx s)\<rparr>)"


section \<open>Index updates\<close>

lemma idx_set_add [go_simps]:
  "idx_set (fst (idx_add v k (idx, n))) u = (if u = v then finsert k (idx_set idx v) else idx_set idx u)"
  by (simp add: idx_add_def go_simps)

lemma idx_set_remove [go_simps]:
  "idx_set (fst (idx_remove v k (idx, n))) u = (if u = v then idx_set idx v |-| {|k|} else idx_set idx u)"
  by (auto simp: idx_remove_def idx_set_def Let_def split: option.splits)

lemma idx_add_count:
  "n = int (card (used idx)) \<Longrightarrow>
     snd (idx_add v k (idx, n)) = int (card (used (fst (idx_add v k (idx, n)))))"
  by (auto simp: idx_add_def go_simps in_used card_insert_if)

lemma idx_remove_count:
  assumes "n = int (card (used idx))"
  shows "snd (idx_remove v k (idx, n)) = int (card (used (fst (idx_remove v k (idx, n)))))"
proof (cases "k |\<in>| idx_set idx v")
  case True
  then obtain ks where ks: "fmlookup idx v = Some ks" "k |\<in>| ks"
    by (auto simp: idx_set_def split: option.splits)
  then have u: "v \<in> used idx" by (auto simp: in_used idx_set_Some)
  have "0 < card (used idx)" by (rule card_used_pos [OF u])
  with ks u assms show ?thesis
    by (auto simp: idx_remove_def Let_def go_simps insert_absorb int_card_Diff1)
next
  case False
  with assms show ?thesis
    by (auto simp: idx_remove_def idx_set_def split: option.splits)
qed

section \<open>Well-formed stores\<close>

text \<open>
  A key is live when it has a value and dead when its last write was a delete. The RPC layer tags
  every command with the vnode of its key (\<open>vn\<close>), and a store built from such commands keeps its
  indexes and counters in agreement with the data.
\<close>

definition live :: "Store \<Rightarrow> string \<Rightarrow> bool" where
  "live s k \<longleftrightarrow> fmlookup (storage s) k \<noteq> None"

definition dead :: "Store \<Rightarrow> string \<Rightarrow> bool" where
  "dead s k \<longleftrightarrow> meta_Tombstone (meta_get s k)"

definition index_ok :: "(string \<Rightarrow> u16) \<Rightarrow> Store \<Rightarrow> bool" where
  "index_ok vn s \<longleftrightarrow>
     (\<forall>k. live s k \<longleftrightarrow> fmlookup (meta s) k \<noteq> None \<and> \<not> dead s k) \<and>
     (\<forall>v k. k |\<in>| idx_set (vNodeIdx s) v \<longleftrightarrow> v = vn k \<and> live s k) \<and>
     (\<forall>v k. k |\<in>| idx_set (tombstoneIdx s) v \<longleftrightarrow> v = vn k \<and> dead s k)"

definition counts_ok :: "Store \<Rightarrow> bool" where
  "counts_ok s \<longleftrightarrow>
     tombstoneCount s = int (card {k. dead s k}) \<and>
     vnodesWithData s = int (card (used (vNodeIdx s))) \<and>
     vnodesWithTombstones s = int (card (used (tombstoneIdx s)))"

definition bytes_ok :: "Store \<Rightarrow> bool" where
  "bytes_ok s \<longleftrightarrow> valueBytes s = fm_sum (\<lambda>val. int (length val)) (storage s)"

definition store_ok :: "(string \<Rightarrow> u16) \<Rightarrow> Store \<Rightarrow> bool" where
  "store_ok vn s \<longleftrightarrow> index_ok vn s \<and> counts_ok s \<and> bytes_ok s"

definition well_tagged :: "(string \<Rightarrow> u16) \<Rightarrow> Command \<Rightarrow> bool" where
  "well_tagged vn c \<longleftrightarrow> cmd_VNodeID c = vn (cmd_Key c)"

lemma index_okD:
  assumes "index_ok vn s"
  shows "live s k \<longleftrightarrow> fmlookup (meta s) k \<noteq> None \<and> \<not> dead s k"
    and "k |\<in>| idx_set (vNodeIdx s) v \<longleftrightarrow> v = vn k \<and> live s k"
    and "k |\<in>| idx_set (tombstoneIdx s) v \<longleftrightarrow> v = vn k \<and> dead s k"
  using assms unfolding index_ok_def by blast+

lemma finite_dead [simp, intro]: "finite {k. dead s k}"
proof -
  have "{k. dead s k} \<subseteq> fset (fmdom (meta s))"
    by (auto simp: dead_def meta_get_def fmlookup_dom_iff split: option.splits)
  then show ?thesis by (rule finite_subset) simp
qed

lemma store_ok_index: "store_ok vn s \<Longrightarrow> index_ok vn s"
  by (simp add: store_ok_def)

subsection \<open>What a put and a delete write\<close>

lemma storage_put [simp]: "storage (apply_put c s) = fmupd (cmd_Key c) (cmd_Value c) (storage s)"
  by (simp add: apply_put_def Let_def split: prod.splits)

lemma meta_put [simp]:
  "meta (apply_put c s) = fmupd (cmd_Key c) \<lparr>meta_Version = cmd_Version c, meta_Tombstone = False\<rparr> (meta s)"
  by (simp add: apply_put_def Let_def split: prod.splits)

lemma index_put:
  "vNodeIdx (apply_put c s) = fst (idx_add (cmd_VNodeID c) (cmd_Key c) (vNodeIdx s, vnodesWithData s))"
  "vnodesWithData (apply_put c s) = snd (idx_add (cmd_VNodeID c) (cmd_Key c) (vNodeIdx s, vnodesWithData s))"
  "tombstoneIdx (apply_put c s) =
     fst (idx_remove (cmd_VNodeID c) (cmd_Key c) (tombstoneIdx s, vnodesWithTombstones s))"
  "vnodesWithTombstones (apply_put c s) =
     snd (idx_remove (cmd_VNodeID c) (cmd_Key c) (tombstoneIdx s, vnodesWithTombstones s))"
  by (simp_all add: apply_put_def Let_def split: prod.splits)

lemma storage_delete [simp]: "storage (apply_delete c s) = fmdrop (cmd_Key c) (storage s)"
  by (simp add: apply_delete_def Let_def split: prod.splits)

lemma meta_delete [simp]:
  "meta (apply_delete c s) = fmupd (cmd_Key c) \<lparr>meta_Version = cmd_Version c, meta_Tombstone = True\<rparr> (meta s)"
  by (simp add: apply_delete_def Let_def split: prod.splits)

lemma index_delete:
  "vNodeIdx (apply_delete c s) =
     fst (idx_remove (cmd_VNodeID c) (cmd_Key c) (vNodeIdx s, vnodesWithData s))"
  "vnodesWithData (apply_delete c s) =
     snd (idx_remove (cmd_VNodeID c) (cmd_Key c) (vNodeIdx s, vnodesWithData s))"
  "tombstoneIdx (apply_delete c s) =
     fst (idx_add (cmd_VNodeID c) (cmd_Key c) (tombstoneIdx s, vnodesWithTombstones s))"
  "vnodesWithTombstones (apply_delete c s) =
     snd (idx_add (cmd_VNodeID c) (cmd_Key c) (tombstoneIdx s, vnodesWithTombstones s))"
  by (simp_all add: apply_delete_def Let_def split: prod.splits)

lemma live_put: "live (apply_put c s) k \<longleftrightarrow> k = cmd_Key c \<or> live s k"
  by (auto simp: live_def)

lemma live_delete: "live (apply_delete c s) k \<longleftrightarrow> k \<noteq> cmd_Key c \<and> live s k"
  by (auto simp: live_def)

lemma dead_put: "dead (apply_put c s) k \<longleftrightarrow> k \<noteq> cmd_Key c \<and> dead s k"
  by (auto simp: dead_def meta_get_def)

lemma dead_delete: "dead (apply_delete c s) k \<longleftrightarrow> k = cmd_Key c \<or> dead s k"
  by (auto simp: dead_def meta_get_def)

lemmas put_facts = live_put dead_put index_put
lemmas delete_facts = live_delete dead_delete index_delete

subsection \<open>Preservation\<close>

lemma store_ok_NewStore: "store_ok vn NewStore"
  by (simp add: store_ok_def index_ok_def counts_ok_def bytes_ok_def NewStore_def live_def dead_def
      meta_get_def go_simps)

lemma index_ok_put: "index_ok vn s \<Longrightarrow> well_tagged vn c \<Longrightarrow> index_ok vn (apply_put c s)"
  unfolding index_ok_def [of vn "apply_put c s"] well_tagged_def
  by (auto simp: put_facts go_simps index_okD(2,3)) (auto simp: index_okD(1))

lemma index_ok_delete: "index_ok vn s \<Longrightarrow> well_tagged vn c \<Longrightarrow> index_ok vn (apply_delete c s)"
  unfolding index_ok_def [of vn "apply_delete c s"] well_tagged_def
  by (auto simp: delete_facts go_simps index_okD(2,3)) (auto simp: index_okD(1))

lemma counts_ok_put: "counts_ok s \<Longrightarrow> counts_ok (apply_put c s)"
proof -
  assume ok: "counts_ok s"
  have "{k. dead (apply_put c s) k} = {k. dead s k} - {cmd_Key c}"
    by (auto simp: dead_put)
  moreover have "tombstoneCount (apply_put c s)
      = (if dead s (cmd_Key c) then tombstoneCount s - 1 else tombstoneCount s)"
    by (simp add: apply_put_def Let_def dead_def split: prod.splits)
  moreover have "int (card ({k. dead s k} - {cmd_Key c}))
      = (if dead s (cmd_Key c) then int (card {k. dead s k}) - 1 else int (card {k. dead s k}))"
    using int_card_Diff1 [OF finite_dead, of "cmd_Key c" s] by (cases "dead s (cmd_Key c)") auto
  ultimately have "tombstoneCount (apply_put c s) = int (card {k. dead (apply_put c s) k})"
    using ok by (simp add: counts_ok_def)
  with ok show ?thesis
    by (simp add: counts_ok_def index_put idx_add_count idx_remove_count)
qed

lemma counts_ok_delete: "counts_ok s \<Longrightarrow> counts_ok (apply_delete c s)"
proof -
  assume ok: "counts_ok s"
  have "{k. dead (apply_delete c s) k} = insert (cmd_Key c) {k. dead s k}"
    by (auto simp: dead_delete)
  moreover have "tombstoneCount (apply_delete c s)
      = (if dead s (cmd_Key c) then tombstoneCount s else tombstoneCount s + 1)"
    by (simp add: apply_delete_def Let_def dead_def split: prod.splits)
  ultimately have "tombstoneCount (apply_delete c s) = int (card {k. dead (apply_delete c s) k})"
    using ok by (simp add: counts_ok_def card_insert_if)
  with ok show ?thesis
    by (simp add: counts_ok_def index_delete idx_add_count idx_remove_count)
qed


lemma bytes_ok_put: "bytes_ok s \<Longrightarrow> bytes_ok (apply_put c s)"
  by (auto simp: bytes_ok_def go_simps) (auto simp: apply_put_def Let_def split: prod.splits option.splits)

lemma bytes_ok_delete: "bytes_ok s \<Longrightarrow> bytes_ok (apply_delete c s)"
  by (auto simp: bytes_ok_def go_simps) (auto simp: apply_delete_def Let_def split: prod.splits option.splits)

lemma store_ok_put: "store_ok vn s \<Longrightarrow> well_tagged vn c \<Longrightarrow> store_ok vn (apply_put c s)"
  by (simp add: store_ok_def index_ok_put counts_ok_put bytes_ok_put)

lemma store_ok_delete: "store_ok vn s \<Longrightarrow> well_tagged vn c \<Longrightarrow> store_ok vn (apply_delete c s)"
  by (simp add: store_ok_def index_ok_delete counts_ok_delete bytes_ok_delete)

lemma well_tagged_version [simp]: "well_tagged vn (c\<lparr>cmd_Version := n\<rparr>) \<longleftrightarrow> well_tagged vn c"
  by (simp add: well_tagged_def)

lemma store_ok_Apply: "store_ok vn s \<Longrightarrow> well_tagged vn c \<Longrightarrow> store_ok vn (snd (Apply c s))"
  by (simp add: Apply_def Let_def store_ok_put store_ok_delete)


section \<open>The store implements the versioned map\<close>

definition store_abs :: "Store \<Rightarrow> vstate" where
  "store_abs s k = (case fmlookup (meta s) k of
     None \<Rightarrow> None
   | Some m \<Rightarrow> Some (meta_Version m, if meta_Tombstone m then None else fmlookup (storage s) k))"

lemma cur_version_store_abs [simp]: "cur_version (store_abs s) k = meta_Version (meta_get s k)"
  by (simp add: cur_version_def store_abs_def meta_get_def split: option.splits)

lemma store_abs_put:
  "store_abs (apply_put c s) = (store_abs s)(cmd_Key c \<mapsto> (cmd_Version c, Some (cmd_Value c)))"
  by (auto simp: store_abs_def fun_eq_iff split: option.splits)

lemma store_abs_delete:
  "store_abs (apply_delete c s) = (store_abs s)(cmd_Key c \<mapsto> (cmd_Version c, None))"
  by (auto simp: store_abs_def fun_eq_iff split: option.splits)

lemma store_abs_Apply: "store_abs (snd (Apply c s)) = vwrite c (store_abs s)"
  by (auto simp: Apply_def vwrite_def Let_def store_abs_put store_abs_delete is_write_def effect_def)

lemma GetWithVersion_abs: "index_ok vn s \<Longrightarrow> GetWithVersion s k = vread (store_abs s) k"
  using index_okD(1) [of vn s k]
  by (auto simp: GetWithVersion_def vread_def store_abs_def live_def dead_def meta_get_def Let_def
      split: option.splits if_splits)

interpretation kv: versioned_store "\<lambda>c s. snd (Apply c s)" GetWithVersion store_abs "store_ok vn" "well_tagged vn"
  for vn
  by unfold_locales (auto simp: store_ok_Apply store_abs_Apply intro: GetWithVersion_abs store_ok_index)


section \<open>Snapshots\<close>

text \<open>What an entry of a snapshot says of its key.\<close>

definition ent_state :: "SnapshotEntry \<Rightarrow> string \<times> u64 \<times> bytes option" where
  "ent_state e = (ent_Key e, ent_Version e, if ent_Tombstone e then None else Some (ent_Value e))"

lemma data_entries_state:
  assumes "index_ok vn s" "\<forall>k\<in>set ks. live s k"
  shows "map ent_state (data_entries s ks) = map (\<lambda>k. (k, the (store_abs s k))) ks"
  using assms(2)
proof (induction ks)
  case Nil
  show ?case by (simp add: data_entries_def map_filter_simps)
next
  case (Cons k ks)
  from Cons.prems have l: "live s k" by simp
  with assms(1) have "fmlookup (meta s) k \<noteq> None" "\<not> dead s k"
    by (simp_all add: index_okD(1))
  with l obtain val where "fmlookup (storage s) k = Some val" "store_abs s k = Some (meta_Version (meta_get s k), Some val)"
    by (auto simp: live_def dead_def store_abs_def meta_get_def)
  with Cons \<open>\<not> dead s k\<close> show ?case
    by (simp add: data_entries_def map_filter_simps ent_state_def dead_def)
qed

lemma tombstone_entries_state:
  assumes "\<forall>k\<in>set ks. dead s k"
  shows "map ent_state (tombstone_entries s ks) = map (\<lambda>k. (k, the (store_abs s k))) ks"
  using assms
  by (induction ks)
    (auto simp: tombstone_entries_def ent_state_def dead_def store_abs_def meta_get_def split: option.splits)

definition vnode_keys :: "(string \<Rightarrow> u16) \<Rightarrow> Store \<Rightarrow> u16 \<Rightarrow> string set" where
  "vnode_keys vn s v = {k. vn k = v \<and> store_abs s k \<noteq> None}"

lemma vnode_keys_index:
  assumes "index_ok vn s"
  shows "vnode_keys vn s v = fset (idx_set (vNodeIdx s) v) \<union> fset (idx_set (tombstoneIdx s) v)"
    and "fset (idx_set (vNodeIdx s) v) \<inter> fset (idx_set (tombstoneIdx s) v) = {}"
proof -
  have "store_abs s k \<noteq> None \<longleftrightarrow> live s k \<or> dead s k" for k
    using index_okD(1) [OF assms, of k]
    by (auto simp: store_abs_def dead_def meta_get_def split: option.splits)
  then show "vnode_keys vn s v = fset (idx_set (vNodeIdx s) v) \<union> fset (idx_set (tombstoneIdx s) v)"
    by (auto simp: vnode_keys_def index_okD(2,3) [OF assms])
  show "fset (idx_set (vNodeIdx s) v) \<inter> fset (idx_set (tombstoneIdx s) v) = {}"
    by (auto simp: index_okD [OF assms])
qed

text \<open>
  A snapshot of a vnode that has been written to lists each of the vnode's keys once, with what the
  store holds for it.
\<close>

lemma snapshot_complete:
  assumes ok: "index_ok vn s" and rng: "map_range rng" and known: "fmlookup (vNodeIdx s) v \<noteq> None"
  shows "\<exists>ks. distinct ks \<and> set ks = vnode_keys vn s v \<and>
     map ent_state (snap_Entries (SnapshotVNode rng s v)) = map (\<lambda>k. (k, the (store_abs s k))) ks"
proof -
  define ds where "ds = rng (idx_set (vNodeIdx s) v)"
  define ts where "ts = rng (idx_set (tombstoneIdx s) v)"
  have sets: "set ds = fset (idx_set (vNodeIdx s) v)" "set ts = fset (idx_set (tombstoneIdx s) v)"
    and dist: "distinct ds" "distinct ts"
    using rng by (simp_all add: ds_def ts_def map_range_def)
  have "map ent_state (data_entries s ds) = map (\<lambda>k. (k, the (store_abs s k))) ds"
    by (rule data_entries_state [OF ok]) (simp add: sets index_okD(2) [OF ok])
  moreover have "map ent_state (tombstone_entries s ts) = map (\<lambda>k. (k, the (store_abs s k))) ts"
    by (rule tombstone_entries_state) (simp add: sets index_okD(3) [OF ok])
  moreover have "snap_Entries (SnapshotVNode rng s v) = data_entries s ds @ tombstone_entries s ts"
    using known by (auto simp: SnapshotVNode_def ds_def ts_def idx_set_def)
  ultimately have "map ent_state (snap_Entries (SnapshotVNode rng s v)) = map (\<lambda>k. (k, the (store_abs s k))) (ds @ ts)"
    by simp
  moreover have "distinct (ds @ ts)" "set (ds @ ts) = vnode_keys vn s v"
    using dist vnode_keys_index [OF ok, of v] by (simp_all add: sets)
  ultimately show ?thesis by blast
qed

section \<open>Dropping a vnode\<close>

lemma count_down_eq: "int i \<le> n \<Longrightarrow> count_down i n = n - int i"
  by (induction i arbitrary: n) auto

lemma store_abs_DeleteVNodeData:
  assumes "index_ok vn s"
  shows "store_abs (DeleteVNodeData v s) k = (if vn k = v then None else store_abs s k)"
proof -
  have keys: "k |\<in>| idx_set (vNodeIdx s) v \<or> k |\<in>| idx_set (tombstoneIdx s) v \<longleftrightarrow> vn k = v \<and> store_abs s k \<noteq> None"
    using vnode_keys_index(1) [OF assms, of v] by (auto simp: vnode_keys_def)
  show ?thesis
  proof (cases "idx_set (vNodeIdx s) v = {||} \<and> idx_set (tombstoneIdx s) v = {||}")
    case True
    with keys show ?thesis by (cases "store_abs s k") (auto simp: DeleteVNodeData_def)
  next
    case False
    then have "store_abs (DeleteVNodeData v s) k =
      (if k |\<in>| idx_set (vNodeIdx s) v \<or> k |\<in>| idx_set (tombstoneIdx s) v then None else store_abs s k)"
      by (auto simp: DeleteVNodeData_def store_abs_def Let_def split: option.splits)
    with keys show ?thesis by auto
  qed
qed


lemma live_DeleteVNodeData:
  assumes "index_ok vn s"
  shows "live (DeleteVNodeData v s) k \<longleftrightarrow> vn k \<noteq> v \<and> live s k"
  using index_okD(2) [OF assms, of k v]
  by (auto simp: DeleteVNodeData_def live_def Let_def)

lemma dead_DeleteVNodeData:
  assumes "index_ok vn s"
  shows "dead (DeleteVNodeData v s) k \<longleftrightarrow> vn k \<noteq> v \<and> dead s k"
proof -
  have "dead t k \<longleftrightarrow> (\<exists>ver. store_abs t k = Some (ver, None) \<and> meta_Tombstone (the (fmlookup (meta t) k)))" for t
    by (auto simp: dead_def store_abs_def meta_get_def split: option.splits)
  moreover have "vn k \<noteq> v \<Longrightarrow> fmlookup (meta (DeleteVNodeData v s)) k = fmlookup (meta s) k"
    using index_okD(2,3) [OF assms, of k v] by (auto simp: DeleteVNodeData_def Let_def)
  ultimately show ?thesis
    by (auto simp: store_abs_DeleteVNodeData [OF assms])
qed

lemma index_DeleteVNodeData:
  "idx_set (vNodeIdx (DeleteVNodeData v s)) u = (if u = v then {||} else idx_set (vNodeIdx s) u)"
  "idx_set (tombstoneIdx (DeleteVNodeData v s)) u = (if u = v then {||} else idx_set (tombstoneIdx s) u)"
  by (auto simp: DeleteVNodeData_def Let_def go_simps)

lemma index_ok_DeleteVNodeData:
  assumes "index_ok vn s"
  shows "index_ok vn (DeleteVNodeData v s)"
proof -
  have "fmlookup (meta (DeleteVNodeData v s)) k \<noteq> None \<longleftrightarrow> vn k \<noteq> v \<and> fmlookup (meta s) k \<noteq> None" for k
    using store_abs_DeleteVNodeData [OF assms, of v k]
    by (auto simp: store_abs_def split: option.splits if_splits)
  then show ?thesis
    unfolding index_ok_def [of vn "DeleteVNodeData v s"]
    by (auto simp: live_DeleteVNodeData [OF assms] dead_DeleteVNodeData [OF assms] index_DeleteVNodeData
        index_okD(2,3) [OF assms]) (auto simp: index_okD(1) [OF assms])
qed

lemma tombstoneCount_DeleteVNodeData:
  assumes "index_ok vn s" "counts_ok s"
  shows "tombstoneCount (DeleteVNodeData v s) = int (card {k. dead (DeleteVNodeData v s) k})"
proof -
  let ?ts = "idx_set (tombstoneIdx s) v"
  have sub: "fset ?ts \<subseteq> {k. dead s k}" using assms(1) by (auto simp: index_okD(3))
  have "{k. dead (DeleteVNodeData v s) k} = {k. dead s k} - fset ?ts"
    by (auto simp: dead_DeleteVNodeData [OF assms(1)] index_okD(3) [OF assms(1)])
  then have "int (card {k. dead (DeleteVNodeData v s) k}) = int (card {k. dead s k}) - int (fcard ?ts)"
    using sub card_mono [OF finite_dead sub]
    by (simp add: card_Diff_subset fcard.rep_eq of_nat_diff)
  moreover have "int (fcard ?ts) \<le> tombstoneCount s"
    using assms(2) card_mono [OF finite_dead sub] by (simp add: counts_ok_def fcard.rep_eq)
  ultimately show ?thesis
    using assms(2) by (auto simp: DeleteVNodeData_def Let_def count_down_eq counts_ok_def)
qed

lemma count_drop_vnode:
  assumes "n = int (card (used idx))"
  shows "(if fcard (idx_set idx v) > 0 \<and> n > 0 then n - 1 else n) = int (card (used (fmdrop v idx)))"
proof (cases "v \<in> used idx")
  case True
  with assms card_used_pos [OF True] int_card_Diff1 [OF finite_used True] show ?thesis
    by (simp add: used_drop in_used)
next
  case False
  with assms show ?thesis by (simp add: used_drop in_used)
qed

lemma counts_ok_DeleteVNodeData:
  assumes "index_ok vn s" "counts_ok s"
  shows "counts_ok (DeleteVNodeData v s)"
proof (cases "idx_set (vNodeIdx s) v = {||} \<and> idx_set (tombstoneIdx s) v = {||}")
  case True
  with assms(2) show ?thesis by (simp add: DeleteVNodeData_def)
next
  case False
  from assms(2) have n: "vnodesWithData s = int (card (used (vNodeIdx s)))"
    "vnodesWithTombstones s = int (card (used (tombstoneIdx s)))"
    by (simp_all add: counts_ok_def)
  have "vnodesWithData (DeleteVNodeData v s) = int (card (used (vNodeIdx (DeleteVNodeData v s))))"
    "vnodesWithTombstones (DeleteVNodeData v s) = int (card (used (tombstoneIdx (DeleteVNodeData v s))))"
    using False
    by (auto simp: DeleteVNodeData_def Let_def count_drop_vnode [OF n(1), symmetric]
        count_drop_vnode [OF n(2), symmetric])
  with tombstoneCount_DeleteVNodeData [OF assms] show ?thesis
    by (simp add: counts_ok_def)
qed

text \<open>The bytes of the dropped values stay counted.\<close>

lemma fm_sum_drop_fset:
  "fm_sum f (fmdrop_fset S m) = fm_sum f m - (\<Sum>k\<in>fset (S |\<inter>| fmdom m). f (the (fmlookup m k)))"
proof -
  have dom: "fset (fmdom (fmdrop_fset S m)) = fset (fmdom m) - fset (S |\<inter>| fmdom m)" by auto
  have "fm_sum f (fmdrop_fset S m) = (\<Sum>k\<in>fset (fmdom m) - fset (S |\<inter>| fmdom m). f (the (fmlookup m k)))"
    unfolding fm_sum_def dom by (intro sum.cong) auto
  also have "\<dots> = fm_sum f m - (\<Sum>k\<in>fset (S |\<inter>| fmdom m). f (the (fmlookup m k)))"
    unfolding fm_sum_def by (rule sum_diff) auto
  finally show ?thesis .
qed

lemma dropped_bytes:
  assumes "index_ok vn s"
  shows "fm_sum f (storage (DeleteVNodeData v s))
    = fm_sum f (storage s) - (\<Sum>k | vn k = v \<and> live s k. f (the (fmlookup (storage s) k)))"
proof -
  let ?S = "idx_set (vNodeIdx s) v"
  have "storage (DeleteVNodeData v s) = fmdrop_fset ?S (storage s)"
    by (auto simp: DeleteVNodeData_def Let_def)
  moreover have "fset (?S |\<inter>| fmdom (storage s)) = {k. vn k = v \<and> live s k}"
    by (auto simp: index_okD(2) [OF assms] live_def fmlookup_dom_iff)
  ultimately show ?thesis by (simp add: fm_sum_drop_fset)
qed

lemma valueBytes_DeleteVNodeData [simp]: "valueBytes (DeleteVNodeData v s) = valueBytes s"
  by (simp add: DeleteVNodeData_def Let_def)


section \<open>Properties\<close>

definition exec :: "Command list \<Rightarrow> Store \<Rightarrow> Store" where
  "exec cs s = fold (\<lambda>c s. snd (Apply c s)) cs s"

definition put_cmd :: "string \<Rightarrow> bytes \<Rightarrow> u16 \<Rightarrow> u64 \<Rightarrow> Command" where
  "put_cmd k val v ver = \<lparr>cmd_Op = OpPut, cmd_Key = k, cmd_Value = val, cmd_VNodeID = v, cmd_Version = ver\<rparr>"

definition delete_cmd :: "string \<Rightarrow> u16 \<Rightarrow> u64 \<Rightarrow> Command" where
  "delete_cmd k v ver = \<lparr>cmd_Op = OpDelete, cmd_Key = k, cmd_Value = [], cmd_VNodeID = v, cmd_Version = ver\<rparr>"

lemmas cmd_eval = put_cmd_def delete_cmd_def well_tagged_def versioned_def agree_def is_write_def effect_def



text \<open>
  C5. Replicas converge: two stores that received the same versioned writes, in any order and with any
  of them delivered more than once, answer every read alike, provided one version of a key is never
  given two different contents.
\<close>

theorem replicas_converge:
  assumes "\<forall>c\<in>set cs. well_tagged vn c \<and> versioned c"
    and "\<forall>c\<in>set cs. \<forall>d\<in>set cs. agree c d"
    and "set ds = set cs"
  shows "GetWithVersion (exec cs NewStore) k = GetWithVersion (exec ds NewStore) k"
  unfolding exec_def using assms
  by (intro kv.converge [OF store_ok_NewStore store_ok_NewStore]) auto

theorem replicas_converge_witness:
  "GetWithVersion (exec [put_cmd ''a'' [1] 7 5, delete_cmd ''a'' 7 8] NewStore) ''a''
     = GetWithVersion (exec [delete_cmd ''a'' 7 8, put_cmd ''a'' [1] 7 5, delete_cmd ''a'' 7 8] NewStore) ''a''"
  by (rule replicas_converge [where vn = "\<lambda>_. 7"]) (auto simp: cmd_eval)

text \<open>
  A versioned write takes effect exactly when no newer version of its key is known: a read of the
  written key then gives its value and version (or, after a delete, that the key is not found), and
  every other read is unchanged. A stale write changes no read.
\<close>

theorem Apply_then_Get:
  assumes "store_ok vn s" "well_tagged vn c" "versioned c" "is_write c"
  shows "GetWithVersion (snd (Apply c s)) k =
    (if k = cmd_Key c \<and> meta_Version (meta_get s k) \<le> cmd_Version c
     then (case effect c of Some val \<Rightarrow> Inr (val, cmd_Version c) | None \<Rightarrow> Inl ErrKeyNotFound)
     else GetWithVersion s k)"
  using kv.read_exec [OF assms, of k] by simp

theorem Apply_then_Get_witness:
  "GetWithVersion (snd (Apply (put_cmd ''a'' [1, 2] 7 5) NewStore)) ''a'' = Inr ([1, 2], 5)"
  using Apply_then_Get [OF store_ok_NewStore, of "\<lambda>_. 7" "put_cmd ''a'' [1, 2] 7 5" "''a''"]
  by (simp add: cmd_eval NewStore_def meta_get_def)

text \<open>
  C28. Dropping a vnode removes exactly its keys and keeps the indexes and the tombstone and vnode
  counters right, but the byte counter goes on counting the values that were dropped.
\<close>

theorem DeleteVNodeData_drops:
  assumes "store_ok vn s"
  shows "index_ok vn (DeleteVNodeData v s) \<and> counts_ok (DeleteVNodeData v s)
    \<and> store_abs (DeleteVNodeData v s) = (\<lambda>k. if vn k = v then None else store_abs s k)
    \<and> valueBytes (DeleteVNodeData v s) = fm_sum (\<lambda>val. int (length val)) (storage (DeleteVNodeData v s))
        + (\<Sum>k | vn k = v \<and> live s k. int (length (the (fmlookup (storage s) k))))"
  using assms
  by (auto simp: store_ok_def index_ok_DeleteVNodeData counts_ok_DeleteVNodeData
      store_abs_DeleteVNodeData dropped_bytes bytes_ok_def)

theorem DeleteVNodeData_drops_witness:
  "let s = snd (Apply (put_cmd ''a'' [1, 2] 7 5) NewStore)
   in store_abs (DeleteVNodeData 7 s) ''a'' = None \<and> valueBytes (DeleteVNodeData 7 s) = 2"
proof -
  have "store_ok (\<lambda>_. 7) (snd (Apply (put_cmd ''a'' [1, 2] 7 5) NewStore))"
    by (rule store_ok_Apply [OF store_ok_NewStore]) (simp add: cmd_eval)
  from DeleteVNodeData_drops [OF this, of 7] show ?thesis
    by (simp add: Let_def Apply_def cmd_eval meta_get_def NewStore_def apply_put_def idx_add_def
        idx_remove_def idx_set_def)
qed

text \<open>
  A snapshot of a vnode that never held a value on this node has no entries, so a delete known only
  as a tombstone is not handed to the node that asks for the vnode.
\<close>

theorem SnapshotVNode_misses_tombstones:
  assumes "cmd_Op c = OpDelete"
  shows "let s = snd (Apply c NewStore)
    in dead s (cmd_Key c) \<and> cmd_Key c |\<in>| idx_set (tombstoneIdx s) (cmd_VNodeID c)
      \<and> snap_Entries (SnapshotVNode rng s (cmd_VNodeID c)) = []"
  using assms
  by (simp add: Let_def Apply_def NewStore_def apply_delete_def meta_get_def dead_def idx_add_def
      idx_remove_def go_simps SnapshotVNode_def)

theorem SnapshotVNode_misses_tombstones_witness:
  "snap_Entries (SnapshotVNode sorted_list_of_fset (snd (Apply (delete_cmd ''a'' 7 9) NewStore)) 7) = []"
  using SnapshotVNode_misses_tombstones [of "delete_cmd ''a'' 7 9" sorted_list_of_fset]
  by (simp add: cmd_eval Let_def)

end
