(* ===== verification/Wal_Codec.thy ===== *)
theory Wal_Codec
  imports Commands "HOL-Library.Sublist"
begin

text \<open>
  The record format of the write-ahead log, \<^verbatim>\<open>src/core/wal.go\<close>: how the writer encodes a command
  and how \<^verbatim>\<open>ReplayWal\<close> reads a log back. The pieces of \<^verbatim>\<open>encoding/binary\<close> and \<^verbatim>\<open>io\<close> it uses
  (fixed width big-endian integers, unsigned varints, \<^verbatim>\<open>ReadFull\<close>) are modelled as Go documents
  them; a read error is a value.
\<close>

section \<open>Bytes, integers and varints\<close>

datatype wal_error =
    EOF              \<comment> \<open>\<^verbatim>\<open>io.EOF\<close>\<close>
  | UnexpectedEOF    \<comment> \<open>\<^verbatim>\<open>io.ErrUnexpectedEOF\<close>\<close>
  | VarintOverflow
  | MakeslicePanic   \<comment> \<open>\<^verbatim>\<open>make([]byte, n)\<close> with \<open>n\<close> beyond what the runtime can allocate\<close>
  | ApplyError core_error

definition short_read :: "wal_error \<Rightarrow> bool" where
  "short_read e \<longleftrightarrow> e = EOF \<or> e = UnexpectedEOF"

definition key_bytes :: "string \<Rightarrow> bytes" where
  "key_bytes k = map (\<lambda>c. of_nat (of_char c)) k"

definition key_string :: "bytes \<Rightarrow> string" where
  "key_string bs = map (\<lambda>b. char_of (unat b)) bs"

lemma key_string_bytes [simp]: "key_string (key_bytes k) = k"
  by (simp add: key_bytes_def key_string_def o_def unat_of_nat)

lemma length_key_bytes [simp]: "length (key_bytes k) = length k"
  by (simp add: key_bytes_def)

fun put_be :: "nat \<Rightarrow> nat \<Rightarrow> bytes" where
  "put_be 0 n = []"
| "put_be (Suc k) n = put_be k (n div 256) @ [of_nat (n mod 256)]"

definition be_val :: "bytes \<Rightarrow> nat" where
  "be_val bs = foldl (\<lambda>acc b. acc * 256 + unat b) 0 bs"

lemma length_put_be [simp]: "length (put_be k n) = k"
  by (induction k arbitrary: n) auto

lemma be_val_put_be: "n < 256 ^ k \<Longrightarrow> be_val (put_be k n) = n"
proof (induction k arbitrary: n)
  case 0
  then show ?case by (simp add: be_val_def)
next
  case (Suc k)
  have "n div 256 < 256 ^ k" using Suc.prems by (simp add: less_mult_imp_div_less mult.commute)
  with Suc.IH have "be_val (put_be k (n div 256)) = n div 256" by blast
  then show ?case by (simp add: be_val_def unat_of_nat)
qed

fun put_uvarint :: "nat \<Rightarrow> bytes" where
  "put_uvarint n = (if n < 128 then [of_nat n] else of_nat (n mod 128 + 128) # put_uvarint (n div 128))"

declare put_uvarint.simps [simp del]

section \<open>Readers\<close>

text \<open>A reader consumes a prefix of its input, or fails.\<close>

type_synonym 'a reader = "bytes \<Rightarrow> wal_error + 'a \<times> bytes"

definition rbind :: "'a reader \<Rightarrow> ('a \<Rightarrow> 'b reader) \<Rightarrow> 'b reader" where
  "rbind r f bs = (case r bs of Inl e \<Rightarrow> Inl e | Inr (x, rest) \<Rightarrow> f x rest)"

definition rreturn :: "'a \<Rightarrow> 'a reader" where
  "rreturn x bs = Inr (x, bs)"

fun read_byte :: "u8 reader" where
  "read_byte [] = Inl EOF"
| "read_byte (b # bs) = Inr (b, bs)"

definition read_full :: "nat \<Rightarrow> bytes reader" where
  "read_full n bs =
     (if n \<le> length bs then Inr (take n bs, drop n bs)
      else Inl (if bs = [] then EOF else UnexpectedEOF))"

text \<open>\<^verbatim>\<open>binary.ReadUvarint\<close>: at most ten bytes, the tenth at most 1.\<close>

fun read_uvarint_from :: "nat \<Rightarrow> nat \<Rightarrow> nat reader" where
  "read_uvarint_from i x [] = Inl (if 10 \<le> i then VarintOverflow else if i = 0 then EOF else UnexpectedEOF)"
| "read_uvarint_from i x (b # bs) =
     (if 10 \<le> i then Inl VarintOverflow
      else if unat b < 128 then
        (if i = 9 \<and> 1 < unat b then Inl VarintOverflow else Inr (x + unat b * 2 ^ (7 * i), bs))
      else read_uvarint_from (Suc i) (x + (unat b - 128) * 2 ^ (7 * i)) bs)"

definition read_uvarint :: "nat reader" where
  "read_uvarint = read_uvarint_from 0 0"

definition read_blob :: "nat \<Rightarrow> bytes reader" where
  "read_blob maxAlloc =
     rbind read_uvarint (\<lambda>n. if maxAlloc < n then (\<lambda>_. Inl MakeslicePanic) else read_full n)"

section \<open>Records\<close>

definition encode_cmd :: "Command \<Rightarrow> bytes" where
  "encode_cmd c = cmd_Op c # put_be 2 (unat (cmd_VNodeID c)) @ put_be 8 (unat (cmd_Version c))
     @ put_uvarint (length (cmd_Key c)) @ key_bytes (cmd_Key c)
     @ put_uvarint (length (cmd_Value c)) @ cmd_Value c"

definition read_cmd :: "nat \<Rightarrow> Command reader" where
  "read_cmd maxAlloc =
     rbind read_byte (\<lambda>op.
     rbind (read_full 2) (\<lambda>vnodeBytes.
     rbind (read_full 8) (\<lambda>versionBytes.
     rbind (read_blob maxAlloc) (\<lambda>key.
     rbind (read_blob maxAlloc) (\<lambda>val.
     rreturn \<lparr>cmd_Op = op, cmd_Key = key_string key, cmd_Value = val,
       cmd_VNodeID = of_nat (be_val vnodeBytes), cmd_Version = of_nat (be_val versionBytes)\<rparr>)))))"

section \<open>What a reader does with an encoding\<close>

text \<open>
  \<open>reads r x enc\<close>: \<open>r\<close> reads \<open>x\<close> off an input that starts with \<open>enc\<close> and leaves the rest, and runs
  short on every proper prefix of \<open>enc\<close>.
\<close>

definition reads :: "'a reader \<Rightarrow> 'a \<Rightarrow> bytes \<Rightarrow> bool" where
  "reads r x enc \<longleftrightarrow> (\<forall>rest. r (enc @ rest) = Inr (x, rest)) \<and>
     (\<forall>p. strict_prefix p enc \<longrightarrow> (\<exists>e. r p = Inl e \<and> short_read e))"

lemma readsI:
  assumes "\<And>rest. r (enc @ rest) = Inr (x, rest)"
    and "\<And>p. strict_prefix p enc \<Longrightarrow> \<exists>e. r p = Inl e \<and> short_read e"
  shows "reads r x enc"
  using assms by (simp add: reads_def)

lemma readsD: "reads r x enc \<Longrightarrow> r (enc @ rest) = Inr (x, rest)"
  by (simp add: reads_def)

lemma reads_short: "reads r x enc \<Longrightarrow> strict_prefix p enc \<Longrightarrow> \<exists>e. r p = Inl e \<and> short_read e"
  by (simp add: reads_def)

lemma strict_prefix_append_cases:
  assumes "strict_prefix p (a @ b)"
  obtains "strict_prefix p a" | q where "p = a @ q" "strict_prefix q b"
proof -
  from assms have "prefix p (a @ b)" "p \<noteq> a @ b" by (auto simp: strict_prefix_def)
  then consider "prefix p a" | q where "p = a @ q" "prefix q b"
    by (auto simp: prefix_append)
  then show thesis
  proof cases
    case 1
    then show ?thesis
    proof (cases "p = a")
      case True
      with assms have "b \<noteq> []" by auto
      with True that(2) [of "[]"] show ?thesis by (simp add: strict_prefix_def)
    qed (use 1 that(1) in \<open>auto simp: strict_prefix_def\<close>)
  next
    case 2
    with assms that(2) [of q] show ?thesis by (auto simp: strict_prefix_def)
  qed
qed

lemma reads_rreturn: "reads (rreturn x) x []"
  by (rule readsI) (auto simp: rreturn_def)

lemma reads_rbind:
  assumes r: "reads r x a" and f: "reads (f x) y b"
  shows "reads (rbind r f) y (a @ b)"
proof (rule readsI)
  fix rest
  show "rbind r f ((a @ b) @ rest) = Inr (y, rest)"
    using readsD [OF r, of "b @ rest"] readsD [OF f, of rest] by (simp add: rbind_def)
next
  fix p
  assume "strict_prefix p (a @ b)"
  then show "\<exists>e. rbind r f p = Inl e \<and> short_read e"
  proof (cases rule: strict_prefix_append_cases)
    case 1
    from reads_short [OF r this] show ?thesis by (auto simp: rbind_def)
  next
    case (2 q)
    from reads_short [OF f this(2)] readsD [OF r, of q] this(1) show ?thesis
      by (auto simp: rbind_def)
  qed
qed

lemma reads_byte: "reads read_byte b [b]"
  by (rule readsI) (auto simp: short_read_def strict_prefix_def prefix_Cons)

lemma reads_full: "length enc = n \<Longrightarrow> reads (read_full n) enc enc"
proof (rule readsI)
  fix p
  assume "length enc = n" "strict_prefix p enc"
  then have "length p < n" using prefix_length_less by blast
  then show "\<exists>e. read_full n p = Inl e \<and> short_read e"
    by (simp add: read_full_def short_read_def)
qed (simp add: read_full_def)

lemma varint_digit: "r * 2 ^ (7 * i) + q * 2 ^ (7 * Suc i) = (r + q * 128) * 2 ^ (7 * i)" for r q :: nat
  by (simp add: power_add algebra_simps)

lemma reads_uvarint_from:
  assumes "n < 2 ^ (64 - 7 * i)" "i \<le> 9"
  shows "reads (read_uvarint_from i x) (x + n * 2 ^ (7 * i)) (put_uvarint n)"
  using assms
proof (induction n arbitrary: i x rule: put_uvarint.induct)
  case (1 n)
  show ?case
  proof (cases "n < 128")
    case True
    have "i = 9 \<Longrightarrow> n < 2" using "1.prems" by simp
    with True "1.prems"(2) show ?thesis
      by (intro readsI) (auto simp: put_uvarint.simps [of n] unat_of_nat short_read_def strict_prefix_def prefix_Cons)
  next
    case False
    have i: "Suc i \<le> 9"
    proof (rule ccontr)
      assume "\<not> Suc i \<le> 9"
      with "1.prems" have "n < 2" by (auto simp: not_le less_Suc_eq_le dest: le_antisym)
      with False show False by simp
    qed
    have "64 - 7 * i = (64 - 7 * Suc i) + 7" using i by simp
    then have "n < 2 ^ (64 - 7 * Suc i) * 128" using "1.prems"(1) by (simp only: power_add) simp
    then have "n div 128 < 2 ^ (64 - 7 * Suc i)" by (simp add: less_mult_imp_div_less)
    from "1.IH" [OF False this i, of "x + (n mod 128) * 2 ^ (7 * i)"]
    have IH: "reads (read_uvarint_from (Suc i) (x + (n mod 128) * 2 ^ (7 * i)))
       (x + (n mod 128) * 2 ^ (7 * i) + n div 128 * 2 ^ (7 * Suc i)) (put_uvarint (n div 128))" .
    have "(n mod 128) * 2 ^ (7 * i) + n div 128 * 2 ^ (7 * Suc i) = (n mod 128 + n div 128 * 128) * 2 ^ (7 * i)"
      by (rule varint_digit)
    also have "n mod 128 + n div 128 * 128 = n" by simp
    finally have val: "x + (n mod 128) * 2 ^ (7 * i) + n div 128 * 2 ^ (7 * Suc i) = x + n * 2 ^ (7 * i)"
      by (simp only: add.assoc)
    have hd: "unat (of_nat (n mod 128 + 128) :: u8) = n mod 128 + 128"
      by (simp add: unat_of_nat del: of_nat_add)
    have step: "read_uvarint_from i x (of_nat (n mod 128 + 128) # bs)
        = read_uvarint_from (Suc i) (x + (n mod 128) * 2 ^ (7 * i)) bs" for bs
      using i by (simp add: hd del: of_nat_add)
    have put: "put_uvarint n = of_nat (n mod 128 + 128) # put_uvarint (n div 128)"
      using False by (simp add: put_uvarint.simps [of n])
    show ?thesis
    proof (rule readsI)
      fix rest
      show "read_uvarint_from i x (put_uvarint n @ rest) = Inr (x + n * 2 ^ (7 * i), rest)"
        using readsD [OF IH, of rest] unfolding put append_Cons step val .
    next
      fix p
      assume p: "strict_prefix p (put_uvarint n)"
      show "\<exists>e. read_uvarint_from i x p = Inl e \<and> short_read e"
      proof (cases p)
        case Nil
        with i show ?thesis by (simp add: short_read_def)
      next
        case (Cons b q)
        with p have "b = of_nat (n mod 128 + 128)" "strict_prefix q (put_uvarint (n div 128))"
          unfolding put by (simp_all del: of_nat_add)
        with reads_short [OF IH] show ?thesis unfolding Cons by (simp only: step)
      qed
    qed
  qed
qed

lemma reads_uvarint: "n < 2 ^ 64 \<Longrightarrow> reads read_uvarint n (put_uvarint n)"
  using reads_uvarint_from [of n 0 0] by (simp add: read_uvarint_def)

lemma reads_blob:
  assumes "length bs \<le> maxAlloc" "length bs < 2 ^ 64"
  shows "reads (read_blob maxAlloc) bs (put_uvarint (length bs) @ bs)"
  unfolding read_blob_def
  by (rule reads_rbind [OF reads_uvarint [OF assms(2)]]) (use assms(1) in \<open>simp add: reads_full\<close>)

text \<open>Keys and values the log can hold: shorter than the address space.\<close>

definition fits :: "nat \<Rightarrow> Command \<Rightarrow> bool" where
  "fits maxAlloc c \<longleftrightarrow>
     length (cmd_Key c) \<le> maxAlloc \<and> length (cmd_Value c) \<le> maxAlloc \<and>
     length (cmd_Key c) < 2 ^ 64 \<and> length (cmd_Value c) < 2 ^ 64"

lemma be_word:
  fixes w :: "'a::len word"
  assumes "256 ^ k = (2 :: nat) ^ LENGTH('a)"
  shows "of_nat (be_val (put_be k (unat w))) = w"
  by (simp add: assms be_val_put_be unsigned_less)

lemma reads_cmd:
  assumes "fits maxAlloc c"
  shows "reads (read_cmd maxAlloc) c (encode_cmd c)"
proof -
  have key: "reads (read_blob maxAlloc) (key_bytes (cmd_Key c))
      (put_uvarint (length (cmd_Key c)) @ key_bytes (cmd_Key c))"
    using assms reads_blob [of "key_bytes (cmd_Key c)" maxAlloc] by (simp add: fits_def)
  have val: "reads (read_blob maxAlloc) (cmd_Value c) (put_uvarint (length (cmd_Value c)) @ cmd_Value c)"
    using assms reads_blob [of "cmd_Value c" maxAlloc] by (simp add: fits_def)
  have "\<lparr>cmd_Op = cmd_Op c, cmd_Key = key_string (key_bytes (cmd_Key c)),
      cmd_Value = cmd_Value c, cmd_VNodeID = of_nat (be_val (put_be 2 (unat (cmd_VNodeID c)))),
      cmd_Version = of_nat (be_val (put_be 8 (unat (cmd_Version c))))\<rparr> = c" (is "?r = c")
    by (cases c) (simp add: be_word)
  then have ret: "reads (rreturn ?r) c []"
    using reads_rreturn [of c] by (simp only:)
  have "reads (read_cmd maxAlloc) c ([cmd_Op c] @ put_be 2 (unat (cmd_VNodeID c))
     @ put_be 8 (unat (cmd_Version c))
     @ (put_uvarint (length (cmd_Key c)) @ key_bytes (cmd_Key c))
     @ (put_uvarint (length (cmd_Value c)) @ cmd_Value c) @ [])"
    unfolding read_cmd_def
    by (rule reads_rbind reads_byte reads_full key val ret length_put_be)+
  then show ?thesis by (simp add: encode_cmd_def)
qed

section \<open>Replay\<close>

lemma read_full_length: "read_full n bs = Inr (x, rest) \<Longrightarrow> length rest \<le> length bs"
  by (auto simp: read_full_def split: if_splits)

lemma read_uvarint_from_length:
  "read_uvarint_from i x bs = Inr (n, rest) \<Longrightarrow> length rest \<le> length bs"
  by (induction i x bs rule: read_uvarint_from.induct) (auto split: if_splits)

lemma read_blob_length: "read_blob m bs = Inr (x, rest) \<Longrightarrow> length rest \<le> length bs"
  by (auto simp: read_blob_def rbind_def read_uvarint_def
      dest!: read_uvarint_from_length read_full_length split: sum.splits prod.splits if_splits)

lemma read_cmd_length: "read_cmd m bs = Inr (c, rest) \<Longrightarrow> length rest < length bs"
  by (cases bs)
    (auto simp: read_cmd_def rbind_def rreturn_def dest!: read_full_length read_blob_length
      split: sum.splits prod.splits)

text \<open>\<^verbatim>\<open>ReplayWal\<close> on the bytes of the log file, with the callback's state passed along.\<close>

function ReplayWal :: "nat \<Rightarrow> (Command \<Rightarrow> 's \<Rightarrow> core_error option \<times> 's) \<Rightarrow> bytes \<Rightarrow> 's \<Rightarrow> wal_error option \<times> 's"
where
  "ReplayWal maxAlloc appl bs s =
     (if bs = [] then (None, s)
      else (case read_cmd maxAlloc bs of
              Inl e \<Rightarrow> (Some e, s)
            | Inr (c, rest) \<Rightarrow>
                (case appl c s of
                   (Some e, s') \<Rightarrow> (Some (ApplyError e), s')
                 | (None, s') \<Rightarrow> ReplayWal maxAlloc appl rest s')))"
  by pat_completeness auto
termination
  by (relation "measure (\<lambda>(m, a, bs, s). length bs)") (auto dest: read_cmd_length)

declare ReplayWal.simps [simp del]

lemma encode_cmd_not_Nil [simp]: "encode_cmd c \<noteq> []"
  by (simp add: encode_cmd_def)

lemma ReplayWal_Nil [simp]: "ReplayWal m appl [] s = (None, s)"
  by (simp add: ReplayWal.simps)

lemma ReplayWal_encode:
  assumes "fits m c"
  shows "ReplayWal m appl (encode_cmd c @ rest) s =
    (case appl c s of (Some e, s') \<Rightarrow> (Some (ApplyError e), s') | (None, s') \<Rightarrow> ReplayWal m appl rest s')"
  by (subst ReplayWal.simps) (simp add: readsD [OF reads_cmd [OF assms]])

lemma ReplayWal_torn:
  assumes "fits m c" "strict_prefix p (encode_cmd c)" "p \<noteq> []"
  shows "\<exists>e. ReplayWal m appl p s = (Some e, s) \<and> short_read e"
  using reads_short [OF reads_cmd [OF assms(1)] assms(2)] assms(3)
  by (auto simp: ReplayWal.simps [of m appl p])


fun apply_cmds :: "(Command \<Rightarrow> 's \<Rightarrow> core_error option \<times> 's) \<Rightarrow> Command list \<Rightarrow> 's \<Rightarrow> core_error option \<times> 's"
where
  "apply_cmds appl [] s = (None, s)"
| "apply_cmds appl (c # cs) s =
     (case appl c s of (Some e, s') \<Rightarrow> (Some e, s') | (None, s') \<Rightarrow> apply_cmds appl cs s')"

abbreviation encode_all :: "Command list \<Rightarrow> bytes" where
  "encode_all cs \<equiv> concat (map encode_cmd cs)"

lemma ReplayWal_log:
  assumes "\<forall>c\<in>set cs. fits m c"
  shows "ReplayWal m appl (encode_all cs @ rest) s =
    (case apply_cmds appl cs s of
       (Some e, s') \<Rightarrow> (Some (ApplyError e), s') | (None, s') \<Rightarrow> ReplayWal m appl rest s')"
  using assms
  by (induction cs arbitrary: s) (auto simp: ReplayWal_encode split: option.splits prod.splits)

lemma apply_cmds_total:
  assumes "\<forall>c\<in>set cs. \<forall>s. fst (appl c s) = None"
  shows "apply_cmds appl cs s = (None, fold (\<lambda>c s. snd (appl c s)) cs s)"
  using assms
  by (induction cs arbitrary: s) (auto split: option.splits prod.splits, metis fst_conv option.distinct(1))

text \<open>Where a log file was cut: after some whole records, perhaps inside the next one.\<close>

lemma prefix_encode_all:
  assumes "prefix img (encode_all cs)"
  obtains k p where "k \<le> length cs" "img = encode_all (take k cs) @ p"
    "p = [] \<or> k < length cs \<and> strict_prefix p (encode_cmd (cs ! k))"
  using assms
proof (induction cs arbitrary: img thesis)
  case Nil
  then show ?case using Nil.prems(1) [of 0 "[]"] by simp
next
  case (Cons c cs)
  from Cons.prems(2) consider "strict_prefix img (encode_cmd c)" | img' where "img = encode_cmd c @ img'" "prefix img' (encode_all cs)"
    by (auto simp: prefix_append strict_prefix_def) (metis append_Nil2 Nil_prefix)
  then show ?case
  proof cases
    case 1
    then show ?thesis using Cons.prems(1) [of 0 img] by simp
  next
    case 2
    from Cons.IH [OF _ 2(2)] obtain k p where "k \<le> length cs" "img' = encode_all (take k cs) @ p"
      "p = [] \<or> k < length cs \<and> strict_prefix p (encode_cmd (cs ! k))" by metis
    with 2(1) show ?thesis using Cons.prems(1) [of "Suc k" p] by simp
  qed
qed

lemma length_encode_all_mono: "j \<le> k \<Longrightarrow> length (encode_all (take j cs)) \<le> length (encode_all (take k cs))"
proof -
  assume "j \<le> k"
  then have "take k cs = take j cs @ take (k - j) (drop j cs)"
    by (metis add_diff_inverse_nat not_less take_add)
  then show ?thesis by simp
qed

lemma ReplayWal_cut:
  assumes fit: "\<forall>c\<in>set cs. fits m c" and img: "prefix img (encode_all cs)"
    and total: "\<forall>c\<in>set cs. \<forall>s. fst (appl c s) = None"
    and len: "length (encode_all (take j cs)) \<le> length img" and j: "j \<le> length cs"
  shows "\<exists>k\<ge>j. k \<le> length cs \<and> snd (ReplayWal m appl img s) = fold (\<lambda>c s. snd (appl c s)) (take k cs) s
    \<and> (fst (ReplayWal m appl img s) = None \<longleftrightarrow> img = encode_all (take k cs))"
proof -
  from prefix_encode_all [OF img] obtain k p where k: "k \<le> length cs"
    and eq: "img = encode_all (take k cs) @ p"
    and p: "p = [] \<or> k < length cs \<and> strict_prefix p (encode_cmd (cs ! k))" by metis
  have "j \<le> k"
  proof (rule ccontr)
    assume "\<not> j \<le> k"
    then have less: "Suc k \<le> j" "k < length cs" using j by auto
    have "length (encode_all (take (Suc k) cs)) \<le> length img"
      using length_encode_all_mono [OF less(1), of cs] len by simp
    moreover have "length p < length (encode_cmd (cs ! k))"
      using p by (auto dest: prefix_length_less)
    ultimately show False using less(2) by (simp add: eq take_Suc_conv_app_nth)
  qed
  have fits: "\<forall>c\<in>set (take k cs). fits m c" and tot: "\<forall>c\<in>set (take k cs). \<forall>s. fst (appl c s) = None"
    using fit total by (auto dest: in_set_takeD)
  have run: "ReplayWal m appl img s = ReplayWal m appl p (fold (\<lambda>c s. snd (appl c s)) (take k cs) s)"
    unfolding eq by (simp add: ReplayWal_log [OF fits] apply_cmds_total [OF tot])
  show ?thesis
  proof (cases "p = []")
    case True
    with run k eq \<open>j \<le> k\<close> show ?thesis by auto
  next
    case False
    with p have "fits m (cs ! k)" "strict_prefix p (encode_cmd (cs ! k))" using fit by auto
    from ReplayWal_torn [OF this False, of appl "fold (\<lambda>c s. snd (appl c s)) (take k cs) s"]
    obtain e where "ReplayWal m appl p (fold (\<lambda>c s. snd (appl c s)) (take k cs) s)
        = (Some e, fold (\<lambda>c s. snd (appl c s)) (take k cs) s)" by blast
    with run k eq False \<open>j \<le> k\<close> show ?thesis by auto
  qed
qed

section \<open>Properties\<close>

text \<open>
  C27. Replaying a log file applies exactly the commands that were written to it, in order, with their
  operation, key, value, vnode and version intact, and stops with the first error the
  callback returns.
\<close>

theorem ReplayWal_roundtrip:
  assumes "\<forall>c\<in>set cs. fits m c"
  shows "ReplayWal m appl (encode_all cs) s =
    (let (e, s') = apply_cmds appl cs s in (map_option ApplyError e, s'))"
  using ReplayWal_log [OF assms, of appl "[]" s]
  by (simp add: ReplayWal.simps [of m appl "[]"] Let_def split: option.splits prod.splits)

theorem ReplayWal_roundtrip_witness:
  "let c = \<lparr>cmd_Op = OpDelete, cmd_Key = ''k'', cmd_Value = [200], cmd_VNodeID = 1023, cmd_Version = 70000\<rparr>
   in ReplayWal 100 (\<lambda>c l. (None, l @ [c])) (encode_all [c, c]) [] = (None, [c, c])"
  using ReplayWal_roundtrip [of
      "[\<lparr>cmd_Op = OpDelete, cmd_Key = ''k'', cmd_Value = [200], cmd_VNodeID = 1023, cmd_Version = 70000\<rparr>,
        \<lparr>cmd_Op = OpDelete, cmd_Key = ''k'', cmd_Value = [200], cmd_VNodeID = 1023, cmd_Version = 70000\<rparr>]"
      100 "\<lambda>c l. (None, l @ [c])" "[]"]
  by (simp add: fits_def Let_def)

text \<open>
  A log whose last record was cut short is not accepted: all whole records are applied, and then
  replay returns a read error although nothing that was acknowledged is missing. The server treats
  that error as fatal, so a node that crashed while writing a record does not start again.
\<close>

theorem ReplayWal_torn_tail:
  assumes "\<forall>c\<in>set cs. fits m c" "fits m d" "strict_prefix p (encode_cmd d)" "p \<noteq> []"
    and "apply_cmds appl cs s = (None, s')"
  shows "\<exists>e. ReplayWal m appl (encode_all cs @ p) s = (Some e, s') \<and> short_read e"
  using ReplayWal_log [OF assms(1), of appl p s] ReplayWal_torn [OF assms(2-4), of appl s'] assms(5)
  by auto

theorem ReplayWal_torn_tail_witness:
  "\<exists>e. ReplayWal 100 (\<lambda>c n. (None, n + 1)) ([0, 0, 7, 0, 0, 0, 0, 0, 0, 0, 5, 1, 107, 0] @ [0, 0]) (0 :: nat) = (Some e, 1)"
proof -
  let ?c = "\<lparr>cmd_Op = OpPut, cmd_Key = ''k'', cmd_Value = [], cmd_VNodeID = 7, cmd_Version = 5\<rparr>"
  have enc: "encode_cmd ?c = [0, 0, 7, 0, 0, 0, 0, 0, 0, 0, 5, 1, 107, 0]" by code_simp
  have "strict_prefix [0, 0] (encode_cmd ?c)" unfolding enc by (simp add: strict_prefix_def)
  from ReplayWal_torn_tail [of "[?c]" 100 ?c "[0, 0]" "\<lambda>c n. (None, n + 1)" "0 :: nat" 1, OF _ _ this]
  show ?thesis by (auto simp: fits_def enc)
qed

end
