(* ===== verification/Wal_Writer.thy ===== *)
theory Wal_Writer
  imports Wal_Codec
begin

text \<open>
  The writer goroutine of \<^verbatim>\<open>src/core/wal.go\<close>: its buffer, \<^verbatim>\<open>flush\<close>, the handling of one batch, and the
  log as a transition system of \<^verbatim>\<open>Append\<close> calls, batches written and \<^verbatim>\<open>Close\<close>. The disk is a
  parameter: the result of every \<^verbatim>\<open>Write\<close> and \<^verbatim>\<open>Sync\<close> call in turn. Sequence numbers are
  unbounded; the code's \<^verbatim>\<open>uint64\<close> holds the first $2^{64}$ commands.
\<close>

section \<open>The buffer\<close>

type_synonym AckMode = u8

definition AckAfterEnqueue :: AckMode where "AckAfterEnqueue = 0"
definition AckAfterFlush :: AckMode where "AckAfterFlush = 1"
definition AckAfterFsync :: AckMode where "AckAfterFsync = 2"

lemmas ack_defs = AckAfterEnqueue_def AckAfterFlush_def AckAfterFsync_def

text \<open>A failed write may have written some bytes first.\<close>

datatype disk_result = DiskOk | DiskErr nat

type_synonym disk = "nat \<Rightarrow> disk_result"

text \<open>
  \<open>w_buf\<close> is \<^verbatim>\<open>buf[:pos]\<close> and \<open>w_cap\<close> is \<^verbatim>\<open>len(buf)\<close>; \<open>w_file\<close> is what the file holds,
  \<open>w_synced\<close> the length known to be on stable storage, \<open>w_calls\<close> the disk calls made.
\<close>

record writer =
  w_file :: bytes
  w_synced :: nat
  w_buf :: bytes
  w_cap :: nat
  w_calls :: nat

datatype writer_fault = DiskFault | BufferOverrun

definition flush :: "AckMode \<Rightarrow> disk \<Rightarrow> writer \<Rightarrow> writer_fault option \<times> writer" where
  "flush mode disk w =
     (if w_buf w = [] then (None, w)
      else (case disk (w_calls w) of
          DiskErr n \<Rightarrow> (Some DiskFault, w\<lparr>w_file := w_file w @ take n (w_buf w), w_calls := w_calls w + 1\<rparr>)
        | DiskOk \<Rightarrow>
            (let w1 = w\<lparr>w_file := w_file w @ w_buf w, w_calls := w_calls w + 1\<rparr>
             in if mode = AckAfterFsync
                then (case disk (w_calls w1) of
                    DiskErr _ \<Rightarrow> (Some DiskFault, w1\<lparr>w_calls := w_calls w1 + 1\<rparr>)
                  | DiskOk \<Rightarrow> (None, w1\<lparr>w_calls := w_calls w1 + 1, w_synced := length (w_file w1), w_buf := []\<rparr>))
                else (None, w1\<lparr>w_buf := []\<rparr>))))"

definition needed :: "Command \<Rightarrow> nat" where
  "needed c = 1 + 2 + 8 + 10 * 2 + length (cmd_Key c) + length (cmd_Value c)"

text \<open>Encoding one command: make room, then copy the record to the buffer, where it must fit.\<close>

definition make_room :: "AckMode \<Rightarrow> disk \<Rightarrow> Command \<Rightarrow> writer \<Rightarrow> writer_fault option \<times> writer" where
  "make_room mode disk c w =
     (if length (w_buf w) + needed c > w_cap w
      then (case flush mode disk w of
          (Some e, w') \<Rightarrow> (Some e, w')
        | (None, w') \<Rightarrow> (None, if needed c > w_cap w' then w'\<lparr>w_cap := needed c\<rparr> else w'))
      else (None, w))"

definition write_cmd :: "AckMode \<Rightarrow> disk \<Rightarrow> Command \<Rightarrow> writer \<Rightarrow> writer_fault option \<times> writer" where
  "write_cmd mode disk c w =
     (case make_room mode disk c w of
        (Some e, w') \<Rightarrow> (Some e, w')
      | (None, w') \<Rightarrow>
          (if length (w_buf w') + length (encode_cmd c) > w_cap w' then (Some BufferOverrun, w')
           else (None, w'\<lparr>w_buf := w_buf w' @ encode_cmd c\<rparr>)))"

fun write_cmds :: "AckMode \<Rightarrow> disk \<Rightarrow> Command list \<Rightarrow> writer \<Rightarrow> writer_fault option \<times> writer" where
  "write_cmds mode disk [] w = (None, w)"
| "write_cmds mode disk (c # cs) w =
     (case write_cmd mode disk c w of
        (Some e, w') \<Rightarrow> (Some e, w')
      | (None, w') \<Rightarrow> write_cmds mode disk cs w')"

subsection \<open>The buffer never overruns\<close>

lemma length_put_uvarint: "n < 2 ^ (7 * k) \<Longrightarrow> 0 < k \<Longrightarrow> length (put_uvarint n) \<le> k"
proof (induction n arbitrary: k rule: put_uvarint.induct)
  case (1 n)
  show ?case
  proof (cases "n < 128")
    case True
    with "1.prems" show ?thesis by (simp add: put_uvarint.simps [of n])
  next
    case False
    then obtain j where k: "k = Suc j" "0 < j"
      using "1.prems" by (cases k; cases "k - 1") auto
    then have "n div 128 < 2 ^ (7 * j)"
      using "1.prems"(1) by (simp add: power_add less_mult_imp_div_less mult.commute)
    with "1.IH" [OF False this k(2)] False k show ?thesis by (simp add: put_uvarint.simps [of n])
  qed
qed

lemma length_encode_cmd:
  assumes "length (cmd_Key c) < 2 ^ 64" "length (cmd_Value c) < 2 ^ 64"
  shows "length (encode_cmd c) \<le> needed c"
proof -
  have "length (put_uvarint n) \<le> 10" if "n < 2 ^ 64" for n
    using that by (intro length_put_uvarint) auto
  from this [OF assms(1)] this [OF assms(2)] show ?thesis
    by (simp add: encode_cmd_def needed_def)
qed

text \<open>A step of the writer that meets no disk error leaves the file and the buffer as they should be.\<close>

definition pending_bytes :: "writer \<Rightarrow> bytes" where
  "pending_bytes w = w_file w @ w_buf w"

definition synced_ok :: "writer \<Rightarrow> bool" where
  "synced_ok w \<longleftrightarrow> w_synced w \<le> length (w_file w)"

lemma flush_ok:
  assumes "flush mode disk w = (None, w')"
  shows "w_buf w' = []" "w_file w' = w_file w @ w_buf w" "w_cap w' = w_cap w"
    "synced_ok w \<Longrightarrow> synced_ok w' \<and> w_synced w \<le> w_synced w'"
    "mode = AckAfterFsync \<Longrightarrow> w_synced w = length (w_file w) \<Longrightarrow> w_synced w' = length (w_file w')"
  using assms
  by (auto simp: flush_def synced_ok_def Let_def split: if_splits disk_result.splits)

lemma flush_fault:
  assumes "flush mode disk w = (Some e, w')"
  shows "e = DiskFault" "prefix (w_file w) (w_file w')" "synced_ok w \<Longrightarrow> synced_ok w' \<and> w_synced w \<le> w_synced w'"
    "prefix (w_file w') (pending_bytes w)"
  using assms
  by (auto simp: flush_def synced_ok_def pending_bytes_def Let_def take_is_prefix split: if_splits disk_result.splits)

lemma make_room_ok:
  assumes "make_room mode disk c w = (None, w')"
  shows "pending_bytes w' = pending_bytes w" "length (w_buf w') + needed c \<le> w_cap w'"
    "prefix (w_file w) (w_file w')"
    "synced_ok w \<Longrightarrow> synced_ok w' \<and> w_synced w \<le> w_synced w'"
    "mode = AckAfterFsync \<Longrightarrow> w_synced w = length (w_file w) \<Longrightarrow> w_synced w' = length (w_file w')"
proof -
  have "(pending_bytes w' = pending_bytes w \<and> length (w_buf w') + needed c \<le> w_cap w'
      \<and> prefix (w_file w) (w_file w'))
    \<and> (synced_ok w \<longrightarrow> synced_ok w' \<and> w_synced w \<le> w_synced w')
    \<and> (mode = AckAfterFsync \<longrightarrow> w_synced w = length (w_file w) \<longrightarrow> w_synced w' = length (w_file w'))"
  proof (cases "length (w_buf w) + needed c > w_cap w")
    case True
    with assms obtain w1 where w1: "flush mode disk w = (None, w1)"
      and w': "w' = (if needed c > w_cap w1 then w1\<lparr>w_cap := needed c\<rparr> else w1)"
      by (auto simp: make_room_def split: option.splits prod.splits)
    from flush_ok [OF w1] show ?thesis
      by (auto simp: w' pending_bytes_def synced_ok_def)
  next
    case False
    with assms show ?thesis by (auto simp: make_room_def)
  qed
  then show "pending_bytes w' = pending_bytes w" "length (w_buf w') + needed c \<le> w_cap w'"
    "prefix (w_file w) (w_file w')" "synced_ok w \<Longrightarrow> synced_ok w' \<and> w_synced w \<le> w_synced w'"
    "mode = AckAfterFsync \<Longrightarrow> w_synced w = length (w_file w) \<Longrightarrow> w_synced w' = length (w_file w')"
    by auto
qed

lemma make_room_fault:
  assumes "make_room mode disk c w = (Some e, w')"
  shows "e = DiskFault" "prefix (w_file w) (w_file w')" "synced_ok w \<Longrightarrow> synced_ok w' \<and> w_synced w \<le> w_synced w'"
    "prefix (w_file w') (pending_bytes w)"
  using assms flush_fault [of mode disk w]
  by (auto simp: make_room_def split: if_splits option.splits prod.splits)

lemma write_cmd_ok:
  assumes "write_cmd mode disk c w = (None, w')"
  shows "pending_bytes w' = pending_bytes w @ encode_cmd c"
    "prefix (w_file w) (w_file w')"
    "synced_ok w \<Longrightarrow> synced_ok w' \<and> w_synced w \<le> w_synced w'"
    "mode = AckAfterFsync \<Longrightarrow> w_synced w = length (w_file w) \<Longrightarrow> w_synced w' = length (w_file w')"
proof -
  from assms obtain w1 where w1: "make_room mode disk c w = (None, w1)"
    and w': "w' = w1\<lparr>w_buf := w_buf w1 @ encode_cmd c\<rparr>"
    by (auto simp: write_cmd_def split: if_splits option.splits prod.splits)
  from make_room_ok [OF w1] show
    "pending_bytes w' = pending_bytes w @ encode_cmd c" "prefix (w_file w) (w_file w')"
    "synced_ok w \<Longrightarrow> synced_ok w' \<and> w_synced w \<le> w_synced w'"
    "mode = AckAfterFsync \<Longrightarrow> w_synced w = length (w_file w) \<Longrightarrow> w_synced w' = length (w_file w')"
    by (simp_all add: w' pending_bytes_def synced_ok_def)
qed

lemma write_cmd_fault:
  assumes "write_cmd mode disk c w = (Some e, w')" "length (cmd_Key c) < 2 ^ 64" "length (cmd_Value c) < 2 ^ 64"
    "synced_ok w"
  shows "e = DiskFault \<and> prefix (w_file w) (w_file w') \<and> synced_ok w' \<and> w_synced w \<le> w_synced w'
    \<and> prefix (w_file w') (pending_bytes w)"
proof (cases "make_room mode disk c w")
  case (Pair f w1)
  with assms make_room_fault [of mode disk c w] make_room_ok(2) [of mode disk c w w1] length_encode_cmd [of c]
  show ?thesis by (auto simp: write_cmd_def split: if_splits option.splits)
qed

lemma write_cmds_ok:
  assumes "write_cmds mode disk cs w = (None, w')"
  shows "pending_bytes w' = pending_bytes w @ concat (map encode_cmd cs) \<and> prefix (w_file w) (w_file w')
    \<and> (synced_ok w \<longrightarrow> synced_ok w' \<and> w_synced w \<le> w_synced w')
    \<and> (mode = AckAfterFsync \<longrightarrow> w_synced w = length (w_file w) \<longrightarrow> w_synced w' = length (w_file w'))"
  using assms
proof (induction cs arbitrary: w)
  case Nil
  then show ?case by simp
next
  case (Cons c cs)
  then obtain w1 where w1: "write_cmd mode disk c w = (None, w1)"
    and rest: "write_cmds mode disk cs w1 = (None, w')"
    by (auto split: option.splits prod.splits)
  from Cons.IH [OF rest] write_cmd_ok [OF w1] show ?case
    by (auto intro: prefix_order.trans)
qed

lemma write_cmds_fault:
  assumes "write_cmds mode disk cs w = (Some e, w')" "synced_ok w"
    "\<forall>c\<in>set cs. length (cmd_Key c) < 2 ^ 64 \<and> length (cmd_Value c) < 2 ^ 64"
  shows "e = DiskFault \<and> prefix (w_file w) (w_file w') \<and> synced_ok w' \<and> w_synced w \<le> w_synced w'
    \<and> prefix (w_file w') (pending_bytes w @ encode_all cs)"
  using assms
proof (induction cs arbitrary: w)
  case Nil
  then show ?case by simp
next
  case (Cons c cs)
  show ?case
  proof (cases "write_cmd mode disk c w")
    case (Pair f w1)
    show ?thesis
    proof (cases f)
      case (Some e')
      with Cons.prems Pair write_cmd_fault [of mode disk c w e' w1] show ?thesis
        by (simp add: prefix_prefix)
    next
      case None
      with Pair have ok: "write_cmd mode disk c w = (None, w1)" by simp
      from write_cmd_ok(1,2,3) [OF ok] Cons.prems(2)
      have w1: "prefix (w_file w) (w_file w1)" "synced_ok w1" "w_synced w \<le> w_synced w1"
        "pending_bytes w1 = pending_bytes w @ encode_cmd c" by auto
      have "write_cmds mode disk cs w1 = (Some e, w')" using Cons.prems(1) ok by simp
      from Cons.IH [OF this w1(2)] Cons.prems(3) w1 show ?thesis
        by (auto intro: prefix_order.trans)
    qed
  qed
qed


section \<open>The log as a transition system\<close>

text \<open>
  \<open>wal_log\<close> is a history variable: every command ever given to \<^verbatim>\<open>Append\<close>, in order.
  \<^verbatim>\<open>Append\<close> is called by the event loop only, so taking a sequence number and sending the batch are
  one step.
\<close>

record wal =
  wal_ch :: "(nat \<times> Command list) list"
  wal_next :: nat
  wal_flushed :: nat
  wal_writer :: writer
  wal_err :: bool
  wal_running :: bool
  wal_log :: "Command list"

definition NewWal :: "bytes \<Rightarrow> nat \<Rightarrow> wal" where
  "NewWal old bufferSize = \<lparr>wal_ch = [], wal_next = 0, wal_flushed = 0,
     wal_writer = \<lparr>w_file = old, w_synced = length old, w_buf = [], w_cap = bufferSize, w_calls = 0\<rparr>,
     wal_err = False, wal_running = True, wal_log = []\<rparr>"

definition Append :: "Command list \<Rightarrow> wal \<Rightarrow> nat \<times> wal" where
  "Append cmds w =
     (let sq = wal_next w + length cmds
      in (sq, w\<lparr>wal_next := sq, wal_ch := wal_ch w @ [(sq, cmds)], wal_log := wal_log w @ cmds\<rparr>))"

definition fail :: "wal \<Rightarrow> wal" where
  "fail w = w\<lparr>wal_err := True, wal_running := False\<rparr>"

definition writer_batch :: "AckMode \<Rightarrow> disk \<Rightarrow> wal \<Rightarrow> wal" where
  "writer_batch mode disk w =
     (case wal_ch w of
        [] \<Rightarrow> w
      | (sq, cmds) # rest \<Rightarrow>
          (case write_cmds mode disk cmds (wal_writer w) of
             (Some e, wr) \<Rightarrow> fail (w\<lparr>wal_ch := rest, wal_writer := wr\<rparr>)
           | (None, wr) \<Rightarrow>
               (if rest = []
                then (case flush mode disk wr of
                    (Some e, wr') \<Rightarrow> fail (w\<lparr>wal_ch := rest, wal_writer := wr'\<rparr>)
                  | (None, wr') \<Rightarrow> w\<lparr>wal_ch := rest, wal_writer := wr', wal_flushed := sq\<rparr>)
                else w\<lparr>wal_ch := rest, wal_writer := wr\<rparr>)))"

text \<open>The \<^verbatim>\<open>closeCh\<close> case of the writer's select: flush and sync, errors ignored, and leave.\<close>

definition writer_close :: "AckMode \<Rightarrow> disk \<Rightarrow> wal \<Rightarrow> wal" where
  "writer_close mode disk w =
     (let wr = snd (flush mode disk (wal_writer w));
          wr' = (case disk (w_calls wr) of
              DiskOk \<Rightarrow> wr\<lparr>w_calls := w_calls wr + 1, w_synced := length (w_file wr)\<rparr>
            | DiskErr _ \<Rightarrow> wr\<lparr>w_calls := w_calls wr + 1\<rparr>)
      in w\<lparr>wal_writer := wr', wal_running := False\<rparr>)"

text \<open>\<^verbatim>\<open>Wait\<close> may return once its loop condition is false; it returns the error if there is one.\<close>

definition Wait_returns :: "AckMode \<Rightarrow> nat \<Rightarrow> wal \<Rightarrow> bool option" where
  "Wait_returns mode sq w =
     (if mode = AckAfterEnqueue then Some True
      else if wal_flushed w < sq \<and> \<not> wal_err w then None
      else Some (\<not> wal_err w))"

inductive wal_reach :: "AckMode \<Rightarrow> disk \<Rightarrow> bytes \<Rightarrow> nat \<Rightarrow> wal \<Rightarrow> bool"
  for mode disk old bufferSize where
  start: "wal_reach mode disk old bufferSize (NewWal old bufferSize)"
| append: "wal_reach mode disk old bufferSize w \<Longrightarrow> length (wal_ch w) < 1024 \<Longrightarrow>
     \<forall>c\<in>set cmds. length (cmd_Key c) < 2 ^ 64 \<and> length (cmd_Value c) < 2 ^ 64 \<Longrightarrow>
     wal_reach mode disk old bufferSize (snd (Append cmds w))"
| batch: "wal_reach mode disk old bufferSize w \<Longrightarrow> wal_running w \<Longrightarrow> wal_ch w \<noteq> [] \<Longrightarrow>
     wal_reach mode disk old bufferSize (writer_batch mode disk w)"
| close: "wal_reach mode disk old bufferSize w \<Longrightarrow> wal_running w \<Longrightarrow>
     wal_reach mode disk old bufferSize (writer_close mode disk w)"

subsection \<open>Invariant\<close>

fun ids_ok :: "nat \<Rightarrow> (nat \<times> Command list) list \<Rightarrow> bool" where
  "ids_ok n [] = True"
| "ids_ok n ((sq, cmds) # ch) = (sq = n + length cmds \<and> ids_ok sq ch)"

lemma ids_ok_snoc:
  "ids_ok n (ch @ [(sq, cmds)]) \<longleftrightarrow>
     ids_ok n ch \<and> sq = n + length (concat (map snd ch)) + length cmds"
  by (induction n ch rule: ids_ok.induct) auto

text \<open>The part of the log that \<open>wal_flushed\<close> vouches for.\<close>

definition safe_bytes :: "bytes \<Rightarrow> wal \<Rightarrow> bytes" where
  "safe_bytes old w = old @ encode_all (take (wal_flushed w) (wal_log w))"

definition wal_inv :: "AckMode \<Rightarrow> bytes \<Rightarrow> wal \<Rightarrow> Command list \<Rightarrow> bool" where
  "wal_inv mode old w written \<longleftrightarrow>
     wal_log w = written @ concat (map snd (wal_ch w)) \<and>
     ids_ok (length written) (wal_ch w) \<and> wal_next w = length (wal_log w) \<and>
     wal_flushed w \<le> length written \<and>
     (wal_running w \<longrightarrow> \<not> wal_err w) \<and>
     (wal_running w \<longrightarrow> pending_bytes (wal_writer w) = old @ encode_all written) \<and>
     (\<forall>c\<in>set (wal_log w). length (cmd_Key c) < 2 ^ 64 \<and> length (cmd_Value c) < 2 ^ 64) \<and>
     prefix (safe_bytes old w) (w_file (wal_writer w)) \<and>
     prefix (w_file (wal_writer w)) (old @ encode_all (wal_log w)) \<and>
     synced_ok (wal_writer w) \<and>
     (mode = AckAfterFsync \<longrightarrow> length (safe_bytes old w) \<le> w_synced (wal_writer w)) \<and>
     (mode = AckAfterFsync \<longrightarrow> wal_running w \<longrightarrow> w_synced (wal_writer w) = length (w_file (wal_writer w)))"

lemma wal_inv_start: "wal_inv mode old (NewWal old n) []"
  by (simp add: wal_inv_def NewWal_def pending_bytes_def safe_bytes_def synced_ok_def)

text \<open>What the writer puts in the file is a part of the log.\<close>

lemma wal_invD:
  assumes "wal_inv mode old w written"
  shows "wal_log w = written @ concat (map snd (wal_ch w))"
    "wal_running w \<Longrightarrow> pending_bytes (wal_writer w) = old @ encode_all written"
    "prefix (w_file (wal_writer w)) (old @ encode_all (wal_log w))"
    "prefix (safe_bytes old w) (w_file (wal_writer w))"
    "synced_ok (wal_writer w)"
    "mode = AckAfterFsync \<Longrightarrow> length (safe_bytes old w) \<le> w_synced (wal_writer w)"
    "ids_ok (length written) (wal_ch w)" "wal_flushed w \<le> length written" "wal_running w \<Longrightarrow> \<not> wal_err w"
  using assms unfolding wal_inv_def by blast+

lemma wal_inv_file:
  assumes "wal_inv mode old w written" "wal_running w"
    and "prefix img (pending_bytes (wal_writer w) @ encode_all (concat (map snd (take k (wal_ch w)))))"
  shows "prefix img (old @ encode_all (wal_log w))"
proof -
  have "wal_log w = written @ concat (map snd (take k (wal_ch w) @ drop k (wal_ch w)))"
    using wal_invD(1) [OF assms(1)] by simp
  then have "wal_log w = written @ concat (map snd (take k (wal_ch w))) @ concat (map snd (drop k (wal_ch w)))"
    by (simp only: map_append concat_append)
  then have "old @ encode_all (wal_log w) =
      (pending_bytes (wal_writer w) @ encode_all (concat (map snd (take k (wal_ch w)))))
        @ encode_all (concat (map snd (drop k (wal_ch w))))"
    using wal_invD(2) [OF assms(1,2)] by simp
  with assms(3) show ?thesis by (simp only: prefix_prefix)
qed

lemma wal_inv_append:
  assumes "wal_inv mode old w written"
    and "\<forall>c\<in>set cmds. length (cmd_Key c) < 2 ^ 64 \<and> length (cmd_Value c) < 2 ^ 64"
  shows "wal_inv mode old (snd (Append cmds w)) written"
proof -
  have "wal_flushed w \<le> length (wal_log w)" using assms(1) by (auto simp: wal_inv_def)
  then have safe: "safe_bytes old (snd (Append cmds w)) = safe_bytes old w"
    by (simp add: safe_bytes_def Append_def Let_def)
  have "prefix (w_file (wal_writer w)) ((old @ encode_all (wal_log w)) @ encode_all cmds)"
    by (rule prefix_prefix [OF wal_invD(3) [OF assms(1)]])
  with assms show ?thesis
    unfolding wal_inv_def safe by (simp add: Append_def Let_def ids_ok_snoc ball_Un)
qed


lemma wal_inv_fault:
  assumes inv: "wal_inv mode old w written" and ch: "wal_ch w = (sq, cmds) # rest"
    and wr: "prefix (w_file (wal_writer w)) (w_file wr)" "synced_ok wr" "w_synced (wal_writer w) \<le> w_synced wr"
      "prefix (w_file wr) (old @ encode_all (wal_log w))"
  shows "wal_inv mode old (fail (w\<lparr>wal_ch := rest, wal_writer := wr\<rparr>)) (written @ cmds)"
proof -
  have "prefix (safe_bytes old w) (w_file wr)"
    using inv wr(1) by (auto simp: wal_inv_def intro: prefix_order.trans)
  with assms show ?thesis
    by (auto simp: wal_inv_def fail_def safe_bytes_def)
qed

lemma wal_inv_stop:
  assumes inv: "wal_inv mode old w written"
    and wr: "prefix (w_file (wal_writer w)) (w_file wr)" "synced_ok wr" "w_synced (wal_writer w) \<le> w_synced wr"
      "prefix (w_file wr) (old @ encode_all (wal_log w))"
  shows "wal_inv mode old (w\<lparr>wal_writer := wr, wal_running := False\<rparr>) written"
proof -
  have "prefix (safe_bytes old w) (w_file wr)"
    using inv wr(1) by (auto simp: wal_inv_def intro: prefix_order.trans)
  with assms show ?thesis
    by (auto simp: wal_inv_def safe_bytes_def)
qed

lemma wal_inv_buffered:
  assumes inv: "wal_inv mode old w written" and ch: "wal_ch w = (sq, cmds) # rest" and run: "wal_running w"
    and wr: "pending_bytes wr = pending_bytes (wal_writer w) @ encode_all cmds"
      "prefix (w_file (wal_writer w)) (w_file wr)" "synced_ok wr" "w_synced (wal_writer w) \<le> w_synced wr"
      "prefix (w_file wr) (old @ encode_all (wal_log w))"
      "mode = AckAfterFsync \<Longrightarrow> w_synced wr = length (w_file wr)"
  shows "wal_inv mode old (w\<lparr>wal_ch := rest, wal_writer := wr\<rparr>) (written @ cmds)"
proof -
  have "prefix (safe_bytes old w) (w_file wr)"
    using inv wr(2) by (auto simp: wal_inv_def intro: prefix_order.trans)
  with assms show ?thesis
    by (auto simp: wal_inv_def safe_bytes_def)
qed

lemma wal_inv_flushed:
  assumes inv: "wal_inv mode old w written" and ch: "wal_ch w = [(sq, cmds)]" and run: "wal_running w"
    and wr: "w_file wr = old @ encode_all (written @ cmds)" "w_buf wr = []" "synced_ok wr"
      "mode = AckAfterFsync \<Longrightarrow> w_synced wr = length (w_file wr)"
  shows "wal_inv mode old (w\<lparr>wal_ch := [], wal_writer := wr, wal_flushed := sq\<rparr>) (written @ cmds)"
proof -
  have "sq = length (written @ cmds)" "wal_log w = written @ cmds"
    using inv ch by (simp_all add: wal_inv_def)
  with assms show ?thesis
    by (simp add: wal_inv_def safe_bytes_def pending_bytes_def)
qed

lemma writer_batch_cases:
  assumes "wal_ch w = (sq, cmds) # rest"
  obtains (fault) e wr where "write_cmds mode disk cmds (wal_writer w) = (Some e, wr)"
      "writer_batch mode disk w = fail (w\<lparr>wal_ch := rest, wal_writer := wr\<rparr>)"
  | (buffered) wr where "write_cmds mode disk cmds (wal_writer w) = (None, wr)"
      "writer_batch mode disk w = w\<lparr>wal_ch := rest, wal_writer := wr\<rparr>"
  | (flush_fault) wr e wr' where "rest = []" "write_cmds mode disk cmds (wal_writer w) = (None, wr)"
      "flush mode disk wr = (Some e, wr')"
      "writer_batch mode disk w = fail (w\<lparr>wal_ch := rest, wal_writer := wr'\<rparr>)"
  | (flushed) wr wr' where "rest = []" "write_cmds mode disk cmds (wal_writer w) = (None, wr)"
      "flush mode disk wr = (None, wr')"
      "writer_batch mode disk w = w\<lparr>wal_ch := [], wal_writer := wr', wal_flushed := sq\<rparr>"
proof (cases "write_cmds mode disk cmds (wal_writer w)")
  case (Pair f wr)
  show thesis
  proof (cases f)
    case (Some e)
    with Pair assms fault show ?thesis by (simp add: writer_batch_def)
  next
    case None
    with Pair have wr: "write_cmds mode disk cmds (wal_writer w) = (None, wr)" by simp
    show ?thesis
    proof (cases "rest = []")
      case False
      with wr assms buffered [OF wr] show ?thesis by (simp add: writer_batch_def)
    next
      case True
      obtain g wr' where fl: "flush mode disk wr = (g, wr')" by (cases "flush mode disk wr") auto
      with wr True assms flush_fault [OF True wr] flushed [OF True wr] show ?thesis
        by (cases g) (simp_all add: writer_batch_def)
    qed
  qed
qed

lemma wal_inv_batch:
  assumes inv: "wal_inv mode old w written" and run: "wal_running w" and ch: "wal_ch w = (sq, cmds) # rest"
  shows "wal_inv mode old (writer_batch mode disk w) (written @ cmds)"
proof -
  have sync: "synced_ok (wal_writer w)" using inv by (simp add: wal_inv_def)
  have full: "mode = AckAfterFsync \<Longrightarrow> w_synced (wal_writer w) = length (w_file (wal_writer w))"
    using inv run by (simp add: wal_inv_def)
  have small: "\<forall>c\<in>set cmds. length (cmd_Key c) < 2 ^ 64 \<and> length (cmd_Value c) < 2 ^ 64"
    using inv ch by (auto simp: wal_inv_def)
  have in_log: "prefix img (old @ encode_all (wal_log w))"
    if "prefix img (pending_bytes (wal_writer w) @ encode_all cmds)" for img
    using wal_inv_file [OF inv run, of img 1] that ch by simp
  show ?thesis
  proof (cases rule: writer_batch_cases [OF ch, of mode disk])
    case (1 e wr)
    from write_cmds_fault [OF 1(1) sync small] in_log wal_inv_fault [OF inv ch, of wr] 1(2)
    show ?thesis by simp
  next
    case (2 wr)
    from write_cmds_ok [OF 2(1)] have wr: "pending_bytes wr = pending_bytes (wal_writer w) @ encode_all cmds"
      by simp
    have "prefix (w_file wr) (pending_bytes wr)" by (simp add: pending_bytes_def)
    then have "prefix (w_file wr) (old @ encode_all (wal_log w))"
      unfolding wr by (rule in_log)
    with write_cmds_ok [OF 2(1)] sync full wal_inv_buffered [OF inv ch run, of wr] 2(2) show ?thesis by simp
  next
    case (3 wr e wr')
    have "prefix (w_file (wal_writer w)) (w_file wr') \<and> synced_ok wr' \<and> w_synced (wal_writer w) \<le> w_synced wr'"
      using write_cmds_ok [OF 3(2)] flush_fault(2,3) [OF 3(3)] sync by (auto intro: prefix_order.trans)
    moreover have "prefix (w_file wr') (old @ encode_all (wal_log w))"
      using write_cmds_ok [OF 3(2)] flush_fault(4) [OF 3(3)] by (intro in_log) simp
    ultimately show ?thesis using wal_inv_fault [OF inv ch, of wr'] 3(4) by simp
  next
    case (4 wr wr')
    from write_cmds_ok [OF 4(2)] sync full
    have wr: "pending_bytes wr = pending_bytes (wal_writer w) @ encode_all cmds" "synced_ok wr"
      "mode = AckAfterFsync \<Longrightarrow> w_synced wr = length (w_file wr)"
      by simp_all
    have "w_file wr' = old @ encode_all (written @ cmds)"
      using flush_ok(2) [OF 4(3)] wr(1) inv run by (simp add: pending_bytes_def wal_inv_def)
    with wal_inv_flushed [OF inv _ run, of sq cmds wr'] ch 4(1,4) flush_ok(1,4,5) [OF 4(3)] wr(2,3)
    show ?thesis by simp
  qed
qed

lemma wal_inv_close:
  assumes inv: "wal_inv mode old w written" and run: "wal_running w"
  shows "wal_inv mode old (writer_close mode disk w) written"
proof (cases "flush mode disk (wal_writer w)")
  case (Pair f wr)
  have sync: "synced_ok (wal_writer w)" using inv by (simp add: wal_inv_def)
  have wr: "prefix (w_file (wal_writer w)) (w_file wr) \<and> synced_ok wr \<and> w_synced (wal_writer w) \<le> w_synced wr
    \<and> prefix (w_file wr) (pending_bytes (wal_writer w))"
  proof (cases f)
    case None
    with Pair have "flush mode disk (wal_writer w) = (None, wr)" by simp
    from flush_ok(2,4) [OF this] sync show ?thesis by (simp add: pending_bytes_def)
  next
    case (Some e)
    with Pair have "flush mode disk (wal_writer w) = (Some e, wr)" by simp
    from flush_fault(2,3,4) [OF this] sync show ?thesis by simp
  qed
  then have in_log: "prefix (w_file wr) (old @ encode_all (wal_log w))"
    using wal_inv_file [OF inv run, of "w_file wr" 0] by simp
  show ?thesis
  proof (cases "disk (w_calls wr)")
    case DiskOk
    with Pair wal_inv_stop [OF inv, of "wr\<lparr>w_calls := w_calls wr + 1, w_synced := length (w_file wr)\<rparr>"] wr in_log
    show ?thesis by (simp add: writer_close_def synced_ok_def)
  next
    case (DiskErr n)
    with Pair wal_inv_stop [OF inv, of "wr\<lparr>w_calls := w_calls wr + 1\<rparr>"] wr in_log
    show ?thesis by (simp add: writer_close_def synced_ok_def)
  qed
qed

lemma wal_reach_inv: "wal_reach mode disk old n w \<Longrightarrow> \<exists>written. wal_inv mode old w written"
proof (induction rule: wal_reach.induct)
  case start
  show ?case using wal_inv_start by blast
next
  case (append w cmds)
  then show ?case using wal_inv_append by blast
next
  case (batch w)
  then obtain sq cmds rest where "wal_ch w = (sq, cmds) # rest" by (cases "wal_ch w") auto
  with batch show ?case using wal_inv_batch by blast
next
  case (close w)
  then show ?case using wal_inv_close by blast
qed

lemma wal_reach_facts:
  assumes "wal_reach mode disk old n w"
  shows "wal_flushed w \<le> length (wal_log w)" "wal_next w = length (wal_log w)" "synced_ok (wal_writer w)"
    "prefix (w_file (wal_writer w)) (old @ encode_all (wal_log w))"
    "mode = AckAfterFsync \<Longrightarrow> length (safe_bytes old w) \<le> w_synced (wal_writer w)"
proof -
  obtain written where inv: "wal_inv mode old w written" using wal_reach_inv [OF assms] by blast
  from wal_invD [OF inv] show "synced_ok (wal_writer w)"
    "prefix (w_file (wal_writer w)) (old @ encode_all (wal_log w))"
    "mode = AckAfterFsync \<Longrightarrow> length (safe_bytes old w) \<le> w_synced (wal_writer w)" by auto
  from inv show "wal_flushed w \<le> length (wal_log w)" "wal_next w = length (wal_log w)"
    by (auto simp: wal_inv_def)
qed

section \<open>Properties\<close>

lemma stranded_wait:
  "\<not> wal_err w \<Longrightarrow> wal_flushed w < sq \<Longrightarrow> mode \<noteq> AckAfterEnqueue \<Longrightarrow>
     Wait_returns mode sq (fold (\<lambda>cs w. snd (Append cs w)) later w) = None"
  by (induction later arbitrary: w) (simp_all add: Wait_returns_def Append_def Let_def)

lemma ids_ok_ge: "ids_ok n ch \<Longrightarrow> (sq, cmds) \<in> set ch \<Longrightarrow> n + length cmds \<le> sq"
proof (induction n ch rule: ids_ok.induct)
  case (2 n sq' cmds' ch)
  then show ?case by fastforce
qed simp

text \<open>
  Closing the log can strand queued batches. When the writer takes the close signal while a batch is
  still in its channel, the commands of that batch never reach the file, and a caller waiting for the
  batch waits forever: no error is set and no later append changes that.
\<close>

theorem Close_strands_queued:
  assumes "wal_reach mode disk old n w" "wal_running w" "mode \<noteq> AckAfterEnqueue"
    and "(sq, cmds) \<in> set (wal_ch w)" "cmds \<noteq> []"
  shows "Wait_returns mode sq (fold (\<lambda>cs w. snd (Append cs w)) later (writer_close mode disk w)) = None
    \<and> prefix (w_file (wal_writer (writer_close mode disk w)))
        (old @ encode_all (take (length (wal_log w) - length (concat (map snd (wal_ch w)))) (wal_log w)))"
proof -
  obtain written where inv: "wal_inv mode old w written" using wal_reach_inv [OF assms(1)] by blast
  have "length cmds > 0" using assms(5) by simp
  then have "wal_flushed w < sq" "\<not> wal_err w"
    using ids_ok_ge [OF wal_invD(7) [OF inv] assms(4)] wal_invD(8,9) [OF inv] assms(2) by linarith+
  then have "Wait_returns mode sq (fold (\<lambda>cs w. snd (Append cs w)) later (writer_close mode disk w)) = None"
    using assms(3) by (intro stranded_wait) (auto simp: writer_close_def Let_def)
  moreover have "prefix (w_file (wal_writer (writer_close mode disk w))) (pending_bytes (wal_writer w))"
  proof (cases "flush mode disk (wal_writer w)")
    case (Pair f wr)
    then have "prefix (w_file wr) (pending_bytes (wal_writer w))"
      using flush_ok(2) [of mode disk "wal_writer w" wr] flush_fault(4) [of mode disk "wal_writer w" _ wr]
      by (cases f) (auto simp: pending_bytes_def)
    with Pair show ?thesis by (simp add: writer_close_def split: disk_result.split)
  qed
  moreover have "take (length (wal_log w) - length (concat (map snd (wal_ch w)))) (wal_log w) = written"
    using wal_invD(1) [OF inv] by simp
  ultimately show ?thesis using wal_invD(2) [OF inv assms(2)] by simp
qed

definition demo_cmd :: Command where
  "demo_cmd = \<lparr>cmd_Op = OpPut, cmd_Key = ''k'', cmd_Value = [1], cmd_VNodeID = 7, cmd_Version = 5\<rparr>"

theorem Close_strands_queued_witness:
  "let w = snd (Append [demo_cmd] (NewWal [] 64))
   in Wait_returns AckAfterFsync 1 (writer_close AckAfterFsync (\<lambda>_. DiskOk) w) = None
     \<and> w_file (wal_writer (writer_close AckAfterFsync (\<lambda>_. DiskOk) w)) = []"
proof -
  have "wal_reach AckAfterFsync (\<lambda>_. DiskOk) [] 64 (snd (Append [demo_cmd] (NewWal [] 64)))"
    by (rule wal_reach.append [OF wal_reach.start]) (simp_all add: NewWal_def demo_cmd_def)
  from Close_strands_queued [OF this, of 1 "[demo_cmd]" "[]"] show ?thesis
    by (simp add: Append_def NewWal_def Let_def ack_defs)
qed

end
