(* ===== verification/Event_Loop.thy ===== *)
theory Event_Loop
  imports Store Wal_Writer "HOL-Library.Multiset"
begin

text \<open>
  The event loop of \<^verbatim>\<open>src/core/loop.go\<close> together with the store it owns and the log writer it
  feeds: requests received from \<^verbatim>\<open>ReqCh\<close>, batches applied and appended, and the goroutine that
  answers a batch once \<^verbatim>\<open>Wal.Wait\<close> returns. Steps of the loop, of the acknowledging goroutine and
  of the log writer interleave freely.
\<close>

section \<open>Requests and responses\<close>

record Request =
  req_Op :: OpType
  req_Key :: string
  req_Value :: bytes
  req_VNodeID :: u16
  req_Version :: u64
  req_ResponseChan :: nat

datatype loop_error = StoreErr core_error | WalErr

record Response =
  resp_Op :: OpType
  resp_Value :: bytes
  resp_Err :: "loop_error option"
  resp_Version :: u64

definition cmd_of :: "Request \<Rightarrow> Command" where
  "cmd_of r = \<lparr>cmd_Op = req_Op r, cmd_Key = req_Key r, cmd_Value = req_Value r,
     cmd_VNodeID = req_VNodeID r, cmd_Version = req_Version r\<rparr>"

definition write_response :: "OpType \<Rightarrow> loop_error option \<Rightarrow> Response" where
  "write_response op e = \<lparr>resp_Op = op, resp_Value = [], resp_Err = e, resp_Version = 0\<rparr>"

section \<open>The loop\<close>

text \<open>
  \<open>el_ackCh\<close> holds the \<^verbatim>\<open>pendingAck\<close> values not yet taken by the acknowledging goroutine.
  \<open>el_received\<close> and \<open>el_sent\<close> are histories: the requests taken from \<^verbatim>\<open>ReqCh\<close> and the
  responses sent on their response channels.
\<close>

record EventLoop =
  el_Store :: Store
  el_Wal :: wal
  el_BatchSize :: int
  el_writeBatch :: "Request list"
  el_ackCh :: "(nat \<times> Request list) list"
  el_open :: bool
  el_received :: "Request list"
  el_sent :: "(Request \<times> Response) list"

definition processBatch :: "EventLoop \<Rightarrow> EventLoop" where
  "processBatch el =
     (if el_writeBatch el = [] then el
      else (let cmds = map cmd_of (el_writeBatch el);
                (sq, w) = Append cmds (el_Wal el)
            in el\<lparr>el_Store := exec cmds (el_Store el), el_Wal := w,
                 el_ackCh := el_ackCh el @ [(sq, el_writeBatch el)], el_writeBatch := []\<rparr>))"

definition get_response :: "Store \<Rightarrow> Request \<Rightarrow> Response" where
  "get_response s r =
     (case GetWithVersion s (req_Key r) of
        Inl e \<Rightarrow> \<lparr>resp_Op = req_Op r, resp_Value = [], resp_Err = Some (StoreErr e), resp_Version = 0\<rparr>
      | Inr (val, ver) \<Rightarrow> \<lparr>resp_Op = req_Op r, resp_Value = val, resp_Err = None, resp_Version = ver\<rparr>)"

definition handle_req :: "AckMode \<Rightarrow> Request \<Rightarrow> EventLoop \<Rightarrow> EventLoop" where
  "handle_req mode r el0 =
     (let el = el0\<lparr>el_received := el_received el0 @ [r]\<rparr>
      in if req_Op r = OpGet
         then el\<lparr>el_sent := el_sent el @ [(r, get_response (el_Store el) r)]\<rparr>
         else if mode = AckAfterEnqueue
         then (let w = snd (Append [cmd_of r] (el_Wal el));
                   (e, s) = Apply (cmd_of r) (el_Store el)
               in el\<lparr>el_Wal := w, el_Store := s,
                    el_sent := el_sent el @ [(r, write_response (req_Op r) (map_option StoreErr e))]\<rparr>)
         else (let el1 = el\<lparr>el_writeBatch := el_writeBatch el @ [r]\<rparr>
               in if int (length (el_writeBatch el1)) \<ge> el_BatchSize el1 then processBatch el1 else el1))"

text \<open>The acknowledging goroutine handles the head of \<^verbatim>\<open>ackCh\<close> when \<^verbatim>\<open>Wait\<close> returns.\<close>

definition ack_batch :: "AckMode \<Rightarrow> EventLoop \<Rightarrow> EventLoop option" where
  "ack_batch mode el =
     (case el_ackCh el of
        [] \<Rightarrow> None
      | (sq, reqs) # rest \<Rightarrow>
          (case Wait_returns mode sq (el_Wal el) of
             None \<Rightarrow> None
           | Some fine \<Rightarrow> Some (el\<lparr>el_ackCh := rest,
               el_sent := el_sent el @
                 map (\<lambda>r. (r, write_response (req_Op r) (if fine then None else Some WalErr))) reqs\<rparr>)))"

text \<open>\<^verbatim>\<open>ReqCh\<close> closed: the last batch is processed and the loop ends.\<close>

definition loop_close :: "EventLoop \<Rightarrow> EventLoop" where
  "loop_close el = (processBatch el)\<lparr>el_open := False\<rparr>"

definition el_start :: "Store \<Rightarrow> bytes \<Rightarrow> nat \<Rightarrow> int \<Rightarrow> EventLoop" where
  "el_start s old bufferSize batchSize = \<lparr>el_Store = s, el_Wal = NewWal old bufferSize,
     el_BatchSize = batchSize, el_writeBatch = [], el_ackCh = [], el_open = True,
     el_received = [], el_sent = []\<rparr>"

text \<open>Room in the two buffered channels; without it the loop waits for the other goroutines.\<close>

definition room :: "EventLoop \<Rightarrow> bool" where
  "room el \<longleftrightarrow> length (wal_ch (el_Wal el)) < 1024 \<and> length (el_ackCh el) < 10000"

definition req_fits :: "Request \<Rightarrow> bool" where
  "req_fits r \<longleftrightarrow> length (req_Key r) < 2 ^ 64 \<and> length (req_Value r) < 2 ^ 64"

inductive el_reach :: "AckMode \<Rightarrow> disk \<Rightarrow> EventLoop \<Rightarrow> EventLoop \<Rightarrow> bool" for mode disk el0 where
  start: "el_reach mode disk el0 el0"
| req: "el_reach mode disk el0 el \<Longrightarrow> el_open el \<Longrightarrow> req_Op r = OpGet \<or> room el \<Longrightarrow> req_fits r \<Longrightarrow>
     el_reach mode disk el0 (handle_req mode r el)"
| tick: "el_reach mode disk el0 el \<Longrightarrow> el_open el \<Longrightarrow> room el \<Longrightarrow>
     el_reach mode disk el0 (processBatch el)"
| ack: "el_reach mode disk el0 el \<Longrightarrow> ack_batch mode el = Some el' \<Longrightarrow> el_reach mode disk el0 el'"
| loop_end: "el_reach mode disk el0 el \<Longrightarrow> el_open el \<Longrightarrow> room el \<Longrightarrow>
     el_reach mode disk el0 (loop_close el)"
| wal_batch: "el_reach mode disk el0 el \<Longrightarrow> wal_running (el_Wal el) \<Longrightarrow> wal_ch (el_Wal el) \<noteq> [] \<Longrightarrow>
     el_reach mode disk el0 (el\<lparr>el_Wal := writer_batch mode disk (el_Wal el)\<rparr>)"
| wal_close: "el_reach mode disk el0 el \<Longrightarrow> wal_running (el_Wal el) \<Longrightarrow>
     el_reach mode disk el0 (el\<lparr>el_Wal := writer_close mode disk (el_Wal el)\<rparr>)"

section \<open>Invariants of the loop\<close>

lemma Append_sel [simp]:
  "fst (Append cmds w) = wal_next w + length cmds"
  "wal_log (snd (Append cmds w)) = wal_log w @ cmds"
  "wal_flushed (snd (Append cmds w)) = wal_flushed w"
  by (simp_all add: Append_def Let_def)

lemma processBatch_sel [simp]:
  "el_writeBatch (processBatch el) = []"
  "el_Store (processBatch el) = exec (map cmd_of (el_writeBatch el)) (el_Store el)"
  "wal_log (el_Wal (processBatch el)) = wal_log (el_Wal el) @ map cmd_of (el_writeBatch el)"
  "wal_flushed (el_Wal (processBatch el)) = wal_flushed (el_Wal el)"
  "el_received (processBatch el) = el_received el" "el_sent (processBatch el) = el_sent el"
  by (simp_all add: processBatch_def exec_def split_def Let_def)

lemma processBatch_wal:
  "el_Wal (processBatch el) =
     (if el_writeBatch el = [] then el_Wal el else snd (Append (map cmd_of (el_writeBatch el)) (el_Wal el)))"
  by (simp add: processBatch_def split_def Let_def)

lemma processBatch_ackCh:
  "el_ackCh (processBatch el) = el_ackCh el @
     (if el_writeBatch el = [] then []
      else [(wal_next (el_Wal el) + length (el_writeBatch el), el_writeBatch el)])"
  by (simp add: processBatch_def split_def Let_def)

lemma exec_append [simp]: "exec (cs @ ds) s = exec ds (exec cs s)"
  by (simp add: exec_def)

lemma writer_log [simp]:
  "wal_log (writer_batch mode disk w) = wal_log w" "wal_log (writer_close mode disk w) = wal_log w"
  "wal_flushed (writer_close mode disk w) = wal_flushed w"
  by (auto simp: writer_batch_def writer_close_def fail_def Let_def split: list.splits prod.splits option.splits)

text \<open>The log writer inside the loop is the transition system of the log.\<close>

lemma el_reach_wal:
  assumes "el_reach mode disk (el_start s old n b) el"
  shows "wal_reach mode disk old n (el_Wal el) \<and> (\<forall>r\<in>set (el_writeBatch el). req_fits r)"
  using assms
proof (induction rule: el_reach.induct)
  case start
  show ?case by (simp add: el_start_def wal_reach.start)
next
  case (req el r)
  have one: "wal_reach mode disk old n (snd (Append [cmd_of r] (el_Wal el)))" if "room el"
    using wal_reach.append [of mode disk old n "el_Wal el" "[cmd_of r]"] req that
    by (simp add: room_def cmd_of_def req_fits_def)
  have many: "wal_reach mode disk old n (snd (Append (map cmd_of (el_writeBatch el @ [r])) (el_Wal el)))" if "room el"
    using wal_reach.append [of mode disk old n "el_Wal el" "map cmd_of (el_writeBatch el @ [r])"] req that
    by (auto simp: room_def cmd_of_def req_fits_def)
  from req one many show ?case
    by (auto simp: handle_req_def Let_def split_def processBatch_wal)
next
  case (tick el)
  then show ?case
    using wal_reach.append [of mode disk old n "el_Wal el" "map cmd_of (el_writeBatch el)"]
    by (auto simp: processBatch_wal room_def cmd_of_def req_fits_def)
next
  case (ack el el')
  then show ?case by (auto simp: ack_batch_def split: list.splits option.splits)
next
  case (loop_end el)
  then show ?case
    using wal_reach.append [of mode disk old n "el_Wal el" "map cmd_of (el_writeBatch el)"]
    by (auto simp: loop_close_def processBatch_wal room_def cmd_of_def req_fits_def)
qed (auto intro: wal_reach.batch wal_reach.close)

text \<open>The store holds what the log says.\<close>

lemma el_reach_store:
  "el_reach mode disk (el_start s old n b) el \<Longrightarrow> el_Store el = exec (wal_log (el_Wal el)) s"
proof (induction rule: el_reach.induct)
  case start
  show ?case by (simp add: el_start_def NewWal_def exec_def)
next
  case (req el r)
  then show ?case
    by (auto simp: handle_req_def Let_def split_def) (simp_all add: exec_def)
qed (auto simp: loop_close_def ack_batch_def split: list.splits option.splits)

text \<open>Every request is waiting, pending an acknowledgement, or answered, and exactly one of these.\<close>

lemma el_reach_requests:
  "el_reach mode disk (el_start s old n b) el \<Longrightarrow>
     mset (el_received el) = mset (map fst (el_sent el)) + mset (concat (map snd (el_ackCh el))) + mset (el_writeBatch el)"
proof (induction rule: el_reach.induct)
  case start
  show ?case by (simp add: el_start_def)
next
  case (req el r)
  then show ?case
    by (auto simp: handle_req_def Let_def split_def processBatch_ackCh)
next
  case (ack el el')
  then show ?case
    by (auto simp: ack_batch_def image_mset.compositionality comp_def ac_simps split: list.splits option.splits)
qed (auto simp: loop_close_def processBatch_ackCh)

subsection \<open>Acknowledged writes\<close>

lemma wal_flushed_batch:
  assumes "wal_inv mode old w written"
  shows "wal_flushed w \<le> wal_flushed (writer_batch mode disk w)"
proof (cases "wal_ch w")
  case (Cons a rest)
  obtain sq cmds where "a = (sq, cmds)" by (cases a)
  with Cons have ch: "wal_ch w = (sq, cmds) # rest" by simp
  with assms have le: "wal_flushed w \<le> sq" by (simp add: wal_inv_def)
  show ?thesis
    by (cases rule: writer_batch_cases [OF ch, of mode disk]) (use le in \<open>simp_all add: fail_def\<close>)
qed (simp add: writer_batch_def)

text \<open>The part of the log that a request's acknowledgement rests on.\<close>

definition acked :: "AckMode \<Rightarrow> wal \<Rightarrow> Command list" where
  "acked mode w = (if mode = AckAfterEnqueue then wal_log w else take (wal_flushed w) (wal_log w))"

definition ack_inv :: "AckMode \<Rightarrow> EventLoop \<Rightarrow> bool" where
  "ack_inv mode el \<longleftrightarrow>
     (\<forall>(sq, reqs)\<in>set (el_ackCh el). sq \<le> length (wal_log (el_Wal el))
        \<and> cmd_of ` set reqs \<subseteq> set (take sq (wal_log (el_Wal el)))) \<and>
     (\<forall>(r, resp)\<in>set (el_sent el). req_Op r \<noteq> OpGet \<and> resp_Err resp = None
        \<longrightarrow> cmd_of r \<in> set (acked mode (el_Wal el)))"

text \<open>The two parts survive as long as the log and its flushed part only grow.\<close>

lemma acked_mono:
  assumes "wal_log w' = wal_log w @ cs" "wal_flushed w \<le> wal_flushed w'"
  shows "set (acked mode w) \<subseteq> set (acked mode w')"
  using assms set_take_subset_set_take [of "wal_flushed w" "wal_flushed w'" "wal_log w"]
  by (auto simp: acked_def)

lemma ack_inv_grow:
  assumes "ack_inv mode el" "wal_log (el_Wal el') = wal_log (el_Wal el) @ cs"
    and "wal_flushed (el_Wal el) \<le> wal_flushed (el_Wal el')"
    and "el_ackCh el' = el_ackCh el" "el_sent el' = el_sent el"
  shows "ack_inv mode el'"
  using assms(1) acked_mono [OF assms(2,3), of mode]
  by (fastforce simp: ack_inv_def assms)

lemma ack_inv_processBatch:
  assumes inv: "ack_inv mode el" and nx: "wal_next (el_Wal el) = length (wal_log (el_Wal el))"
  shows "ack_inv mode (processBatch el)"
proof (cases "el_writeBatch el = []")
  case True
  with inv show ?thesis by (simp add: processBatch_def)
next
  case False
  have "ack_inv mode ((processBatch el)\<lparr>el_ackCh := el_ackCh el\<rparr>)"
    by (rule ack_inv_grow [OF inv]) simp_all
  with nx False show ?thesis
    by (auto simp: ack_inv_def processBatch_ackCh)
qed

lemma ack_inv_ack:
  assumes inv: "ack_inv mode el" and ack: "ack_batch mode el = Some el'"
  shows "ack_inv mode el'"
proof -
  from ack obtain sq reqs rest fine where ch: "el_ackCh el = (sq, reqs) # rest"
    and wait: "Wait_returns mode sq (el_Wal el) = Some fine"
    and el': "el' = el\<lparr>el_ackCh := rest, el_sent := el_sent el @
        map (\<lambda>r. (r, write_response (req_Op r) (if fine then None else Some WalErr))) reqs\<rparr>"
    by (auto simp: ack_batch_def split: list.splits option.splits)
  have cmds: "cmd_of ` set reqs \<subseteq> set (take sq (wal_log (el_Wal el)))"
    using inv ch by (simp add: ack_inv_def)
  have "cmd_of r \<in> set (acked mode (el_Wal el))" if "r \<in> set reqs" fine for r
  proof (cases "mode = AckAfterEnqueue")
    case True
    with that cmds show ?thesis by (auto simp: acked_def dest: in_set_takeD)
  next
    case False
    with wait \<open>fine\<close> have "sq \<le> wal_flushed (el_Wal el)"
      by (auto simp: Wait_returns_def split: if_splits)
    with that cmds False set_take_subset_set_take [OF this, of "wal_log (el_Wal el)"]
    show ?thesis by (auto simp: acked_def)
  qed
  with inv ch show ?thesis
    by (auto simp: ack_inv_def el' write_response_def split: if_splits)
qed

lemma el_reach_ack:
  assumes "el_reach mode disk (el_start s old n b) el"
  shows "ack_inv mode el"
  using assms
proof (induction rule: el_reach.induct)
  case start
  show ?case by (simp add: ack_inv_def el_start_def)
next
  case (req el r)
  from el_reach_wal [OF req(1)] have nx: "wal_next (el_Wal el) = length (wal_log (el_Wal el))"
    by (auto dest: wal_reach_facts(2))
  let ?el = "el\<lparr>el_received := el_received el @ [r]\<rparr>"
  let ?batched = "?el\<lparr>el_writeBatch := el_writeBatch el @ [r]\<rparr>"
  let ?app = "?el\<lparr>el_Wal := snd (Append [cmd_of r] (el_Wal el)), el_Store := snd (Apply (cmd_of r) (el_Store el))\<rparr>"
  have "ack_inv mode ?batched" "ack_inv mode ?app" "ack_inv mode ?el"
    by (rule ack_inv_grow [OF req.IH]; simp)+
  with ack_inv_processBatch [of mode ?batched] nx show ?case
    by (auto simp: handle_req_def Let_def split_def ack_inv_def acked_def)
next
  case (tick el)
  with el_reach_wal [OF tick(1)] ack_inv_processBatch show ?case by (auto dest: wal_reach_facts(2))
next
  case (ack el el')
  then show ?case using ack_inv_ack by blast
next
  case (loop_end el)
  with el_reach_wal [OF loop_end(1)] ack_inv_processBatch [of mode el]
  have "ack_inv mode (processBatch el)" by (auto dest: wal_reach_facts(2))
  then show ?case by (simp add: ack_inv_def loop_close_def)
next
  case (wal_batch el)
  from el_reach_wal [OF wal_batch(1)] obtain written where "wal_inv mode old (el_Wal el) written"
    using wal_reach_inv by blast
  then show ?case
    by (intro ack_inv_grow [OF wal_batch.IH, of _ "[]"]) (simp_all add: wal_flushed_batch)
next
  case (wal_close el)
  then show ?case by (intro ack_inv_grow [OF wal_close.IH, of _ "[]"]) simp_all
qed

section \<open>Properties\<close>

lemma Apply_write: "is_write c \<Longrightarrow> fst (Apply c s) = None"
  by (auto simp: Apply_def Let_def is_write_def)

lemma exec_abs: "store_abs (exec cs s) = fold vwrite cs (store_abs s)"
  by (induction cs arbitrary: s) (simp_all add: exec_def store_abs_Apply)

text \<open>
  What is known of an acknowledged write and of a log file after a crash in the durable mode: the write is in the flushed part of the
  log, and the file is a part of the log that covers it.
\<close>

lemma durable_image:
  assumes "el_reach AckAfterFsync disk (el_start (exec hist NewStore) (encode_all hist) n b) el"
    and "(r, resp) \<in> set (el_sent el)" "req_Op r \<noteq> OpGet" "resp_Err resp = None"
    and "prefix img (w_file (wal_writer (el_Wal el)))" "w_synced (wal_writer (el_Wal el)) \<le> length img"
  defines "cs \<equiv> wal_log (el_Wal el)" and "flushed \<equiv> wal_flushed (el_Wal el)"
  shows "cmd_of r \<in> set (take flushed cs)" "prefix img (encode_all (hist @ cs))" "flushed \<le> length cs"
    "length (encode_all (take (length hist + flushed) (hist @ cs))) \<le> length img"
proof -
  have "wal_reach AckAfterFsync disk (encode_all hist) n (el_Wal el)" using el_reach_wal [OF assms(1)] by simp
  note facts = wal_reach_facts [OF this]
  show "cmd_of r \<in> set (take flushed cs)"
    using el_reach_ack [OF assms(1)] assms(2-4) by (auto simp: ack_inv_def acked_def ack_defs cs_def flushed_def)
  show "prefix img (encode_all (hist @ cs))"
    using prefix_order.trans [OF assms(5) facts(4)] by (simp add: cs_def)
  show "flushed \<le> length cs" using facts(1) by (simp add: cs_def flushed_def)
  show "length (encode_all (take (length hist + flushed) (hist @ cs))) \<le> length img"
    using order.trans [OF facts(5) [OF refl] assms(6)] by (simp add: safe_bytes_def cs_def flushed_def)
qed

text \<open>
  C1. In the durable mode an acknowledged write survives a crash. Whatever the interleaving of the loop,
  the acknowledgements, the log writer and its disk errors, if the client was told that a write
  succeeded, then replaying any part of the log file that covers the synced bytes rebuilds the store
  from a prefix of the log that contains this write; replay ends without an error exactly when
  the file was not cut inside a record.
\<close>

theorem acknowledged_writes_survive:
  assumes "el_reach AckAfterFsync disk (el_start (exec hist NewStore) (encode_all hist) n b) el"
    and "(r, resp) \<in> set (el_sent el)" "req_Op r \<noteq> OpGet" "resp_Err resp = None"
    and "\<forall>c\<in>set (hist @ wal_log (el_Wal el)). fits m c \<and> is_write c"
    and "prefix img (w_file (wal_writer (el_Wal el)))" "w_synced (wal_writer (el_Wal el)) \<le> length img"
  shows "\<exists>k. cmd_of r \<in> set (take k (wal_log (el_Wal el)))
    \<and> snd (ReplayWal m Apply img NewStore) = exec (hist @ take k (wal_log (el_Wal el))) NewStore
    \<and> (fst (ReplayWal m Apply img NewStore) = None
        \<longleftrightarrow> img = encode_all (hist @ take k (wal_log (el_Wal el))))"
proof -
  define w where "w = el_Wal el"
  note image = durable_image [OF assms(1-4,6,7), folded w_def]
  have fit: "\<forall>c\<in>set (hist @ wal_log w). fits m c"
    and total: "\<forall>c\<in>set (hist @ wal_log w). \<forall>s. fst (Apply c s) = None"
    using assms(5) Apply_write unfolding w_def by blast+
  have "length hist + wal_flushed w \<le> length (hist @ wal_log w)" using image(3) by simp
  from ReplayWal_cut [OF fit image(2) total image(4) this, of NewStore, folded exec_def]
  obtain k where k: "length hist + wal_flushed w \<le> k"
    and rec: "snd (ReplayWal m Apply img NewStore) = exec (take k (hist @ wal_log w)) NewStore"
    "fst (ReplayWal m Apply img NewStore) = None \<longleftrightarrow> img = encode_all (take k (hist @ wal_log w))"
    by (elim exE conjE)
  have cut: "take k (hist @ wal_log w) = hist @ take (k - length hist) (wal_log w)"
    using k by simp
  have "wal_flushed w \<le> k - length hist" using k by simp
  from set_take_subset_set_take [OF this, of "wal_log w"] image(1)
  have "cmd_of r \<in> set (take (k - length hist) (wal_log w))" by blast
  with rec [unfolded cut] show ?thesis
    unfolding w_def by (intro exI [of _ "k - length hist"] conjI)
qed

definition demo_req :: Request where
  "demo_req = \<lparr>req_Op = OpPut, req_Key = ''k'', req_Value = [1, 2], req_VNodeID = 7, req_Version = 5,
     req_ResponseChan = 0\<rparr>"

lemma demo_run:
  assumes "mode \<noteq> AckAfterEnqueue"
  obtains el where "el_reach mode (\<lambda>_. DiskOk) (el_start NewStore [] 64 1) el"
    "el_sent el = [(demo_req, write_response OpPut None)]" "wal_log (el_Wal el) = [cmd_of demo_req]"
    "el_received el = [demo_req]"
proof -
  let ?d = "\<lambda>_::nat. DiskOk"
  let ?e0 = "el_start NewStore [] 64 1"
  let ?e1 = "handle_req mode demo_req ?e0"
  let ?e2 = "?e1\<lparr>el_Wal := writer_batch mode ?d (el_Wal ?e1)\<rparr>"
  have ops: "req_Op demo_req \<noteq> OpGet" "req_fits demo_req" "room ?e0" "el_open ?e0"
    by (simp_all add: demo_req_def op_defs req_fits_def room_def el_start_def NewWal_def)
  have r1: "el_reach mode ?d ?e0 ?e1"
    by (rule el_reach.req [OF el_reach.start]) (use ops in auto)
  have e1: "el_Wal ?e1 = snd (Append [cmd_of demo_req] (NewWal [] 64))"
      "el_ackCh ?e1 = [(1, [demo_req])]" "el_sent ?e1 = []" "el_received ?e1 = [demo_req]"
    using assms ops
    by (simp_all add: handle_req_def processBatch_def el_start_def Let_def split_def NewWal_def)
  have r2: "el_reach mode ?d ?e0 ?e2"
    by (rule el_reach.wal_batch [OF r1]) (simp_all add: e1 Append_def NewWal_def)
  have len: "length (encode_cmd (cmd_of demo_req)) \<le> 34"
    using length_encode_cmd [of "cmd_of demo_req"] by (simp add: needed_def cmd_of_def demo_req_def)
  have flushed: "wal_flushed (el_Wal ?e2) = 1" "\<not> wal_err (el_Wal ?e2)"
    using len unfolding e1
    by (simp_all add: Append_def NewWal_def writer_batch_def write_cmd_def make_room_def flush_def Let_def
        needed_def cmd_of_def demo_req_def encode_cmd_def)
  have "ack_batch mode ?e2 = Some (?e2\<lparr>el_ackCh := [], el_sent := [(demo_req, write_response OpPut None)]\<rparr>)"
    using assms e1 flushed by (simp add: ack_batch_def Wait_returns_def demo_req_def)
  from that [OF el_reach.ack [OF r2 this]] e1 show thesis by (simp add: NewWal_def)
qed

theorem acknowledged_writes_survive_witness:
  "\<exists>el :: EventLoop. el_sent el = [(demo_req, write_response OpPut None)] \<and>
     (\<exists>k. cmd_of demo_req \<in> set (take k (wal_log (el_Wal el)))
       \<and> snd (ReplayWal 100 Apply (w_file (wal_writer (el_Wal el))) NewStore) = exec (take k (wal_log (el_Wal el))) NewStore)"
proof -
  obtain el where el: "el_reach AckAfterFsync (\<lambda>_. DiskOk) (el_start NewStore [] 64 1) el"
    "el_sent el = [(demo_req, write_response OpPut None)]" "wal_log (el_Wal el) = [cmd_of demo_req]"
    by (rule demo_run [of AckAfterFsync]) (auto simp: ack_defs)
  from el_reach_wal [OF el(1)]
  have synced: "w_synced (wal_writer (el_Wal el)) \<le> length (w_file (wal_writer (el_Wal el)))"
    using wal_reach_facts(3) unfolding synced_ok_def by blast
  have reach: "el_reach AckAfterFsync (\<lambda>_. DiskOk) (el_start (exec [] NewStore) (encode_all []) 64 1) el"
    using el(1) by (simp add: exec_def)
  have put: "req_Op demo_req \<noteq> OpGet" "resp_Err (write_response OpPut None) = None"
    "fits 100 (cmd_of demo_req)" "is_write (cmd_of demo_req)"
    by (simp_all add: demo_req_def op_defs write_response_def fits_def cmd_of_def is_write_def)
  have log: "\<forall>c\<in>set ([] @ wal_log (el_Wal el)). fits 100 c \<and> is_write c"
    and sent: "(demo_req, write_response OpPut None) \<in> set (el_sent el)"
    using put(3,4) by (simp_all add: el(2,3))
  from acknowledged_writes_survive [OF reach sent put(1,2) log prefix_order.refl synced]
  show ?thesis using el(2) unfolding append_Nil by blast
qed





end
