(* ===== verification/Rpc_Server.thy ===== *)
theory Rpc_Server
  imports Event_Loop
begin

text \<open>
  The gRPC handlers of \<^verbatim>\<open>src/core/rpc.go\<close>. A handler sends requests to the event loop and waits
  for the responses; the request context may end before the request is sent or before it is answered. The
  \<^verbatim>\<open>Replicator\<close> interface is a record of functions, the clock is an argument.
\<close>

section \<open>One request through the loop\<close>

text \<open>
  What the event loop does with a request it handles alone; \<^verbatim>\<open>fine\<close> is the result of \<^verbatim>\<open>Wal.Wait\<close>.
  Outside of \<^verbatim>\<open>AckAfterEnqueue\<close> the error of \<^verbatim>\<open>Apply\<close> is dropped.
\<close>

definition serve :: "AckMode \<Rightarrow> bool \<Rightarrow> Request \<Rightarrow> Store \<Rightarrow> Response \<times> Store" where
  "serve mode fine r s =
     (if req_Op r = OpGet then (get_response s r, s)
      else (let (e, s') = Apply (cmd_of r) s
            in (write_response (req_Op r)
                  (if mode = AckAfterEnqueue then map_option StoreErr e else if fine then None else Some WalErr), s')))"

datatype ctx = CtxOk | CtxDoneBeforeSend | CtxDoneAfterSend

datatype resp_error = LoopErr loop_error | RequestCancelled

record loop_env =
  le_mode :: AckMode
  le_fine :: bool
  le_ctx :: ctx

record answer =
  an_Value :: bytes
  an_Err :: "resp_error option"
  an_Version :: u64

definition answer_of :: "Response \<Rightarrow> answer" where
  "answer_of r = \<lparr>an_Value = resp_Value r, an_Err = map_option LoopErr (resp_Err r), an_Version = resp_Version r\<rparr>"

definition cancelled :: answer where
  "cancelled = \<lparr>an_Value = [], an_Err = Some RequestCancelled, an_Version = 0\<rparr>"

definition sendRequest :: "loop_env \<Rightarrow> Request \<Rightarrow> Store \<Rightarrow> answer \<times> Store" where
  "sendRequest le r s =
     (let (resp, s') = serve (le_mode le) (le_fine le) r s
      in (case le_ctx le of
            CtxOk \<Rightarrow> (answer_of resp, s')
          | CtxDoneBeforeSend \<Rightarrow> (cancelled, s)
          | CtxDoneAfterSend \<Rightarrow> (cancelled, s')))"

section \<open>Server state and versions\<close>

record Server =
  sv_Store :: Store
  sv_versionCounter :: u64

definition NewServer :: "Store \<Rightarrow> Server" where
  "NewServer st = \<lparr>sv_Store = st, sv_versionCounter = 0\<rparr>"

datatype Op = PUT | GET | DELETE | OtherOp int

record ReplicatorIface =
  ri_ReplicateToAll :: "Op \<Rightarrow> string \<Rightarrow> bytes \<Rightarrow> u16 \<Rightarrow> u64 \<Rightarrow> string option"
  ri_CheckOwnership :: "string \<Rightarrow> bool \<times> bool \<times> string"
  ri_GetVNodeForKey :: "string \<Rightarrow> u16"

text \<open>
  \<^verbatim>\<open>NextVersion\<close> reads the counter, picks a candidate and tries to swap it in. An attempt that read
  a value another goroutine replaced fails and is repeated.
\<close>

definition version_candidate :: "u64 \<Rightarrow> u64 \<Rightarrow> u64" where
  "version_candidate cur now = (if now \<le> cur then cur + 1 else now)"

definition version_attempt :: "u64 \<Rightarrow> u64 \<Rightarrow> u64 \<Rightarrow> u64 option \<times> u64" where
  "version_attempt cur now counter =
     (let cand = version_candidate cur now
      in if counter = cur then (Some cand, cand) else (None, counter))"

text \<open>The attempts of all goroutines in the order of their swaps: the versions handed out.\<close>

fun issued_versions :: "(u64 \<times> u64) list \<Rightarrow> u64 \<Rightarrow> u64 list" where
  "issued_versions [] counter = []"
| "issued_versions ((cur, now) # as) counter =
     (case version_attempt cur now counter of
        (Some v, counter') \<Rightarrow> v # issued_versions as counter'
      | (None, counter') \<Rightarrow> issued_versions as counter')"

definition NextVersion :: "u64 \<Rightarrow> Server \<Rightarrow> u64 \<times> Server" where
  "NextVersion now sv =
     (let cur = sv_versionCounter sv;
          (v, c) = version_attempt cur now cur
      in (the v, sv\<lparr>sv_versionCounter := c\<rparr>))"

section \<open>Client calls\<close>

datatype status =
    NotResponsible string bool
  | Internal_Loop resp_error
  | Internal_Replicate string
  | NotFound
  | StaleRead u64 u64
  | InvalidArgument
  | Internal_Batch resp_error

definition ownershipError :: "string \<Rightarrow> bool \<Rightarrow> status" where
  "ownershipError owner replica = NotResponsible owner replica"

definition send_to_loop :: "loop_env \<Rightarrow> Request \<Rightarrow> Server \<Rightarrow> answer \<times> Server" where
  "send_to_loop le r sv =
     (let (a, s') = sendRequest le r (sv_Store sv) in (a, sv\<lparr>sv_Store := s'\<rparr>))"

text \<open>The common body of \<^verbatim>\<open>Put\<close> and \<^verbatim>\<open>Delete\<close>.\<close>

definition write_call ::
  "ReplicatorIface \<Rightarrow> loop_env \<Rightarrow> u64 \<Rightarrow> OpType \<Rightarrow> Op \<Rightarrow> string \<Rightarrow> bytes \<Rightarrow> Server \<Rightarrow> (status + unit) \<times> Server" where
  "write_call ri le now op pbop key val sv =
     (case ri_CheckOwnership ri key of
        (isOwner, _, owner) \<Rightarrow>
          if \<not> isOwner then (Inl (ownershipError owner False), sv)
          else (let vnodeID = ri_GetVNodeForKey ri key;
                    (version, sv1) = NextVersion now sv;
                    (a, sv2) = send_to_loop le
                       \<lparr>req_Op = op, req_Key = key, req_Value = val, req_VNodeID = vnodeID, req_Version = version, req_ResponseChan = 0\<rparr> sv1
                in (case an_Err a of
                      Some e \<Rightarrow> (Inl (Internal_Loop e), sv2)
                    | None \<Rightarrow>
                        (case ri_ReplicateToAll ri pbop key val vnodeID version of
                           Some e \<Rightarrow> (Inl (Internal_Replicate e), sv2)
                         | None \<Rightarrow> (Inr (), sv2)))))"

definition Put :: "ReplicatorIface \<Rightarrow> loop_env \<Rightarrow> u64 \<Rightarrow> string \<Rightarrow> bytes \<Rightarrow> Server \<Rightarrow> (status + unit) \<times> Server" where
  "Put ri le now key val sv = write_call ri le now OpPut PUT key val sv"

definition Delete :: "ReplicatorIface \<Rightarrow> loop_env \<Rightarrow> u64 \<Rightarrow> string \<Rightarrow> Server \<Rightarrow> (status + unit) \<times> Server" where
  "Delete ri le now key sv = write_call ri le now OpDelete DELETE key [] sv"

definition GetCall :: "loop_env \<Rightarrow> string \<Rightarrow> u64 \<Rightarrow> Server \<Rightarrow> status + bytes \<times> u64" where
  "GetCall le key minVersion sv =
     (let (a, _) = send_to_loop le
            \<lparr>req_Op = OpGet, req_Key = key, req_Value = [], req_VNodeID = 0, req_Version = 0, req_ResponseChan = 0\<rparr> sv
      in (case an_Err a of
            Some (LoopErr (StoreErr ErrKeyNotFound)) \<Rightarrow> Inl NotFound
          | Some e \<Rightarrow> Inl (Internal_Loop e)
          | None \<Rightarrow>
              if 0 < minVersion \<and> an_Version a < minVersion then Inl (StaleRead (an_Version a) minVersion)
              else Inr (an_Value a, an_Version a)))"

section \<open>Replication calls\<close>

record ReplicationRequest =
  rr_Op :: Op
  rr_Key :: string
  rr_Value :: bytes
  rr_VnodeId :: u32
  rr_Version :: u64

definition Replicate :: "ReplicatorIface \<Rightarrow> loop_env \<Rightarrow> u64 \<Rightarrow> ReplicationRequest \<Rightarrow> Server \<Rightarrow> (status + unit) \<times> Server" where
  "Replicate ri le now rr sv =
     (if rr_Op rr \<noteq> PUT \<and> rr_Op rr \<noteq> DELETE then (Inl InvalidArgument, sv)
      else (let op = (if rr_Op rr = PUT then OpPut else OpDelete);
                vnodeID = (if rr_VnodeId rr \<noteq> 0 then ucast (rr_VnodeId rr) else ri_GetVNodeForKey ri (rr_Key rr));
                (version, sv1) = (if rr_Version rr \<noteq> 0 then (rr_Version rr, sv) else NextVersion now sv);
                (a, sv2) = send_to_loop le
                   \<lparr>req_Op = op, req_Key = rr_Key rr, req_Value = rr_Value rr, req_VNodeID = vnodeID, req_Version = version,
                    req_ResponseChan = 0\<rparr> sv1
            in (case an_Err a of Some e \<Rightarrow> (Inl (Internal_Loop e), sv2) | None \<Rightarrow> (Inr (), sv2))))"

definition pending_req :: "ReplicationRequest \<Rightarrow> Request" where
  "pending_req rr =
     \<lparr>req_Op = (case rr_Op rr of PUT \<Rightarrow> OpPut | DELETE \<Rightarrow> OpDelete | _ \<Rightarrow> OpGet), req_Key = rr_Key rr, req_Value = rr_Value rr,
      req_VNodeID = ucast (rr_VnodeId rr), req_Version = rr_Version rr, req_ResponseChan = 0\<rparr>"

fun serve_all :: "AckMode \<Rightarrow> bool \<Rightarrow> Request list \<Rightarrow> Store \<Rightarrow> Response list \<times> Store" where
  "serve_all mode fine [] s = ([], s)"
| "serve_all mode fine (r # rs) s =
     (let (resp, s1) = serve mode fine r s; (resps, s2) = serve_all mode fine rs s1 in (resp # resps, s2))"

text \<open>Waiting for the responses in order, \<^verbatim>\<open>answered\<close> of them before the context ends.\<close>

fun await_all :: "nat \<Rightarrow> Response list \<Rightarrow> resp_error option" where
  "await_all answered [] = None"
| "await_all 0 (r # rs) = Some RequestCancelled"
| "await_all (Suc n) (r # rs) = (case resp_Err r of Some e \<Rightarrow> Some (LoopErr e) | None \<Rightarrow> await_all n rs)"

text \<open>\<^verbatim>\<open>sent\<close> requests are enqueued before the context ends; absent (nil) items are skipped.\<close>

definition applyReplicationBatch ::
  "loop_env \<Rightarrow> nat \<Rightarrow> nat \<Rightarrow> ReplicationRequest option list \<Rightarrow> Server \<Rightarrow> resp_error option \<times> Server" where
  "applyReplicationBatch le sent answered reqs sv =
     (let pend = map pending_req (List.map_filter (\<lambda>x. x) reqs);
          (resps, s') = serve_all (le_mode le) (le_fine le) (take sent pend) (sv_Store sv);
          sv' = sv\<lparr>sv_Store := s'\<rparr>
      in if sent < length pend then (Some RequestCancelled, sv') else (await_all answered resps, sv'))"

definition ReplicateBatch ::
  "loop_env \<Rightarrow> nat \<Rightarrow> nat \<Rightarrow> ReplicationRequest option list \<Rightarrow> Server \<Rightarrow> (status + unit) \<times> Server" where
  "ReplicateBatch le sent answered reqs sv =
     (case applyReplicationBatch le sent answered reqs sv of
        (Some e, sv') \<Rightarrow> (Inl (Internal_Batch e), sv')
      | (None, sv') \<Rightarrow> (Inr (), sv'))"

text \<open>
  The replication stream. Each event is a received batch with the progress of its context and whether the
  acknowledgement could be sent; the stream ends with the list (end of file) or with an error.
\<close>

record stream_event =
  se_batch :: "ReplicationRequest option list"
  se_sent :: nat
  se_answered :: nat
  se_sendOk :: bool

record ReplicationBatchAck =
  ack_Applied :: u32
  ack_Error :: "resp_error option"

datatype stream_end = StreamOk | StreamSendErr | StreamBatchErr resp_error

fun ReplicateStream :: "loop_env \<Rightarrow> stream_event list \<Rightarrow> Server \<Rightarrow> ReplicationBatchAck list \<times> stream_end \<times> Server" where
  "ReplicateStream le [] sv = ([], StreamOk, sv)"
| "ReplicateStream le (ev # evs) sv =
     (let (err, sv') = applyReplicationBatch le (se_sent ev) (se_answered ev) (se_batch ev) sv;
          ack = \<lparr>ack_Applied = of_nat (length (se_batch ev)), ack_Error = err\<rparr>
      in if \<not> se_sendOk ev then ([], StreamSendErr, sv')
         else (case err of
                 Some e \<Rightarrow> ([ack], StreamBatchErr e, sv')
               | None \<Rightarrow> (let (acks, res, sv'') = ReplicateStream le evs sv' in (ack # acks, res, sv''))))"

section \<open>The client stream\<close>

record StreamReq =
  sr_Op :: Op
  sr_Key :: string
  sr_Value :: bytes

record StreamResp =
  sp_Op :: Op
  sp_Value :: bytes
  sp_Error :: "loop_error option"

definition stream_op :: "Op \<Rightarrow> OpType" where
  "stream_op op = (case op of PUT \<Rightarrow> OpPut | GET \<Rightarrow> OpGet | _ \<Rightarrow> OpDelete)"

definition stream_resp :: "Response \<Rightarrow> StreamResp" where
  "stream_resp r =
     \<lparr>sp_Op = (if resp_Op r = OpPut then PUT else if resp_Op r = OpGet then GET else DELETE),
      sp_Value = resp_Value r, sp_Error = resp_Err r\<rparr>"

definition stream_request :: "ReplicatorIface \<Rightarrow> u64 \<Rightarrow> StreamReq \<Rightarrow> Server \<Rightarrow> Request \<times> Server" where
  "stream_request ri now sr sv =
     (let op = stream_op (sr_Op sr);
          (version, sv') = (if op = OpPut \<or> op = OpDelete then NextVersion now sv else (0, sv))
      in (\<lparr>req_Op = op, req_Key = sr_Key sr, req_Value = sr_Value sr, req_VNodeID = ri_GetVNodeForKey ri (sr_Key sr),
           req_Version = version, req_ResponseChan = 0\<rparr>, sv'))"

fun StreamKV :: "ReplicatorIface \<Rightarrow> AckMode \<Rightarrow> bool \<Rightarrow> (u64 \<times> StreamReq) list \<Rightarrow> Server \<Rightarrow> StreamResp list \<times> Server" where
  "StreamKV ri mode fine [] sv = ([], sv)"
| "StreamKV ri mode fine ((now, sr) # srs) sv =
     (let (r, sv1) = stream_request ri now sr sv;
          (resp, s') = serve mode fine r (sv_Store sv1);
          (resps, sv2) = StreamKV ri mode fine srs (sv1\<lparr>sv_Store := s'\<rparr>)
      in (stream_resp resp # resps, sv2))"

section \<open>Snapshot transfer\<close>

record VNodeTransferResp =
  tr_VnodeId :: u32
  tr_PlacementEpoch :: u64
  tr_Key :: string
  tr_Value :: bytes
  tr_Version :: u64
  tr_EmptyEntries :: bool
  tr_Error :: string
  tr_Tombstone :: bool

definition transfer_entry :: "u16 \<Rightarrow> u64 \<Rightarrow> SnapshotEntry \<Rightarrow> VNodeTransferResp" where
  "transfer_entry vnodeID epoch e =
     \<lparr>tr_VnodeId = ucast vnodeID, tr_PlacementEpoch = epoch, tr_Key = ent_Key e, tr_Value = ent_Value e,
      tr_Version = ent_Version e, tr_EmptyEntries = False, tr_Error = [], tr_Tombstone = ent_Tombstone e\<rparr>"

definition TransferVNode :: "(string fset \<Rightarrow> string list) \<Rightarrow> u32 \<Rightarrow> u64 \<Rightarrow> Store \<Rightarrow> VNodeTransferResp list" where
  "TransferVNode rng vnode epoch s =
     (let vnodeID = ucast vnode :: u16
      in map (transfer_entry vnodeID epoch) (snap_Entries (SnapshotVNode rng s vnodeID))
         @ [\<lparr>tr_VnodeId = ucast vnodeID, tr_PlacementEpoch = epoch, tr_Key = [], tr_Value = [], tr_Version = 0,
             tr_EmptyEntries = True, tr_Error = [], tr_Tombstone = False\<rparr>])"

section \<open>The loop serves requests this way\<close>

lemma serve_store: "snd (serve mode fine r s) = (if req_Op r = OpGet then s else snd (Apply (cmd_of r) s))"
  by (simp add: serve_def split_def Let_def)

lemma exec_single: "exec [c] s = snd (Apply c s)"
  by (simp add: exec_def)



section \<open>Versions\<close>

lemma unat_suc:
  assumes "unat (x :: u64) + 1 < 2 ^ 64"
  shows "unat (x + 1) = unat x + 1"
  using assms by (simp add: unat_word_ariths)

lemma unat_suc_max: "(x :: u64) \<noteq> - 1 \<Longrightarrow> unat x + 1 < 2 ^ 64"
proof -
  assume "x \<noteq> - 1"
  then have "unat x \<noteq> unat (- 1 :: u64)" by (simp only: word_unat_eq_iff [symmetric] not_False_eq_True)
  moreover have "unat (- 1 :: u64) = 2 ^ 64 - 1" by (simp add: unsigned_minus_1_eq_mask mask_eq_exp_minus_1)
  moreover have "unat x < 2 ^ 64" using unsigned_less [of x] by simp
  ultimately show ?thesis by linarith
qed

text \<open>
  C19. Versions are unique and increasing on a node: for every interleaving of goroutines that read the
  counter and try to swap in a new version, stale attempts included, the versions handed out strictly
  increase, whatever the clock says, until the clock or the counter comes within the number of attempts of the largest 64-bit number.
\<close>

theorem issued_versions_increasing:
  assumes "unat counter + length as < 2 ^ 64" "\<forall>a\<in>set as. unat (snd a) + length as < 2 ^ 64"
  shows "sorted_wrt (<) (counter # issued_versions as counter)"
  using assms
proof (induction as arbitrary: counter)
  case (Cons a as)
  obtain cur now where a: "a = (cur, now)" by (cases a)
  have rest: "\<forall>b\<in>set as. unat (snd b) + length as < 2 ^ 64" using Cons.prems(2) by auto
  show ?case
  proof (cases "counter = cur")
    case False
    then have "issued_versions (a # as) counter = issued_versions as counter" by (simp add: a version_attempt_def Let_def)
    moreover have "sorted_wrt (<) (counter # issued_versions as counter)"
      using Cons.prems(1) rest by (intro Cons.IH) auto
    ultimately show ?thesis by simp
  next
    case True
    let ?v = "version_candidate cur now"
    have inc: "unat (cur + 1) = unat cur + 1"
      using Cons.prems(1) True by (intro unat_suc) simp
    have v: "cur < ?v" "unat ?v + length as < 2 ^ 64"
      using Cons.prems a True inc by (auto simp: version_candidate_def not_le word_less_nat_alt)
    have "issued_versions (a # as) counter = ?v # issued_versions as ?v"
      by (simp add: a version_attempt_def Let_def True)
    moreover have "sorted_wrt (<) (?v # issued_versions as ?v)" using v(2) rest by (rule Cons.IH)
    ultimately show ?thesis using v(1) True by auto
  qed
qed simp

theorem issued_versions_increasing_witness:
  "issued_versions [(5, 9), (5, 10), (9, 3), (10, 20)] 5 = [9, 10, 20]
   \<and> sorted_wrt (<) (5 # issued_versions [(5, 9), (5, 10), (9, 3), (10, 20)] 5)"
  using issued_versions_increasing [of 5 "[(5, 9), (5, 10), (9, 3), (10, 20)]"]
  by (simp add: version_attempt_def version_candidate_def)

text \<open>The node's own counter is at least as new as everything it stores.\<close>

definition covers :: "Server \<Rightarrow> bool" where
  "covers sv \<longleftrightarrow> (\<forall>k. meta_Version (meta_get (sv_Store sv) k) \<le> sv_versionCounter sv)"

definition quiet :: "loop_env \<Rightarrow> bool" where
  "quiet le \<longleftrightarrow> le_ctx le = CtxOk \<and> le_fine le"

lemma NextVersion_eq:
  "NextVersion now sv = (version_candidate (sv_versionCounter sv) now, sv\<lparr>sv_versionCounter := version_candidate (sv_versionCounter sv) now\<rparr>)"
  by (simp add: NextVersion_def version_attempt_def Let_def)

lemma version_candidate_greater: "cur \<noteq> - 1 \<Longrightarrow> cur < version_candidate cur now"
  using unat_suc [OF unat_suc_max, of cur] by (auto simp: version_candidate_def not_le word_less_nat_alt)

lemma GetCall_eq:
  "quiet le \<Longrightarrow> GetCall le key minVersion sv =
     (case GetWithVersion (sv_Store sv) key of
        Inl ErrKeyNotFound \<Rightarrow> Inl NotFound
      | Inl e \<Rightarrow> Inl (Internal_Loop (LoopErr (StoreErr e)))
      | Inr (val, ver) \<Rightarrow> if 0 < minVersion \<and> ver < minVersion then Inl (StaleRead ver minVersion) else Inr (val, ver))"
  by (simp add: GetCall_def send_to_loop_def sendRequest_def serve_def quiet_def get_response_def answer_of_def Let_def
      split: sum.splits prod.splits core_error.splits)

lemma Put_eq:
  fixes now :: u64 and sv :: Server and val :: bytes
  assumes "quiet le" "ri_CheckOwnership ri key = (True, rep, owner)"
  defines "ver \<equiv> version_candidate (sv_versionCounter sv) now"
  defines "c \<equiv> put_cmd key val (ri_GetVNodeForKey ri key) ver"
  shows "Put ri le now key val sv =
    ((case ri_ReplicateToAll ri PUT key val (ri_GetVNodeForKey ri key) ver of None \<Rightarrow> Inr () | Some e \<Rightarrow> Inl (Internal_Replicate e)),
     sv\<lparr>sv_versionCounter := ver, sv_Store := snd (Apply c (sv_Store sv))\<rparr>)"
proof -
  have "fst (Apply c s) = None" for s by (simp add: Apply_def Let_def c_def put_cmd_def)
  then show ?thesis
    using assms(1,2)
    by (simp add: Put_def write_call_def NextVersion_eq send_to_loop_def sendRequest_def serve_def quiet_def answer_of_def
        write_response_def cmd_of_def put_cmd_def c_def ver_def Let_def split_def split: option.splits)
qed

section \<open>Client reads and writes\<close>

text \<open>
  C16. Read your writes: on the owner of a key, with a log and a context that do not fail and successful replication, \<^verbatim>\<open>Put\<close>
  succeeds and a following \<^verbatim>\<open>Get\<close> returns the value under a version newer than all before, as long as the node's version
  counter covers every version it stores; \<^verbatim>\<open>Put\<close> keeps that condition and the consistency of the store.
\<close>

theorem Put_then_Get:
  assumes "quiet le" "ri_CheckOwnership ri key = (True, rep, owner)" "ri_ReplicateToAll ri = (\<lambda>_ _ _ _ _. None)"
    and "store_ok (ri_GetVNodeForKey ri) (sv_Store sv)" "covers sv" "sv_versionCounter sv \<noteq> - 1"
  shows "\<exists>ver sv'. Put ri le now key val sv = (Inr (), sv') \<and> GetCall le key 0 sv' = Inr (val, ver)
    \<and> sv_versionCounter sv < ver \<and> covers sv' \<and> store_ok (ri_GetVNodeForKey ri) (sv_Store sv')"
proof -
  define ver where "ver = version_candidate (sv_versionCounter sv) now"
  define c where "c = put_cmd key val (ri_GetVNodeForKey ri key) ver"
  let ?sv = "sv\<lparr>sv_versionCounter := ver, sv_Store := snd (Apply c (sv_Store sv))\<rparr>"
  have new: "sv_versionCounter sv < ver" unfolding ver_def by (rule version_candidate_greater [OF assms(6)])
  have old: "meta_Version (meta_get (sv_Store sv) k) < ver" for k
    using assms(5) new unfolding covers_def by (meson le_less_trans)
  have c: "versioned c" "is_write c" "well_tagged (ri_GetVNodeForKey ri) c"
    using new word_gt_0_no by (auto simp: c_def cmd_eval)
  have run: "Put ri le now key val sv = (Inr (), ?sv)"
    using Put_eq [OF assms(1,2), where now = now and val = val and sv = sv] by (simp add: assms(3) c_def ver_def)
  have "GetWithVersion (sv_Store ?sv) key = Inr (val, ver)"
    using kv.read_exec [OF assms(4) c(3,1,2), of key] old [of key] by (simp add: c_def cmd_eval less_imp_le)
  moreover have "meta_Version (meta_get (sv_Store ?sv) k) \<le> ver" for k
    using cur_version_vwrite [OF c(1), of "store_abs (sv_Store sv)" k] less_imp_le [OF old]
    by (simp add: store_abs_Apply [symmetric]) (simp add: c_def put_cmd_def)
  moreover have "store_ok (ri_GetVNodeForKey ri) (sv_Store ?sv)" using store_ok_Apply [OF assms(4) c(3)] by simp
  ultimately show ?thesis using run new by (intro exI [of _ ver] exI [of _ ?sv]) (simp add: GetCall_eq [OF assms(1)] covers_def)
qed

definition solo :: ReplicatorIface where
  "solo = \<lparr>ri_ReplicateToAll = (\<lambda>_ _ _ _ _. None), ri_CheckOwnership = (\<lambda>_. (True, False, [])), ri_GetVNodeForKey = (\<lambda>_. 0)\<rparr>"

definition calm :: loop_env where
  "calm = \<lparr>le_mode = AckAfterFlush, le_fine = True, le_ctx = CtxOk\<rparr>"

theorem Put_then_Get_witness:
  "\<exists>ver sv'. Put solo calm 77 ''k'' [1, 2] (NewServer NewStore) = (Inr (), sv') \<and> GetCall calm ''k'' 0 sv' = Inr ([1, 2], ver)"
proof -
  have "covers (NewServer NewStore)" by (simp add: covers_def NewServer_def NewStore_def meta_get_def)
  with Put_then_Get [of calm solo "''k''" False "[]" "NewServer NewStore" 77 "[1, 2]"] store_ok_NewStore show ?thesis
    by (auto simp: quiet_def calm_def solo_def NewServer_def)
qed

text \<open>
  C17. A write can be acknowledged and lost: if the stored version of the key is newer than the version \<^verbatim>\<open>NextVersion\<close> picks
  (the key was written by a node whose clock is ahead, and came here by replication or migration, which do not advance the counter),
  \<^verbatim>\<open>Put\<close> answers success and the old value stays.
\<close>

theorem Put_lost_behind_clock:
  assumes "quiet le" "ri_CheckOwnership ri key = (True, rep, owner)" "ri_ReplicateToAll ri = (\<lambda>_ _ _ _ _. None)"
    and "GetWithVersion (sv_Store sv) key = Inr (old, ver)"
    and "version_candidate (sv_versionCounter sv) now < ver" "sv_versionCounter sv \<noteq> - 1"
  shows "\<exists>sv'. Put ri le now key val sv = (Inr (), sv') \<and> GetCall le key 0 sv' = Inr (old, ver)"
proof -
  have "meta_Version (meta_get (sv_Store sv) key) = ver"
    using assms(4) by (auto simp: GetWithVersion_def Let_def split: option.splits if_splits)
  moreover have "version_candidate (sv_versionCounter sv) now \<noteq> 0"
    using version_candidate_greater [OF assms(6), of now] by auto
  ultimately have "Apply (put_cmd key val (ri_GetVNodeForKey ri key) (version_candidate (sv_versionCounter sv) now)) (sv_Store sv) = (None, sv_Store sv)"
    using assms(5) by (simp add: Apply_def Let_def put_cmd_def)
  then show ?thesis
    using Put_eq [OF assms(1,2), where now = now and val = val and sv = sv] assms(3,4) by (simp add: GetCall_eq [OF assms(1)])
qed

definition migrated :: Server where
  "migrated = NewServer (snd (Apply (put_cmd ''k'' [1] 0 500) NewStore))"

theorem Put_lost_behind_clock_witness:
  "\<exists>sv'. Put solo calm 400 ''k'' [9] migrated = (Inr (), sv') \<and> GetCall calm ''k'' 0 sv' = Inr ([1], 500)"
proof -
  have "GetWithVersion (sv_Store migrated) ''k'' = Inr ([1], 500)"
    by (simp add: migrated_def NewServer_def Apply_def NewStore_def meta_get_def put_cmd_def GetWithVersion_def apply_put_def split_def Let_def)
  from Put_lost_behind_clock [OF _ _ _ this, of calm solo False "[]" 400 "[9]"] show ?thesis
    by (simp add: quiet_def calm_def solo_def migrated_def NewServer_def version_candidate_def)
qed

section \<open>Replication\<close>

lemma serve_all_spec:
  "snd (serve_all mode fine rs s) = exec (map cmd_of (filter (\<lambda>r. req_Op r \<noteq> OpGet) rs)) s"
  "length (fst (serve_all mode fine rs s)) = length rs"
  by (induction rs arbitrary: s) (auto simp: split_def Let_def serve_store exec_def)

lemma exec_store_abs: "store_abs (exec cs s) = fold vwrite cs (store_abs s)"
  by (induction cs arbitrary: s) (simp_all add: exec_def store_abs_Apply)


definition demo_batch :: "ReplicationRequest option list" where
  "demo_batch = [Some \<lparr>rr_Op = PUT, rr_Key = ''a'', rr_Value = [1], rr_VnodeId = 3, rr_Version = 8\<rparr>, None,
     Some \<lparr>rr_Op = DELETE, rr_Key = ''a'', rr_Value = [], rr_VnodeId = 3, rr_Version = 9\<rparr>]"


text \<open>
  The client stream writes on nodes that do not own the key: where \<^verbatim>\<open>Put\<close> refuses a key because another node owns it
  and changes nothing, \<^verbatim>\<open>StreamKV\<close> applies the same put, answers without an error, and never calls
  the replicator.
\<close>

theorem StreamKV_bypasses_ownership:
  assumes "ri_CheckOwnership ri key = (False, rep, owner)"
  shows "Put ri le now key val sv = (Inl (NotResponsible owner False), sv)
    \<and> (\<exists>resp sv'. StreamKV ri AckAfterFlush True [(now, \<lparr>sr_Op = PUT, sr_Key = key, sr_Value = val\<rparr>)] sv = ([resp], sv')
       \<and> sp_Error resp = None
       \<and> sv_Store sv' = snd (Apply (put_cmd key val (ri_GetVNodeForKey ri key) (version_candidate (sv_versionCounter sv) now)) (sv_Store sv)))"
  using assms
  by (simp add: Put_def write_call_def ownershipError_def stream_request_def stream_op_def NextVersion_eq serve_def cmd_of_def
      put_cmd_def stream_resp_def write_response_def split_def Let_def op_defs ack_defs)

definition bystander :: ReplicatorIface where
  "bystander = solo\<lparr>ri_CheckOwnership := (\<lambda>_. (False, False, ''n2''))\<rparr>"

theorem StreamKV_bypasses_ownership_witness:
  "\<exists>resp sv'. StreamKV bystander AckAfterFlush True [(5, \<lparr>sr_Op = PUT, sr_Key = ''k'', sr_Value = [1]\<rparr>)] (NewServer NewStore) = ([resp], sv')
     \<and> sp_Error resp = None"
  using StreamKV_bypasses_ownership [of bystander "''k''" False "''n2''" calm 5 "[1]" "NewServer NewStore"]
  by (auto simp: bystander_def)

end
