(* ===== verification/Go_Float.thy ===== *)
theory Go_Float
  imports Nawst_Prelude
begin

text \<open>
  Go's \<^verbatim>\<open>float64\<close>: IEEE 754 binary64 values as rationals, with rounding to nearest and ties to
  even after every operation. Zero has no sign here: no operation of the program divides by a
  signed zero or asks for its sign. Multiplication and addition round separately, as on amd64.
\<close>

section \<open>Rounding\<close>

function nbits :: "int \<Rightarrow> int" where
  "nbits n = (if n \<le> 0 then 0 else nbits (n div 2) + 1)"
  by pat_completeness auto
termination
  by (relation "measure nat") auto

declare nbits.simps [simp del]

definition ilog2 :: "rat \<Rightarrow> int" where
  "ilog2 x =
     (let (a, b) = quotient_of x;
          k = nbits a - nbits b
      in if 2 powi k \<le> x then k else k - 1)"

definition round_even :: "rat \<Rightarrow> int" where
  "round_even q =
     (let f = \<lfloor>q\<rfloor>; r = q - of_int f
      in if r < 1 / 2 then f else if 1 / 2 < r then f + 1 else if even f then f else f + 1)"

definition f64_limit :: rat where "f64_limit = 2 ^ 1024"

datatype f64 = NaN | Inf bool | Fin rat

definition fl_pos :: "rat \<Rightarrow> f64" where
  "fl_pos x =
     (let ulp = 2 powi (max (ilog2 x) (-1022) - 52);
          y = of_int (round_even (x / ulp)) * ulp
      in if y \<ge> f64_limit then Inf False else Fin y)"

definition fneg :: "f64 \<Rightarrow> f64" where
  "fneg v = (case v of NaN \<Rightarrow> NaN | Inf s \<Rightarrow> Inf (\<not> s) | Fin x \<Rightarrow> Fin (- x))"

definition fl :: "rat \<Rightarrow> f64" where
  "fl x = (if x = 0 then Fin 0 else if 0 < x then fl_pos x else fneg (fl_pos (- x)))"

section \<open>Operations\<close>

fun fadd :: "f64 \<Rightarrow> f64 \<Rightarrow> f64" where
  "fadd (Fin a) (Fin b) = fl (a + b)"
| "fadd (Inf s) (Inf t) = (if s = t then Inf s else NaN)"
| "fadd (Inf s) (Fin _) = Inf s"
| "fadd (Fin _) (Inf t) = Inf t"
| "fadd NaN _ = NaN"
| "fadd _ NaN = NaN"

definition fsub :: "f64 \<Rightarrow> f64 \<Rightarrow> f64" where
  "fsub a b = fadd a (fneg b)"

fun fmul :: "f64 \<Rightarrow> f64 \<Rightarrow> f64" where
  "fmul (Fin a) (Fin b) = fl (a * b)"
| "fmul (Inf s) (Inf t) = Inf (s \<noteq> t)"
| "fmul (Inf s) (Fin b) = (if b = 0 then NaN else Inf (s \<noteq> (b < 0)))"
| "fmul (Fin a) (Inf t) = (if a = 0 then NaN else Inf (t \<noteq> (a < 0)))"
| "fmul NaN _ = NaN"
| "fmul _ NaN = NaN"

fun fdiv :: "f64 \<Rightarrow> f64 \<Rightarrow> f64" where
  "fdiv (Fin a) (Fin b) = (if b = 0 then if a = 0 then NaN else Inf (a < 0) else fl (a / b))"
| "fdiv (Inf s) (Inf t) = NaN"
| "fdiv (Inf s) (Fin b) = Inf (s \<noteq> (b < 0))"
| "fdiv (Fin a) (Inf t) = Fin 0"
| "fdiv NaN _ = NaN"
| "fdiv _ NaN = NaN"

text \<open>Comparisons are false on \<^verbatim>\<open>NaN\<close>.\<close>

fun flt :: "f64 \<Rightarrow> f64 \<Rightarrow> bool" where
  "flt (Fin a) (Fin b) = (a < b)"
| "flt (Inf s) (Inf t) = (s \<and> \<not> t)"
| "flt (Inf s) (Fin _) = s"
| "flt (Fin _) (Inf t) = (\<not> t)"
| "flt NaN _ = False"
| "flt _ NaN = False"

definition feq :: "f64 \<Rightarrow> f64 \<Rightarrow> bool" where
  "feq a b \<longleftrightarrow> a \<noteq> NaN \<and> a = b"

definition fle :: "f64 \<Rightarrow> f64 \<Rightarrow> bool" where
  "fle a b \<longleftrightarrow> flt a b \<or> feq a b"

definition IsNaN :: "f64 \<Rightarrow> bool" where
  "IsNaN v \<longleftrightarrow> v = NaN"

definition IsInf :: "f64 \<Rightarrow> bool" where
  "IsInf v \<longleftrightarrow> (\<exists>s\<in>{True, False}. v = Inf s)"

definition of_go_int :: "int \<Rightarrow> f64" where
  "of_go_int n = fl (of_int n)"

text \<open>\<^verbatim>\<open>int(math.Floor(v))\<close>; out of range the amd64 conversion gives the least integer.\<close>

definition floor_int :: "f64 \<Rightarrow> int" where
  "floor_int v =
     (case v of Fin x \<Rightarrow> if - (2 ^ 63) \<le> \<lfloor>x\<rfloor> \<and> \<lfloor>x\<rfloor> < 2 ^ 63 then \<lfloor>x\<rfloor> else - (2 ^ 63) | _ \<Rightarrow> - (2 ^ 63))"

lemma IsInf_simps [simp]: "IsInf (Inf s)" "\<not> IsInf (Fin x)" "\<not> IsInf NaN"
  by (auto simp: IsInf_def)

lemma IsNaN_simps [simp]: "\<not> IsNaN (Inf s)" "\<not> IsNaN (Fin x)" "IsNaN NaN"
  by (auto simp: IsNaN_def)

lemma fle_Fin [simp]: "fle (Fin a) (Fin b) \<longleftrightarrow> a \<le> b"
  by (auto simp: fle_def feq_def)

section \<open>Error bounds\<close>

lemma nbits_nonneg: "0 \<le> nbits n"
  by (induction n rule: nbits.induct) (simp add: nbits.simps)

lemma nbits_bounds: "0 < n \<Longrightarrow> 2 powi (nbits n - 1) \<le> (of_int n :: rat) \<and> (of_int n :: rat) < 2 powi nbits n"
proof (induction n rule: nbits.induct)
  case (1 n)
  show ?case
  proof (cases "n = 1")
    case True
    then show ?thesis using nbits.simps [of 1] nbits.simps [of 0] by simp
  next
    case False
    with "1.prems" have pos: "0 < n div 2" by auto
    with "1.IH" "1.prems"
    have IH: "2 powi (nbits (n div 2) - 1) \<le> (of_int (n div 2) :: rat)" "(of_int (n div 2) :: rat) < 2 powi nbits (n div 2)"
      by auto
    define h where "h = nbits (n div 2)"
    have bits: "nbits n = h + 1" using "1.prems" by (simp add: nbits.simps [of n] h_def)
    have int_hi: "n div 2 + 1 \<le> 2 ^ nat h"
    proof -
      have "(of_int (n div 2) :: rat) < of_int (2 ^ nat h)"
        using IH(2) pos nbits_nonneg [of "n div 2"] by (simp add: h_def power_int_def)
      then show ?thesis by (simp only: of_int_less_iff)
    qed
    have "of_int n < (2 :: rat) powi (h + 1)"
    proof -
      have "n < 2 * 2 ^ nat h" using int_hi by linarith
      then have "(of_int n :: rat) < of_int (2 * 2 ^ nat h)" by (simp only: of_int_less_iff)
      also have "\<dots> = 2 powi (h + 1)"
        using nbits_nonneg [of "n div 2"] by (simp add: h_def power_int_def nat_add_distrib)
      finally show ?thesis .
    qed
    moreover have "(2 :: rat) powi h \<le> of_int n"
    proof -
      have "(2 :: rat) powi h = 2 powi (h - 1) * 2" using power_int_add [of "2 :: rat" "h - 1" 1] by simp
      also have "\<dots> \<le> of_int (n div 2) * 2" using IH(1) by (simp add: h_def)
      also have "\<dots> = of_int (n div 2 * 2)" by simp
      also have "\<dots> \<le> of_int n" by simp
      finally show ?thesis .
    qed
    ultimately show ?thesis by (simp add: bits)
  qed
qed

lemma ilog2_bounds:
  assumes "0 < x"
  shows "2 powi (ilog2 x) \<le> x" "x < 2 powi (ilog2 x + 1)"
proof -
  obtain a b where q: "quotient_of x = (a, b)" by (cases "quotient_of x")
  have b: "0 < b" and x: "x = of_int a / of_int b"
    using quotient_of_denom_pos [OF q] quotient_of_div [OF q] by auto
  then have a: "0 < a" using assms by (simp add: zero_less_divide_iff)
  define na nb where "na = nbits a" and "nb = nbits b"
  note bounds = nbits_bounds
  have lo: "2 powi (na - nb - 1) < x" and hi: "x < 2 powi (na - nb + 1)"
  proof -
    have "(2 :: rat) powi (na - nb - 1) = 2 powi (na - 1) / 2 powi nb"
      by (subst power_int_diff [symmetric]) (simp_all add: algebra_simps)
    also have "\<dots> < of_int a / of_int b"
      using bounds [OF a] bounds [OF b] b unfolding na_def nb_def
      by (intro frac_less2) auto
    finally show "2 powi (na - nb - 1) < x" using x by simp
    have "of_int a / of_int b < (2 :: rat) powi na / 2 powi (nb - 1)"
      using bounds [OF a] bounds [OF b] a unfolding na_def nb_def
      by (intro frac_less) auto
    also have "\<dots> = 2 powi (na - nb + 1)"
      by (subst power_int_diff [symmetric]) (simp_all add: algebra_simps)
    finally show "x < 2 powi (na - nb + 1)" using x by simp
  qed
  have il: "ilog2 x = (if 2 powi (na - nb) \<le> x then na - nb else na - nb - 1)"
    by (simp add: ilog2_def q na_def nb_def)
  show "2 powi (ilog2 x) \<le> x" "x < 2 powi (ilog2 x + 1)"
    using lo hi by (auto simp: il)
qed

lemma round_even_err: "\<bar>of_int (round_even q) - q\<bar> \<le> 1 / 2"
proof -
  have "of_int \<lfloor>q\<rfloor> \<le> q" "q < of_int \<lfloor>q\<rfloor> + 1" by linarith+
  then show ?thesis by (auto simp: round_even_def Let_def)
qed

lemma round_even_nonneg: "0 \<le> q \<Longrightarrow> 0 \<le> round_even q"
  by (auto simp: round_even_def Let_def)

text \<open>
  A non-negative result is off by at most $2^{-53}$ of its value, or by $2^{-1075}$ near zero. The two
  numbers are kept folded.
\<close>

definition f64_eps :: rat where "f64_eps = 2 powi (-53)"
definition f64_tiny :: rat where "f64_tiny = 2 powi (-1075)"

lemma f64_consts: "0 < f64_eps" "f64_eps \<le> 1 / 4" "0 < f64_tiny" "f64_tiny \<le> 1" "4 \<le> f64_limit"
proof -
  show "0 < f64_eps" "f64_eps \<le> 1 / 4" "0 < f64_tiny" by (simp_all add: f64_eps_def f64_tiny_def power_int_minus)
  have "(2 :: rat) powi (-1075) \<le> 2 powi 0" by (intro power_int_increasing) auto
  then show "f64_tiny \<le> 1" by (simp add: f64_tiny_def)
  have "(2 :: rat) ^ 2 \<le> 2 ^ 1024" by (intro power_increasing) auto
  then show "4 \<le> f64_limit" by (simp add: f64_limit_def)
qed

lemma fl_pos_err:
  assumes "0 < x"
  defines "ulp \<equiv> 2 powi (max (ilog2 x) (-1022) - 52)"
  shows "\<bar>of_int (round_even (x / ulp)) * ulp - x\<bar> \<le> x * f64_eps + f64_tiny"
proof -
  have u: "0 < ulp" by (simp add: ulp_def)
  have "\<bar>of_int (round_even (x / ulp)) * ulp - x\<bar> = \<bar>of_int (round_even (x / ulp)) - x / ulp\<bar> * ulp"
    using u by (simp add: abs_mult_pos [symmetric] field_simps)
  also have "\<dots> \<le> 1 / 2 * ulp" using round_even_err u by (intro mult_right_mono) auto
  also have "\<dots> = 2 powi (max (ilog2 x) (-1022) - 53)"
  proof -
    have "(2 :: rat) powi (max (ilog2 x) (-1022) - 52) = 2 powi (max (ilog2 x) (-1022) - 53 + 1)" by simp
    also have "\<dots> = 2 powi (max (ilog2 x) (-1022) - 53) * 2" by (subst power_int_add) simp_all
    finally show ?thesis by (simp add: ulp_def)
  qed
  also have "\<dots> \<le> x * f64_eps + f64_tiny"
  proof (cases "ilog2 x \<ge> -1022")
    case True
    then have "(2 :: rat) powi (max (ilog2 x) (-1022) - 53) = 2 powi (ilog2 x + -53)"
      by (simp add: max_def)
    also have "\<dots> = 2 powi (ilog2 x) * f64_eps"
      unfolding f64_eps_def by (subst power_int_add) simp_all
    also have "\<dots> \<le> x * f64_eps"
      using ilog2_bounds(1) [OF assms(1)] f64_consts(1) by (intro mult_right_mono) auto
    finally show ?thesis using f64_consts(3) by linarith
  next
    case False
    then have "max (ilog2 x) (-1022) - 53 = (-1075 :: int)" by simp
    then show ?thesis using assms(1) f64_consts(1) by (simp add: f64_tiny_def)
  qed
  finally show ?thesis .
qed

lemma fl_value:
  assumes "0 \<le> x"
  obtains y where "0 \<le> y" "\<bar>y - x\<bar> \<le> x * f64_eps + f64_tiny"
    "fl x = (if y \<ge> f64_limit then Inf False else Fin y)"
proof (cases "x = 0")
  case True
  then show ?thesis using that [of 0] f64_consts(3,5) by (simp add: fl_def)
next
  case False
  with assms have x: "0 < x" by simp
  define ulp where "ulp = (2 :: rat) powi (max (ilog2 x) (-1022) - 52)"
  show ?thesis
  proof (rule that [of "of_int (round_even (x / ulp)) * ulp"])
    show "0 \<le> of_int (round_even (x / ulp)) * ulp"
      using x by (simp add: ulp_def round_even_nonneg)
    show "\<bar>of_int (round_even (x / ulp)) * ulp - x\<bar> \<le> x * f64_eps + f64_tiny"
      using fl_pos_err [OF x] by (simp add: ulp_def)
    show "fl x = (if f64_limit \<le> of_int (round_even (x / ulp)) * ulp then Inf False
        else Fin (of_int (round_even (x / ulp)) * ulp))"
      using x unfolding fl_def fl_pos_def Let_def ulp_def by auto
  qed
qed

lemma fl_err:
  assumes "0 \<le> x" "2 * x \<le> f64_limit"
  obtains y where "fl x = Fin y" "0 \<le> y" "\<bar>y - x\<bar> \<le> x * f64_eps + f64_tiny"
proof (rule fl_value [OF assms(1)])
  fix y
  assume y: "0 \<le> y" "\<bar>y - x\<bar> \<le> x * f64_eps + f64_tiny" "fl x = (if y \<ge> f64_limit then Inf False else Fin y)"
  have "x * f64_eps \<le> x * (1 / 4)" using assms(1) f64_consts(2) by (intro mult_left_mono) auto
  then have "y < f64_limit" using y(2) f64_consts(4,5) assms(2) by linarith
  with that y show thesis by simp
qed

text \<open>Away from the subnormal numbers the error is relative.\<close>

definition f64_small :: rat where "f64_small = 2 powi (-1025)"
definition f64_rel :: rat where "f64_rel = 1 / 2 ^ 48"

lemma f64_bounds: "f64_eps \<le> 1 / 2 ^ 50" "f64_tiny \<le> 1 / 2 ^ 60" "f64_tiny * 2 ^ 50 = f64_small" "0 < f64_small"
  "f64_small * f64_limit * 2 = 1" "2 ^ 100 \<le> f64_limit"
proof -
  show "f64_eps \<le> 1 / 2 ^ 50" by (simp add: f64_eps_def power_int_minus)
  have "(2 :: rat) powi (-1075) \<le> 2 powi (-60)" by (intro power_int_increasing) auto
  also have "(2 :: rat) powi (-60) = 1 / 2 ^ 60" by simp
  finally show "f64_tiny \<le> 1 / 2 ^ 60" unfolding f64_tiny_def .
  have "(2 :: rat) powi (-1075 + 50) = 2 powi (-1075) * 2 powi 50" by (rule power_int_add) simp
  moreover have "(-1075 + 50 :: int) = -1025" by simp
  ultimately show "f64_tiny * 2 ^ 50 = f64_small"
    unfolding f64_tiny_def f64_small_def by (simp only: power_int_numeral)
  show "0 < f64_small" unfolding f64_small_def by (rule zero_less_power_int) simp
  have "(2 :: rat) powi (-1025 + 1025) = 2 powi (-1025) * 2 powi 1025" by (rule power_int_add) simp
  moreover have "(2 :: rat) powi (1024 + 1) = 2 powi 1024 * 2 powi 1" by (rule power_int_add) simp
  moreover have "(-1025 + 1025 :: int) = 0" "(1024 + 1 :: int) = 1025" by simp_all
  ultimately show "f64_small * f64_limit * 2 = 1"
    unfolding f64_small_def f64_limit_def by (simp only: power_int_numeral power_int_0_right power_int_1_right mult.assoc)
  have "(2 :: rat) ^ 100 \<le> 2 ^ 1024" by (intro power_increasing) auto
  then show "2 ^ 100 \<le> f64_limit" unfolding f64_limit_def .
qed

lemma fl_rel:
  assumes "f64_small \<le> 2 * x" "2 * x \<le> f64_limit"
  obtains y where "fl x = Fin y" "x * (1 - f64_rel) \<le> y" "y \<le> x * (1 + f64_rel)"
proof -
  have x: "0 < x" using assms(1) f64_bounds(4) by linarith
  obtain y where y: "fl x = Fin y" "\<bar>y - x\<bar> \<le> x * f64_eps + f64_tiny"
    using fl_err [of x] x assms(2) by auto
  have "x * f64_eps \<le> x * (1 / 2 ^ 50)" using f64_bounds(1) x by (intro mult_left_mono) auto
  moreover have "f64_tiny \<le> x * (1 / 2 ^ 49)" using f64_bounds(3) assms(1) by simp
  moreover have "x * (1 / 2 ^ 50) + x * (1 / 2 ^ 49) \<le> x * f64_rel"
    using x by (simp add: f64_rel_def)
  ultimately have "\<bar>y - x\<bar> \<le> x * f64_rel" using y(2) by linarith
  then have "x * (1 - f64_rel) \<le> y" "y \<le> x * (1 + f64_rel)" by (simp_all add: algebra_simps)
  with that y(1) show thesis by blast
qed

text \<open>Integers of up to 53 bits are exact.\<close>

lemma round_even_int [simp]: "round_even (of_int j) = j"
  by (simp add: round_even_def)

lemma of_go_int_exact:
  assumes "0 \<le> k" "k < 2 ^ 53"
  shows "of_go_int k = Fin (of_int k)"
proof (cases "k = 0")
  case True
  then show ?thesis by (simp add: of_go_int_def fl_def)
next
  case False
  define x where "x = (of_int k :: rat)"
  define e where "e = ilog2 x"
  have x: "1 \<le> x" "x < 2 powi 53" using assms False by (simp_all add: x_def flip: of_int_power)
  then have pos: "0 < x" by simp
  note b = ilog2_bounds [OF pos, folded e_def]
  have "(2 :: rat) powi e < 2 powi 53" "(2 :: rat) powi 0 < 2 powi (e + 1)" using b x by auto
  then have e: "e \<le> 52" "0 \<le> e"
    using power_int_increasing [of 53 e "2 :: rat"] power_int_increasing [of "e + 1" 0 "2 :: rat"]
    by (force, force)
  define ulp where "ulp = (2 :: rat) powi (e - 52)"
  have "x / ulp = x * 2 powi (52 - e)" by (simp add: ulp_def power_int_diff field_simps)
  also have "\<dots> = of_int (k * 2 ^ nat (52 - e))" using e by (simp add: x_def power_int_def)
  finally have "of_int (round_even (x / ulp)) = x / ulp" by (simp only: round_even_int)
  then have y: "of_int (round_even (x / ulp)) * ulp = x" by (simp add: ulp_def)
  have "x < 2 ^ 100" by (rule less_trans [OF x(2)]) simp
  then have "x < f64_limit" using f64_bounds(6) by (rule less_le_trans)
  moreover have "max e (-1022) = e" using e by simp
  ultimately show ?thesis
    using pos y unfolding of_go_int_def fl_def fl_pos_def Let_def x_def [symmetric] e_def [symmetric]
    by (simp add: ulp_def)
qed

text \<open>The constant \<^verbatim>\<open>eps\<close> of the scoring code.\<close>

definition f64_nano :: f64 where "f64_nano = fl (1 / 10 ^ 9)"

lemma f64_nano_Fin:
  obtains e where "f64_nano = Fin e" "1 / 2 ^ 30 \<le> e"
proof -
  have "2 * (1 / 10 ^ 9) \<le> f64_limit" by (rule order_trans [OF _ f64_bounds(6)]) simp
  then obtain e where e: "fl (1 / 10 ^ 9) = Fin e" "\<bar>e - 1 / 10 ^ 9\<bar> \<le> 1 / 10 ^ 9 * f64_eps + f64_tiny"
    using fl_err [of "1 / 10 ^ 9"] by auto
  have "1 / 10 ^ 9 * f64_eps \<le> (1 / 10 ^ 9 * (1 / 2 ^ 50) :: rat)"
    by (rule mult_left_mono [OF f64_bounds(1)]) simp
  then have "1 / 10 ^ 9 - e \<le> 1 / 10 ^ 9 * (1 / 2 ^ 50) + 1 / 2 ^ 60"
    using e(2) f64_bounds(2) by linarith
  then have "1 / 2 ^ 30 \<le> e" by simp
  with e(1) that show thesis by (simp add: f64_nano_def)
qed

text \<open>A weight is a finite number, at most $2^{33}$, and either zero or not too small.\<close>

end
