(* ===== verification/Placement.thy ===== *)
theory Placement
  imports Go_Float
begin

text \<open>
  The shard map of \<^verbatim>\<open>src/cluster/placement.go\<close>: 1024 vnodes, the lookup of a key, and
  \<^verbatim>\<open>AssignVNodes\<close>, which moves vnodes between nodes until every node has its target count. The hash
  function (\<^verbatim>\<open>xxhash\<close>) is the parameter \<open>hash\<close>.
\<close>

section \<open>Data\<close>

definition VNodeCount :: nat where "VNodeCount = 1024"

definition TokenBucketSize :: u64 where
  "TokenBucketSize = (- 1) div of_nat VNodeCount"

record VNode =
  vn_ID :: u16
  vn_Token :: u64
  vn_Primary :: string
  vn_Replicas :: "string list"

record NodeInfo =
  ni_ID :: string
  ni_Score :: f64

record Placement =
  pl_Epoch :: u64
  pl_Nodes :: "NodeInfo list"
  pl_VNodes :: "VNode list"

definition InitializeVNodes :: "VNode list" where
  "InitializeVNodes = map (\<lambda>i. \<lparr>vn_ID = of_nat i, vn_Token = of_nat i * TokenBucketSize,
     vn_Primary = '''', vn_Replicas = []\<rparr>) [0..<VNodeCount]"

section \<open>Lookup\<close>

text \<open>The high word of \<^verbatim>\<open>bits.Mul64\<close>.\<close>

definition mul64_hi :: "u64 \<Rightarrow> u64 \<Rightarrow> u64" where
  "mul64_hi a b = of_nat (unat a * unat b div 2 ^ 64)"

definition vnode_index :: "(string \<Rightarrow> u64) \<Rightarrow> string \<Rightarrow> nat" where
  "vnode_index hash key = unat (mul64_hi (hash key) (of_nat VNodeCount))"

definition GetNodesForKey :: "(string \<Rightarrow> u64) \<Rightarrow> Placement \<Rightarrow> string \<Rightarrow> string \<times> string list" where
  "GetNodesForKey hash p key =
     (if length (pl_VNodes p) \<noteq> VNodeCount then ('''', [])
      else (let v = pl_VNodes p ! vnode_index hash key in (vn_Primary v, vn_Replicas v)))"

definition GetVNodeIDForKey :: "(string \<Rightarrow> u64) \<Rightarrow> Placement \<Rightarrow> string \<Rightarrow> u16" where
  "GetVNodeIDForKey hash p key =
     (if length (pl_VNodes p) \<noteq> VNodeCount then 0 else vn_ID (pl_VNodes p ! vnode_index hash key))"

section \<open>Assigning vnodes\<close>

datatype placement_panic = MismatchPanic | NoDeficitPanic | IndexPanic

definition count_primary :: "VNode \<Rightarrow> (string, int) fmap \<Rightarrow> (string, int) fmap" where
  "count_primary v m =
     (if vn_Primary v = '''' then m else fmupd (vn_Primary v) (get0 m (vn_Primary v) + 1) m)"

text \<open>
  The loop that takes vnodes from nodes that are gone or have too many. It returns the vnodes, the
  ids of those without an owner, and the counts that are left.
\<close>

fun revoke :: "(string, int) fmap \<Rightarrow> (string, int) fmap \<Rightarrow> VNode list \<Rightarrow> VNode list \<times> u16 list \<times> (string, int) fmap"
where
  "revoke nodeCounts cur [] = ([], [], cur)"
| "revoke nodeCounts cur (v # vs) =
     (let owner = vn_Primary v
      in if owner = '''' then
           (let (vs', orphaned, cur') = revoke nodeCounts cur vs in (v # vs', vn_ID v # orphaned, cur'))
         else if (case fmlookup nodeCounts owner of None \<Rightarrow> True | Some allowed \<Rightarrow> get0 cur owner > allowed) then
           (let (vs', orphaned, cur') = revoke nodeCounts (fmupd owner (get0 cur owner - 1) cur) vs
            in (v\<lparr>vn_Primary := ''''\<rparr> # vs', vn_ID v # orphaned, cur'))
         else (let (vs', orphaned, cur') = revoke nodeCounts cur vs in (v # vs', orphaned, cur')))"

definition deficits_of :: "(string, int) fmap \<Rightarrow> (string, int) fmap \<Rightarrow> (string, int) fmap" where
  "deficits_of nodeCounts cur =
     fmfilter (\<lambda>id. get0 nodeCounts id > get0 cur id) (fmmap_keys (\<lambda>id target. target - get0 cur id) nodeCounts)"

text \<open>The node with a deficit whose hash with the vnode is highest; \<^verbatim>\<open>""\<close> if there is none.\<close>

definition better :: "(string \<Rightarrow> u64) \<Rightarrow> (string, int) fmap \<Rightarrow> u16 \<Rightarrow> string \<Rightarrow> string \<times> u64 \<Rightarrow> string \<times> u64" where
  "better hash deficits vnodeID nodeID best =
     (if get0 deficits nodeID \<le> 0 then best
      else (let (bestNode, bestScore) = best;
                score = hash (nodeID @ '':'' @ dec (unat vnodeID))
            in if bestNode = '''' \<or> score > bestScore \<or> (score = bestScore \<and> nodeID < bestNode)
               then (nodeID, score) else best))"

definition best_node :: "(string \<Rightarrow> u64) \<Rightarrow> string list \<Rightarrow> (string, int) fmap \<Rightarrow> u16 \<Rightarrow> string" where
  "best_node hash deficitIDs deficits vnodeID = fst (fold (better hash deficits vnodeID) deficitIDs ('''', 0))"

fun assign_orphans :: "(string \<Rightarrow> u64) \<Rightarrow> string list \<Rightarrow> u16 list \<Rightarrow> (string, int) fmap \<Rightarrow> VNode list \<Rightarrow> placement_panic + VNode list"
where
  "assign_orphans hash ids [] deficits vs = Inr vs"
| "assign_orphans hash ids (v # orphans) deficits vs =
     (let newOwner = best_node hash ids deficits v
      in if newOwner = '''' then Inl NoDeficitPanic
         else if length vs \<le> unat v then Inl IndexPanic
         else assign_orphans hash ids orphans (fmupd newOwner (get0 deficits newOwner - 1) deficits)
                (vs[unat v := (vs ! unat v)\<lparr>vn_Primary := newOwner\<rparr>]))"

definition AssignVNodes :: "(string \<Rightarrow> u64) \<Rightarrow> (string, int) fmap \<Rightarrow> Placement \<Rightarrow> placement_panic + Placement" where
  "AssignVNodes hash nodeCounts p =
     (let vs0 = (if pl_VNodes p = [] then InitializeVNodes else pl_VNodes p);
          currentCounts = fold count_primary vs0 fmempty;
          (vs, orphaned, cur) = revoke nodeCounts currentCounts vs0;
          deficits = deficits_of nodeCounts cur
      in if int (length orphaned) \<noteq> fm_sum (\<lambda>d. d) deficits then Inl MismatchPanic
         else map_sum id (\<lambda>vs'. p\<lparr>pl_VNodes := vs'\<rparr>)
           (assign_orphans hash (sorted_list_of_fset (fmdom deficits)) orphaned deficits vs))"

section \<open>Lookup is total and even\<close>

lemma vnode_index_eq: "vnode_index hash key = unat (hash key) div 2 ^ 54"
proof -
  have less: "unat (hash key) < 2 ^ 64" using unsigned_less [of "hash key"] by simp
  have "unat (hash key) * 1024 div 2 ^ 64 = unat (hash key) div 2 ^ 54"
    using div_mult_mult2 [of "1024 :: nat" "unat (hash key)" "2 ^ 54"] by simp
  moreover have "unat (hash key) div 2 ^ 54 < 2 ^ 64"
    using less by (meson div_le_dividend le_less_trans)
  ultimately show ?thesis
    by (simp add: vnode_index_def mul64_hi_def VNodeCount_def unat_of_nat)
qed

lemma vnode_index_less: "vnode_index hash key < VNodeCount"
proof -
  have "unat (hash key) < 2 ^ 64" using unsigned_less [of "hash key"] by simp
  then have "unat (hash key) div 2 ^ 54 < 1024" by (simp add: less_mult_imp_div_less)
  then show ?thesis by (simp add: vnode_index_eq VNodeCount_def)
qed

section \<open>Assignment meets the targets\<close>

definition occ :: "string \<Rightarrow> VNode list \<Rightarrow> nat" where
  "occ nid vs = length (filter (\<lambda>v. vn_Primary v = nid) vs)"

lemma occ_Nil [simp]: "occ nid [] = 0"
  by (simp add: occ_def)

lemma occ_Cons [simp]: "occ nid (v # vs) = (if vn_Primary v = nid then 1 else 0) + occ nid vs"
  by (simp add: occ_def)

lemma occ_pos: "v \<in> set vs \<Longrightarrow> 0 < occ (vn_Primary v) vs"
  by (auto simp: occ_def filter_empty_conv)

lemma occ_card: "occ nid vs = card {i. i < length vs \<and> vn_Primary (vs ! i) = nid}"
  by (simp add: occ_def length_filter_conv_card)

lemma occ_update:
  "i < length vs \<Longrightarrow> vn_Primary (vs ! i) \<noteq> nid \<Longrightarrow>
     occ nid (vs[i := v]) = occ nid vs + (if vn_Primary v = nid then 1 else 0)"
proof (induction vs arbitrary: i)
  case (Cons u us)
  then show ?case by (cases i) auto
qed simp

lemma count_primaries: "nid \<noteq> '''' \<Longrightarrow> get0 (fold count_primary vs m) nid = get0 m nid + int (occ nid vs)"
  by (induction vs arbitrary: m) (auto simp: count_primary_def go_simps)

lemma occ_partition:
  assumes "finite D" "'''' \<notin> D" "\<forall>v\<in>set vs. vn_Primary v = '''' \<or> vn_Primary v \<in> D"
  shows "length vs = occ '''' vs + (\<Sum>nid\<in>D. occ nid vs)"
  using assms(3)
proof (induction vs)
  case (Cons v vs)
  have "(\<Sum>nid\<in>D. occ nid (v # vs)) = (\<Sum>nid\<in>D. if vn_Primary v = nid then 1 else 0) + (\<Sum>nid\<in>D. occ nid vs)"
    by (simp add: sum.distrib)
  also have "(\<Sum>nid\<in>D. if vn_Primary v = nid then 1 else 0 :: nat) = (if vn_Primary v \<in> D then 1 else 0)"
    using assms(1) by simp
  finally show ?case using Cons assms(2) by (auto split: if_splits)
qed simp

subsection \<open>Revoking\<close>

definition strip :: "int \<Rightarrow> int \<Rightarrow> int \<Rightarrow> int" where
  "strip n c t = min n (max 0 (c - t))"

lemma revoke_spec:
  assumes "revoke T cur vs = (vs', orph, cur')"
    and "\<forall>nid. nid \<noteq> '''' \<longrightarrow> int (occ nid vs) \<le> get0 cur nid" "\<forall>nid n. fmlookup T nid = Some n \<longrightarrow> 0 \<le> n"
  shows "list_all2 (\<lambda>v v'. v' = v \<or> v' = v\<lparr>vn_Primary := ''''\<rparr>) vs vs'
    \<and> orph = map vn_ID (filter (\<lambda>v. vn_Primary v = '''') vs')
    \<and> (\<forall>nid. nid \<noteq> '''' \<longrightarrow> get0 cur' nid = get0 cur nid - strip (int (occ nid vs)) (get0 cur nid) (get0 T nid)
        \<and> int (occ nid vs') = int (occ nid vs) - strip (int (occ nid vs)) (get0 cur nid) (get0 T nid))"
  using assms(1,2)
proof (induction vs arbitrary: cur vs' orph cur')
  case Nil
  then show ?case by (simp add: strip_def)
next
  case (Cons v vs)
  let ?o = "vn_Primary v"
  have low: "\<forall>nid. nid \<noteq> '''' \<longrightarrow> int (occ nid vs) \<le> get0 cur nid"
    using Cons.prems(2) by force
  consider (blank) "?o = ''''" | (keep) "?o \<noteq> ''''" "get0 cur ?o \<le> get0 T ?o" | (take) "?o \<noteq> ''''" "get0 T ?o < get0 cur ?o"
    by linarith
  then show ?case
  proof cases
    case blank
    with Cons.prems(1) obtain vs1 o1 where r: "revoke T cur vs = (vs1, o1, cur')"
      and eqs: "vs' = v # vs1" "orph = vn_ID v # o1" by (auto simp: split_def Let_def prod_eq_iff)
    from Cons.IH [OF r low] blank show ?thesis by (simp add: eqs)
  next
    case keep
    have "get0 cur ?o \<ge> 1" using Cons.prems(2) keep(1) by (auto dest: spec [of _ ?o])
    with keep(2) obtain a where "fmlookup T ?o = Some a" "get0 cur ?o \<le> a"
      by (auto simp: get0_def split: option.splits)
    with Cons.prems(1) keep obtain vs1 o1 where r: "revoke T cur vs = (vs1, o1, cur')"
      and eqs: "vs' = v # vs1" "orph = o1" by (auto simp: split_def Let_def prod_eq_iff)
    from Cons.IH [OF r low] keep show ?thesis by (auto simp: eqs strip_def)
  next
    case take
    let ?c = "fmupd ?o (get0 cur ?o - 1) cur"
    have "case fmlookup T ?o of None \<Rightarrow> True | Some allowed \<Rightarrow> allowed < get0 cur ?o"
      using take(2) by (auto simp: get0_def split: option.splits)
    with Cons.prems(1) take(1) obtain vs1 o1 where r: "revoke T ?c vs = (vs1, o1, cur')"
      and eqs: "vs' = v\<lparr>vn_Primary := ''''\<rparr> # vs1" "orph = vn_ID v # o1"
      by (auto simp: split_def Let_def prod_eq_iff)
    have low': "\<forall>nid. nid \<noteq> '''' \<longrightarrow> int (occ nid vs) \<le> get0 ?c nid"
      using Cons.prems(2) by (force simp: go_simps)
    from Cons.IH [OF r low'] take show ?thesis by (auto simp: eqs strip_def go_simps)
  qed
qed

subsection \<open>Deficits\<close>

lemma get0_deficits:
  assumes "\<forall>nid n. fmlookup T nid = Some n \<longrightarrow> 0 \<le> n" "0 \<le> get0 cur nid"
  shows "get0 (deficits_of T cur) nid = max 0 (get0 T nid - get0 cur nid)"
  using assms by (auto simp: deficits_of_def get0_def split: option.splits)

lemma dom_deficits: "nid \<in> fset (fmdom (deficits_of T cur)) \<Longrightarrow> nid \<in> fset (fmdom T) \<and> get0 cur nid < get0 T nid"
  by (auto simp: deficits_of_def)

lemma sum_deficits:
  assumes "\<forall>nid n. fmlookup T nid = Some n \<longrightarrow> 0 \<le> n" "\<forall>nid. nid \<noteq> '''' \<longrightarrow> 0 \<le> get0 cur nid"
    and "'''' \<notin> fset (fmdom T)"
  shows "fm_sum (\<lambda>d. d) (deficits_of T cur) = (\<Sum>nid\<in>fset (fmdom T). max 0 (get0 T nid - get0 cur nid))"
proof -
  have eq: "get0 (deficits_of T cur) nid = max 0 (get0 T nid - get0 cur nid)" if "nid \<in> fset (fmdom T)" for nid
  proof -
    have "nid \<noteq> ''''" using that assms(3) by auto
    with assms(1,2) show ?thesis by (intro get0_deficits) auto
  qed
  have "(\<Sum>nid\<in>fset (fmdom (deficits_of T cur)). get0 (deficits_of T cur) nid)
      = (\<Sum>nid\<in>fset (fmdom T). get0 (deficits_of T cur) nid)"
    by (intro sum.mono_neutral_left) (auto dest: dom_deficits simp: get0_absent)
  then show ?thesis using eq by (simp add: fm_sum_get0)
qed

subsection \<open>Handing out the orphans\<close>

lemma best_node_fold:
  assumes "'''' \<notin> set ids"
  shows "(fst (fold (better hash d v) ids (b, sc)) = b
      \<or> fst (fold (better hash d v) ids (b, sc)) \<in> set ids \<and> 0 < get0 d (fst (fold (better hash d v) ids (b, sc))))
    \<and> (b \<noteq> '''' \<or> (\<exists>nid\<in>set ids. 0 < get0 d nid) \<longrightarrow> fst (fold (better hash d v) ids (b, sc)) \<noteq> '''')"
  using assms
proof (induction ids arbitrary: b sc)
  case (Cons x ids)
  obtain b' sc' where step: "better hash d v x (b, sc) = (b', sc')" by (cases "better hash d v x (b, sc)")
  then have b': "b' = b \<or> b' = x \<and> 0 < get0 d x" "b \<noteq> '''' \<or> 0 < get0 d x \<longrightarrow> b' \<noteq> ''''"
    using Cons.prems by (auto simp: better_def Let_def split: if_splits)
  from Cons.prems have "'''' \<notin> set ids" by simp
  from Cons.IH [OF this, of b' sc'] b' show ?case by (auto simp: step)
qed simp

lemma best_node_some:
  assumes "'''' \<notin> set ids" "nid \<in> set ids" "0 < get0 d nid"
  shows "best_node hash ids d v \<in> set ids \<and> 0 < get0 d (best_node hash ids d v) \<and> best_node hash ids d v \<noteq> ''''"
  using best_node_fold [OF assms(1), of hash d v "''''" 0] assms(2,3) unfolding best_node_def by blast

lemma assign_orphans_ok:
  assumes ids: "distinct ids" "'''' \<notin> set ids"
    and "\<forall>nid\<in>set ids. 0 \<le> get0 d nid" "(\<Sum>nid\<in>set ids. get0 d nid) = int (length orph)"
    and "distinct orph" "\<forall>x\<in>set orph. unat x < length vs \<and> vn_Primary (vs ! unat x) = ''''"
  shows "\<exists>vs'. assign_orphans hash ids orph d vs = Inr vs' \<and> length vs' = length vs
    \<and> (\<forall>i<length vs. (\<exists>b. vs' ! i = (vs ! i)\<lparr>vn_Primary := b\<rparr>) \<and> (vn_Primary (vs ! i) \<noteq> '''' \<longrightarrow> vs' ! i = vs ! i))
    \<and> (\<forall>nid. nid \<noteq> '''' \<longrightarrow> int (occ nid vs') = int (occ nid vs) + (if nid \<in> set ids then get0 d nid else 0))"
  using assms(3-)
proof (induction orph arbitrary: d vs)
  case Nil
  then have "\<forall>nid\<in>set ids. get0 d nid = 0" by (simp add: sum_nonneg_eq_0_iff)
  moreover have "\<exists>b. v = v\<lparr>vn_Primary := b\<rparr>" for v :: VNode by (rule exI [of _ "vn_Primary v"]) simp
  ultimately show ?case by auto
next
  case (Cons x orph)
  have "\<exists>nid\<in>set ids. 0 < get0 d nid"
  proof (rule ccontr)
    assume "\<not> ?thesis"
    then have "(\<Sum>nid\<in>set ids. get0 d nid) \<le> 0" by (intro sum_nonpos) auto
    with Cons.prems(2) show False by simp
  qed
  then obtain nid where "nid \<in> set ids" "0 < get0 d nid" by blast
  define b where "b = best_node hash ids d x"
  have b: "b \<in> set ids" "0 < get0 d b" "b \<noteq> ''''"
    using best_node_some [OF ids(2) \<open>nid \<in> set ids\<close> \<open>0 < get0 d nid\<close>] unfolding b_def by blast+
  define d' where "d' = fmupd b (get0 d b - 1) d"
  define us where "us = vs[unat x := (vs ! unat x)\<lparr>vn_Primary := b\<rparr>]"
  have d': "get0 d' nid = get0 d nid - (if nid = b then 1 else 0)" for nid by (simp add: d'_def go_simps)
  have x: "unat x < length vs" "vn_Primary (vs ! unat x) = ''''" "x \<notin> set orph" "distinct orph"
    using Cons.prems by auto
  have "(\<Sum>nid\<in>set ids. get0 d' nid) = (\<Sum>nid\<in>set ids. get0 d nid) - 1"
    using b(1) by (simp add: d' sum_subtractf)
  then have sum': "(\<Sum>nid\<in>set ids. get0 d' nid) = int (length orph)" using Cons.prems(2) by simp
  have nonneg': "\<forall>nid\<in>set ids. 0 \<le> get0 d' nid" using Cons.prems(1) b(2) by (auto simp: d')
  have blank': "\<forall>y\<in>set orph. unat y < length us \<and> vn_Primary (us ! unat y) = ''''"
    using Cons.prems(4) x(3) by (auto simp: us_def nth_list_update simp flip: word_unat_eq_iff)
  from Cons.IH [OF nonneg' sum' x(4) blank'] obtain vs' where
    r: "assign_orphans hash ids orph d' us = Inr vs'" "length vs' = length us"
    and keep: "\<forall>i<length us. (\<exists>b. vs' ! i = (us ! i)\<lparr>vn_Primary := b\<rparr>) \<and> (vn_Primary (us ! i) \<noteq> '''' \<longrightarrow> vs' ! i = us ! i)"
    and occs: "\<forall>nid. nid \<noteq> '''' \<longrightarrow> int (occ nid vs') = int (occ nid us) + (if nid \<in> set ids then get0 d' nid else 0)"
    by blast
  have "assign_orphans hash ids (x # orph) d vs = Inr vs'"
    using r(1) b(3) x(1) by (simp add: Let_def d'_def us_def flip: b_def)
  moreover have "\<forall>i<length vs. (\<exists>b. vs' ! i = (vs ! i)\<lparr>vn_Primary := b\<rparr>) \<and> (vn_Primary (vs ! i) \<noteq> '''' \<longrightarrow> vs' ! i = vs ! i)"
  proof (intro allI impI)
    fix i
    assume i: "i < length vs"
    with keep have k: "(\<exists>b. vs' ! i = (us ! i)\<lparr>vn_Primary := b\<rparr>) \<and> (vn_Primary (us ! i) \<noteq> '''' \<longrightarrow> vs' ! i = us ! i)"
      by (simp add: us_def)
    show "(\<exists>b. vs' ! i = (vs ! i)\<lparr>vn_Primary := b\<rparr>) \<and> (vn_Primary (vs ! i) \<noteq> '''' \<longrightarrow> vs' ! i = vs ! i)"
    proof (cases "i = unat x")
      case True
      with k i x(2) show ?thesis by (auto simp: us_def)
    next
      case False
      with k show ?thesis by (simp add: us_def)
    qed
  qed
  moreover have "int (occ nid us) = int (occ nid vs) + (if nid = b then 1 else 0)" if "nid \<noteq> ''''" for nid
    using occ_update [OF x(1), of nid] x(2) that by (auto simp: us_def)
  then have "\<forall>nid. nid \<noteq> '''' \<longrightarrow> int (occ nid vs') = int (occ nid vs) + (if nid \<in> set ids then get0 d nid else 0)"
    using occs b(1) by (auto simp: d')
  ultimately show ?case using r(2) by (auto simp: us_def)
qed

subsection \<open>The whole assignment\<close>

text \<open>A ring: 1024 vnodes, each at the index that is its id.\<close>

definition ring :: "VNode list \<Rightarrow> bool" where
  "ring vs \<longleftrightarrow> length vs = VNodeCount \<and> (\<forall>i<VNodeCount. vn_ID (vs ! i) = of_nat i)"

definition ring_of :: "Placement \<Rightarrow> VNode list" where
  "ring_of p = (if pl_VNodes p = [] then InitializeVNodes else pl_VNodes p)"

lemma ring_Initialize: "ring InitializeVNodes"
  by (simp add: ring_def InitializeVNodes_def)

lemma ring_unat: "ring vs \<Longrightarrow> i < VNodeCount \<Longrightarrow> unat (vn_ID (vs ! i)) = i"
  by (simp add: ring_def VNodeCount_def unat_of_nat)

lemma list_all2_ring:
  assumes "ring vs" "list_all2 (\<lambda>v v'. v' = v \<or> v' = v\<lparr>vn_Primary := ''''\<rparr>) vs vs'"
  shows "ring vs'"
  using assms by (fastforce simp: ring_def list_all2_conv_all_nth)

lemma orphan_ids:
  assumes "ring vs"
  shows "distinct (map vn_ID (filter (\<lambda>v. vn_Primary v = '''') vs))"
    and "\<forall>x\<in>set (map vn_ID (filter (\<lambda>v. vn_Primary v = '''') vs)).
      unat x < length vs \<and> vn_Primary (vs ! unat x) = ''''"
proof -
  have "map (\<lambda>v. unat (vn_ID v)) vs = [0..<VNodeCount]"
    using assms by (intro nth_equalityI) (simp_all add: ring_unat [OF assms] ring_def [THEN iffD1, THEN conjunct1])
  then have "distinct (map unat (map vn_ID vs))" by (simp add: comp_def)
  then have "distinct (map vn_ID vs)" unfolding distinct_map [of unat] by blast
  then show "distinct (map vn_ID (filter (\<lambda>v. vn_Primary v = '''') vs))"
    by (simp add: distinct_map_filter)
  show "\<forall>x\<in>set (map vn_ID (filter (\<lambda>v. vn_Primary v = '''') vs)).
      unat x < length vs \<and> vn_Primary (vs ! unat x) = ''''"
  proof
    fix x assume "x \<in> set (map vn_ID (filter (\<lambda>v. vn_Primary v = '''') vs))"
    then obtain i where i: "i < length vs" "vn_Primary (vs ! i) = ''''" "x = vn_ID (vs ! i)"
      by (auto simp: in_set_conv_nth)
    with assms have "unat x = i" by (simp add: ring_unat ring_def [THEN iffD1, THEN conjunct1])
    with i show "unat x < length vs \<and> vn_Primary (vs ! unat x) = ''''" by simp
  qed
qed

text \<open>What revoking leaves: no node has more than its target.\<close>

lemma revoke_ring:
  assumes "revoke T (fold count_primary vs fmempty) vs = (vs', orph, cur)"
    and "\<forall>nid n. fmlookup T nid = Some n \<longrightarrow> 0 \<le> n"
  shows "list_all2 (\<lambda>v v'. v' = v \<or> v' = v\<lparr>vn_Primary := ''''\<rparr>) vs vs'"
    and "orph = map vn_ID (filter (\<lambda>v. vn_Primary v = '''') vs')"
    and "nid \<noteq> '''' \<Longrightarrow> get0 cur nid = int (occ nid vs')"
    and "nid \<noteq> '''' \<Longrightarrow> int (occ nid vs') = min (int (occ nid vs)) (get0 T nid)"
proof -
  have cur: "nid \<noteq> '''' \<Longrightarrow> get0 (fold count_primary vs fmempty) nid = int (occ nid vs)" for nid
    by (simp add: count_primaries go_simps)
  have T: "0 \<le> get0 T nid" for nid using assms(2) by (auto simp: get0_def split: option.splits)
  have low: "\<forall>nid. nid \<noteq> '''' \<longrightarrow> int (occ nid vs) \<le> get0 (fold count_primary vs fmempty) nid"
    using cur by simp
  note spec = revoke_spec [OF assms(1) low assms(2)]
  from spec show "list_all2 (\<lambda>v v'. v' = v \<or> v' = v\<lparr>vn_Primary := ''''\<rparr>) vs vs'"
    and "orph = map vn_ID (filter (\<lambda>v. vn_Primary v = '''') vs')" by blast+
  from spec cur [of nid] show "nid \<noteq> '''' \<Longrightarrow> get0 cur nid = int (occ nid vs')" by auto
  from spec cur [of nid] T [of nid] show "nid \<noteq> '''' \<Longrightarrow> int (occ nid vs') = min (int (occ nid vs)) (get0 T nid)"
    by (auto simp: strip_def)
qed

lemma revoke_partition:
  assumes r: "revoke T (fold count_primary vs fmempty) vs = (vs1, orph, cur)" and ring: "ring vs"
    and T: "\<forall>nid n. fmlookup T nid = Some n \<longrightarrow> 0 \<le> n" and D: "'''' \<notin> fset (fmdom T)"
  shows "int VNodeCount = int (length orph) + (\<Sum>nid\<in>fset (fmdom T). int (occ nid vs1))"
proof -
  note rev = revoke_ring [OF r T]
  have "ring vs1" by (rule list_all2_ring [OF ring rev(1)])
  have "\<forall>v\<in>set vs1. vn_Primary v = '''' \<or> vn_Primary v \<in> fset (fmdom T)"
  proof (intro ballI disjCI)
    fix v assume v: "v \<in> set vs1" "vn_Primary v \<notin> fset (fmdom T)"
    show "vn_Primary v = ''''"
    proof (rule ccontr)
      assume "vn_Primary v \<noteq> ''''"
      with rev(4) v(2) have "int (occ (vn_Primary v) vs1) \<le> 0" by (simp add: get0_absent)
      with occ_pos [OF v(1)] show False by simp
    qed
  qed
  from occ_partition [OF _ D this] have "VNodeCount = length orph + (\<Sum>nid\<in>fset (fmdom T). occ nid vs1)"
    using \<open>ring vs1\<close> by (simp add: rev(2) ring_def occ_def)
  then have "int VNodeCount = int (length orph + (\<Sum>nid\<in>fset (fmdom T). occ nid vs1))" by simp
  then show ?thesis by simp
qed

text \<open>The deficits are what each node still lacks, and they add up to the orphans exactly when the targets add up to the ring.\<close>

lemma deficits_balance:
  assumes r: "revoke T (fold count_primary vs fmempty) vs = (vs1, orph, cur)" and ring: "ring vs"
    and T: "\<forall>nid n. fmlookup T nid = Some n \<longrightarrow> 0 \<le> n" and D: "'''' \<notin> fset (fmdom T)"
  shows "nid \<noteq> '''' \<Longrightarrow> get0 (deficits_of T cur) nid = get0 T nid - int (occ nid vs1)"
    and "nid \<noteq> '''' \<Longrightarrow> 0 \<le> get0 (deficits_of T cur) nid"
    and "fm_sum (\<lambda>d. d) (deficits_of T cur) = fm_sum (\<lambda>n. n) T - int VNodeCount + int (length orph)"
proof -
  note rev = revoke_ring [OF r T]
  have cur0: "\<forall>nid. nid \<noteq> '''' \<longrightarrow> 0 \<le> get0 cur nid" using rev(3) by simp
  have mx: "max 0 (get0 T nid - get0 cur nid) = get0 T nid - int (occ nid vs1)" if "nid \<noteq> ''''" for nid
    using rev(3,4) [OF that] by simp
  show "nid \<noteq> '''' \<Longrightarrow> get0 (deficits_of T cur) nid = get0 T nid - int (occ nid vs1)"
    and "nid \<noteq> '''' \<Longrightarrow> 0 \<le> get0 (deficits_of T cur) nid"
    using get0_deficits [OF T, of cur nid] cur0 mx [of nid] by auto
  have "fm_sum (\<lambda>d. d) (deficits_of T cur) = (\<Sum>nid\<in>fset (fmdom T). max 0 (get0 T nid - get0 cur nid))"
    by (rule sum_deficits [OF T cur0 D])
  also have "\<dots> = (\<Sum>nid\<in>fset (fmdom T). get0 T nid - int (occ nid vs1))"
    by (rule sum.cong [OF refl mx]) (use D in auto)
  finally show "fm_sum (\<lambda>d. d) (deficits_of T cur) = fm_sum (\<lambda>n. n) T - int VNodeCount + int (length orph)"
    using revoke_partition [OF r ring T D] by (simp add: sum_subtractf fm_sum_get0)
qed

lemma AssignVNodes_spec:
  fixes hash T p
  assumes ring: "ring (ring_of p)" and T: "\<forall>nid n. fmlookup T nid = Some n \<longrightarrow> 0 \<le> n"
    and blank: "fmlookup T '''' = None"
  shows "fm_sum (\<lambda>n. n) T \<noteq> int VNodeCount \<Longrightarrow> AssignVNodes hash T p = Inl MismatchPanic"
    and "fm_sum (\<lambda>n. n) T = int VNodeCount \<Longrightarrow>
      \<exists>vs1 vs2. AssignVNodes hash T p = Inr (p\<lparr>pl_VNodes := vs2\<rparr>) \<and> length vs2 = VNodeCount
        \<and> list_all2 (\<lambda>v v'. v' = v \<or> v' = v\<lparr>vn_Primary := ''''\<rparr>) (ring_of p) vs1
        \<and> (\<forall>i<VNodeCount. (\<exists>b. vs2 ! i = (vs1 ! i)\<lparr>vn_Primary := b\<rparr>) \<and> (vn_Primary (vs1 ! i) \<noteq> '''' \<longrightarrow> vs2 ! i = vs1 ! i))
        \<and> (\<forall>nid. nid \<noteq> '''' \<longrightarrow> int (occ nid vs1) = min (int (occ nid (ring_of p))) (get0 T nid)
            \<and> int (occ nid vs2) = get0 T nid)"
proof -
  obtain vs1 orph cur where r: "revoke T (fold count_primary (ring_of p) fmempty) (ring_of p) = (vs1, orph, cur)"
    by (cases "revoke T (fold count_primary (ring_of p) fmempty) (ring_of p)")
  define def where "def = deficits_of T cur"
  have D: "'''' \<notin> fset (fmdom T)" using blank by (auto simp: fmlookup_dom_iff)
  note rev = revoke_ring [OF r T] and bal = deficits_balance [OF r ring T D, folded def_def]
  let ?ids = "sorted_list_of_fset (fmdom def)"
  have run: "AssignVNodes hash T p = (if int (length orph) \<noteq> fm_sum (\<lambda>d. d) def then Inl MismatchPanic
      else map_sum id (\<lambda>vs'. p\<lparr>pl_VNodes := vs'\<rparr>) (assign_orphans hash ?ids orph def vs1))"
    using r by (simp add: AssignVNodes_def ring_of_def def_def Let_def)
  then show "fm_sum (\<lambda>n. n) T \<noteq> int VNodeCount \<Longrightarrow> AssignVNodes hash T p = Inl MismatchPanic"
    using bal(3) by simp
  assume full: "fm_sum (\<lambda>n. n) T = int VNodeCount"
  have "nid \<noteq> ''''" if "nid \<in> set ?ids" for nid
    using that dom_deficits [of nid T cur] D by (auto simp: sorted_range.range_set def_def)
  then have ids: "distinct ?ids" "'''' \<notin> set ?ids" "\<forall>nid\<in>set ?ids. 0 \<le> get0 def nid"
    using bal(2) by (auto simp: sorted_range.range_distinct)
  have sum: "(\<Sum>nid\<in>set ?ids. get0 def nid) = int (length orph)"
    using bal(3) full by (simp add: fm_sum_get0 sorted_range.range_set)
  have ring1: "ring vs1" by (rule list_all2_ring [OF ring rev(1)])
  have orph: "distinct orph" "\<forall>x\<in>set orph. unat x < length vs1 \<and> vn_Primary (vs1 ! unat x) = ''''"
    using orphan_ids [OF ring1] by (simp_all add: rev(2))
  from assign_orphans_ok [OF ids sum orph, of hash] obtain vs2 where
    vs2: "assign_orphans hash ?ids orph def vs1 = Inr vs2" "length vs2 = length vs1"
      "\<forall>i<length vs1. (\<exists>b. vs2 ! i = (vs1 ! i)\<lparr>vn_Primary := b\<rparr>) \<and> (vn_Primary (vs1 ! i) \<noteq> '''' \<longrightarrow> vs2 ! i = vs1 ! i)"
      "\<forall>nid. nid \<noteq> '''' \<longrightarrow> int (occ nid vs2) = int (occ nid vs1) + (if nid \<in> set ?ids then get0 def nid else 0)"
    by blast
  have "int (occ nid vs2) = get0 T nid" if "nid \<noteq> ''''" for nid
    using vs2(4) that bal(1) [OF that] get0_absent [of nid def]
    by (auto simp: sorted_range.range_set split: if_splits)
  with vs2 run bal(3) full ring1 rev(1,4)
  show "\<exists>vs1 vs2. AssignVNodes hash T p = Inr (p\<lparr>pl_VNodes := vs2\<rparr>) \<and> length vs2 = VNodeCount
        \<and> list_all2 (\<lambda>v v'. v' = v \<or> v' = v\<lparr>vn_Primary := ''''\<rparr>) (ring_of p) vs1
        \<and> (\<forall>i<VNodeCount. (\<exists>b. vs2 ! i = (vs1 ! i)\<lparr>vn_Primary := b\<rparr>) \<and> (vn_Primary (vs1 ! i) \<noteq> '''' \<longrightarrow> vs2 ! i = vs1 ! i))
        \<and> (\<forall>nid. nid \<noteq> '''' \<longrightarrow> int (occ nid vs1) = min (int (occ nid (ring_of p))) (get0 T nid)
            \<and> int (occ nid vs2) = get0 T nid)"
    by (intro exI [of _ vs1] exI [of _ vs2]) (auto simp: ring_def)
qed

section \<open>Properties\<close>

text \<open>
  C21. Assignment gives every node its target. On a ring of 1024 vnodes (or none yet), with targets that
  are not negative and name no empty node id, \<^verbatim>\<open>AssignVNodes\<close> panics exactly when the targets do not
  add up to 1024. Otherwise every node owns exactly its target number of vnodes, ids, tokens and replicas
  are untouched, and no assignment could move fewer vnodes: each node keeps as many of its old vnodes as
  its target allows.
\<close>

theorem AssignVNodes_meets_targets:
  assumes "ring (ring_of p)" "\<forall>nid n. fmlookup nodeCounts nid = Some n \<longrightarrow> 0 \<le> n"
    and "fmlookup nodeCounts '''' = None"
  shows "if fm_sum (\<lambda>n. n) nodeCounts \<noteq> int VNodeCount
    then AssignVNodes hash nodeCounts p = Inl MismatchPanic
    else \<exists>vs. AssignVNodes hash nodeCounts p = Inr (p\<lparr>pl_VNodes := vs\<rparr>) \<and> length vs = VNodeCount
      \<and> (\<forall>i<VNodeCount. \<exists>b. vs ! i = (ring_of p ! i)\<lparr>vn_Primary := b\<rparr>)
      \<and> (\<forall>nid. nid \<noteq> '''' \<longrightarrow> int (occ nid vs) = get0 nodeCounts nid
          \<and> int (card {i. i < VNodeCount \<and> vn_Primary (ring_of p ! i) = nid \<and> vn_Primary (vs ! i) = nid})
              = min (int (occ nid (ring_of p))) (get0 nodeCounts nid))"
proof (cases "fm_sum (\<lambda>n. n) nodeCounts = int VNodeCount")
  case True
  from AssignVNodes_spec(2) [OF assms True, of hash] obtain vs1 vs where
    run: "AssignVNodes hash nodeCounts p = Inr (p\<lparr>pl_VNodes := vs\<rparr>)" "length vs = VNodeCount"
    and l2: "list_all2 (\<lambda>v v'. v' = v \<or> v' = v\<lparr>vn_Primary := ''''\<rparr>) (ring_of p) vs1"
    and vs: "\<forall>i<VNodeCount. (\<exists>b. vs ! i = (vs1 ! i)\<lparr>vn_Primary := b\<rparr>) \<and> (vn_Primary (vs1 ! i) \<noteq> '''' \<longrightarrow> vs ! i = vs1 ! i)"
    and occs: "\<forall>nid. nid \<noteq> '''' \<longrightarrow> int (occ nid vs1) = min (int (occ nid (ring_of p))) (get0 nodeCounts nid)
        \<and> int (occ nid vs) = get0 nodeCounts nid" by blast
  have l: "length (ring_of p) = VNodeCount" using assms(1) by (simp add: ring_def)
  have v1: "length vs1 = VNodeCount" "vs1 ! i = ring_of p ! i \<or> vs1 ! i = (ring_of p ! i)\<lparr>vn_Primary := ''''\<rparr>"
    if "i < VNodeCount" for i using l2 l that by (auto simp: list_all2_conv_all_nth)
  have shape: "\<forall>i<VNodeCount. \<exists>b. vs ! i = (ring_of p ! i)\<lparr>vn_Primary := b\<rparr>"
    using vs v1(2) by fastforce
  have "int (card {i. i < VNodeCount \<and> vn_Primary (ring_of p ! i) = nid \<and> vn_Primary (vs ! i) = nid})
      = min (int (occ nid (ring_of p))) (get0 nodeCounts nid)" (is "int (card ?K) = _") if nid: "nid \<noteq> ''''" for nid
  proof -
    have "card ?K \<le> occ nid (ring_of p)" "card ?K \<le> occ nid vs"
      by (auto simp: occ_card l run(2) intro!: card_mono)
    moreover have "occ nid vs1 \<le> card ?K"
      unfolding occ_card using v1 vs nid by (intro card_mono) (auto simp: VNodeCount_def, fastforce+)
    ultimately show ?thesis using occs nid by auto
  qed
  with True run shape occs show ?thesis by (simp add: exI [of _ vs])
qed (use AssignVNodes_spec(1) [OF assms] in simp)

definition demo_counts :: "(string, int) fmap" where
  "demo_counts = fmupd ''a'' 600 (fmupd ''b'' 424 fmempty)"

definition empty_placement :: Placement where
  "empty_placement = \<lparr>pl_Epoch = 0, pl_Nodes = [], pl_VNodes = []\<rparr>"

theorem AssignVNodes_meets_targets_witness:
  "\<exists>vs. AssignVNodes (\<lambda>_. 0) demo_counts empty_placement = Inr (empty_placement\<lparr>pl_VNodes := vs\<rparr>)
     \<and> occ ''a'' vs = 600 \<and> occ ''b'' vs = 424"
proof -
  have ring: "ring (ring_of empty_placement)"
    by (simp add: ring_of_def empty_placement_def ring_Initialize)
  have counts: "\<forall>nid n. fmlookup demo_counts nid = Some n \<longrightarrow> 0 \<le> n" "fmlookup demo_counts '''' = None"
    by (auto simp: demo_counts_def split: if_splits)
  have sum: "fm_sum (\<lambda>n. n) demo_counts = int VNodeCount"
    by (simp add: demo_counts_def go_simps VNodeCount_def)
  from AssignVNodes_meets_targets [OF ring counts, of "\<lambda>_. 0"] sum obtain vs where
    "AssignVNodes (\<lambda>_. 0) demo_counts empty_placement = Inr (empty_placement\<lparr>pl_VNodes := vs\<rparr>)"
    and occs: "\<forall>nid. nid \<noteq> '''' \<longrightarrow> int (occ nid vs) = get0 demo_counts nid" by auto
  moreover have "occ ''a'' vs = 600" "occ ''b'' vs = 424"
    using occs [rule_format, of "''a''"] occs [rule_format, of "''b''"]
    by (simp_all add: demo_counts_def get0_def)
  ultimately show ?thesis by blast
qed

lemma bucket_div:
  assumes "1 \<le> i" "i \<le> b"
  shows "i * (b - 1) div b = i - (1 :: nat)"
proof -
  obtain j k where jk: "i = Suc j" "b = Suc j + k"
    using assms by (metis Suc_le_D One_nat_def le_Suc_ex)
  then have "i * (b - 1) = (i - 1) * b + k" "k < b" by (simp_all add: algebra_simps)
  then show ?thesis by simp
qed



end
