(* ===== verification/Score.thy ===== *)
theory Score
  imports Placement
begin

text \<open>
  \<^verbatim>\<open>src/cluster/score.go\<close>: the cost of a node from its reported metrics. A low score is a good
  node. All metrics come from other nodes, so nothing is assumed about them.
\<close>

section \<open>Definitions\<close>

record NodeMetrics =
  nm_NodeID :: string
  nm_AvgRTT :: f64
  nm_CPUCores :: int
  nm_MemGB :: int
  nm_BandwidthMbps :: int
  nm_DiskGB :: int
  nm_CPUUsage :: f64
  nm_MemUsage :: f64
  nm_NetUsage :: f64
  nm_DiskUsage :: f64

definition WeightRTT :: f64 where "WeightRTT = fl (31 / 100)"
definition WeightCPU :: f64 where "WeightCPU = fl (15 / 100)"
definition WeightMEM :: f64 where "WeightMEM = fl (16 / 100)"
definition WeightNET :: f64 where "WeightNET = fl (24 / 100)"
definition WeightDisk :: f64 where "WeightDisk = fl (14 / 100)"

definition maxInt :: "int \<Rightarrow> int \<Rightarrow> int" where
  "maxInt v fallback = (if 0 < v then v else fallback)"

definition clampMetric :: "f64 \<Rightarrow> f64" where
  "clampMetric v =
     (if IsNaN v \<or> IsInf v then Fin 0
      else if flt v (Fin 0) then Fin 0
      else if flt (Fin 1) v then Fin 1
      else v)"

text \<open>The guard that replaces a value that is not a positive number.\<close>

definition positive_or :: "f64 \<Rightarrow> f64 \<Rightarrow> f64" where
  "positive_or d v = (if fle v (Fin 0) \<or> IsNaN v \<or> IsInf v then d else v)"

definition capacity :: "int \<Rightarrow> f64" where
  "capacity n = of_go_int (maxInt n 1)"

definition total_of :: "(NodeMetrics \<Rightarrow> f64) \<Rightarrow> NodeMetrics list \<Rightarrow> f64" where
  "total_of f metrics = fold (\<lambda>m tot. fadd tot (f m)) metrics (Fin 0)"

definition cluster_avg :: "(NodeMetrics \<Rightarrow> f64) \<Rightarrow> NodeMetrics list \<Rightarrow> f64" where
  "cluster_avg f metrics = positive_or (Fin 1) (fdiv (total_of f metrics) (of_go_int (int (length metrics))))"

definition relative :: "int \<Rightarrow> f64 \<Rightarrow> f64" where
  "relative n avg = positive_or (Fin 1) (fdiv (capacity n) avg)"

text \<open>\<^verbatim>\<open>math.Min\<close>.\<close>

definition Min64 :: "f64 \<Rightarrow> f64 \<Rightarrow> f64" where
  "Min64 x y = (if x = Inf True \<or> y = Inf True then Inf True else if IsNaN x \<or> IsNaN y then NaN
     else if flt x y then x else y)"

definition disk_penalty :: "f64 \<Rightarrow> f64" where
  "disk_penalty diskUsage = fdiv (Fin 1) (fsub (fl (101 / 100)) (Min64 diskUsage (fl (99 / 100))))"

definition node_score :: "f64 \<Rightarrow> f64 \<Rightarrow> f64 \<Rightarrow> f64 \<Rightarrow> f64 \<Rightarrow> NodeMetrics \<Rightarrow> f64" where
  "node_score avgRTT avgCPU avgMem avgNet avgDisk m =
     (let rtt = positive_or avgRTT (nm_AvgRTT m);
          cpuUsage = clampMetric (nm_CPUUsage m);
          memUsage = clampMetric (nm_MemUsage m);
          netUsage = clampMetric (nm_NetUsage m);
          diskUsage = clampMetric (nm_DiskUsage m);
          rsCPU = relative (nm_CPUCores m) avgCPU;
          rsMEM = relative (nm_MemGB m) avgMem;
          rsNET = relative (nm_BandwidthMbps m) avgNet;
          rsDisk = relative (nm_DiskGB m) avgDisk
      in fadd (fadd (fadd (fadd
           (fmul WeightRTT (fdiv rtt (fadd avgRTT f64_nano)))
           (fmul WeightCPU (fdiv cpuUsage rsCPU)))
           (fmul WeightMEM (fdiv memUsage rsMEM)))
           (fmul WeightNET (fdiv netUsage rsNET)))
           (fmul WeightDisk (fdiv (disk_penalty diskUsage) rsDisk)))"

definition CalculateScores :: "NodeMetrics list \<Rightarrow> NodeInfo list" where
  "CalculateScores metrics =
     (if metrics = [] then []
      else (let clusterAvgRTT = cluster_avg (\<lambda>m. positive_or (Fin 1) (nm_AvgRTT m)) metrics;
                avgCPUCap = cluster_avg (\<lambda>m. capacity (nm_CPUCores m)) metrics;
                avgMemCap = cluster_avg (\<lambda>m. capacity (nm_MemGB m)) metrics;
                avgNetCap = cluster_avg (\<lambda>m. capacity (nm_BandwidthMbps m)) metrics;
                avgDiskCap = cluster_avg (\<lambda>m. capacity (nm_DiskGB m)) metrics
            in map (\<lambda>m. \<lparr>ni_ID = nm_NodeID m,
                 ni_Score = node_score clusterAvgRTT avgCPUCap avgMemCap avgNetCap avgDiskCap m\<rparr>) metrics))"

section \<open>Signs\<close>

text \<open>A non-negative value, infinity included, and a positive finite one.\<close>

primrec nneg :: "f64 \<Rightarrow> bool" where
  "nneg NaN = False"
| "nneg (Inf s) = (\<not> s)"
| "nneg (Fin x) = (0 \<le> x)"

primrec pos :: "f64 \<Rightarrow> bool" where
  "pos NaN = False"
| "pos (Inf s) = False"
| "pos (Fin x) = (0 < x)"

lemma pos_positive_or: "pos d \<Longrightarrow> pos (positive_or d v)"
  by (cases v) (simp_all add: positive_or_def)

lemma nneg_fl: "0 \<le> x \<Longrightarrow> nneg (fl x)"
  by (rule fl_value) (auto split: if_splits)

lemma pos_nneg: "pos v \<Longrightarrow> nneg v"
  by (cases v) simp_all

lemma nneg_fadd: "nneg a \<Longrightarrow> nneg b \<Longrightarrow> nneg (fadd a b)"
  by (cases a; cases b) (simp_all add: nneg_fl)

lemma nneg_fmul: "pos a \<Longrightarrow> nneg b \<Longrightarrow> nneg (fmul a b)"
  by (cases a; cases b) (simp_all add: nneg_fl)

lemma nneg_fdiv: "nneg a \<Longrightarrow> pos b \<Longrightarrow> nneg (fdiv a b)"
  by (cases a; cases b) (simp_all add: nneg_fl)

lemma clampMetric_unit: "\<exists>x. clampMetric v = Fin x \<and> 0 \<le> x \<and> x \<le> 1"
  by (cases v) (auto simp: clampMetric_def)

lemma fl_apart:
  assumes "1 / 2 ^ 40 \<le> x"
  shows "fl x = Inf False \<or> pos (fl x)"
proof -
  have x: "0 \<le> x" by (rule order_trans [OF _ assms]) simp
  obtain y where y: "\<bar>y - x\<bar> \<le> x * f64_eps + f64_tiny" "fl x = (if y \<ge> f64_limit then Inf False else Fin y)"
    by (rule fl_value [OF x])
  have "x * f64_eps \<le> x * (1 / 4)" using x f64_consts(2) by (intro mult_left_mono) auto
  moreover have "(1 :: rat) / 2 ^ 60 < 1 / 2 ^ 42" by simp
  moreover have "(1 :: rat) / 2 ^ 40 = 4 * (1 / 2 ^ 42)" by simp
  ultimately have "0 < y" using y(1) f64_bounds(2) assms by linarith
  with y(2) show ?thesis by simp
qed

lemma pos_fl:
  assumes "1 / 2 ^ 40 \<le> x" "x \<le> 2 ^ 60"
  shows "pos (fl x)"
proof -
  have "2 * x \<le> f64_limit" by (rule order_trans [OF _ f64_bounds(6)]) (use assms(2) in simp)
  moreover have x: "0 \<le> x" by (rule order_trans [OF _ assms(1)]) simp
  ultimately obtain y where "fl x = Fin y" using fl_err [of x] by blast
  with fl_apart [OF assms(1)] show ?thesis by simp
qed

lemma Weight_pos: "pos WeightRTT" "pos WeightCPU" "pos WeightMEM" "pos WeightNET" "pos WeightDisk"
  by (simp_all add: WeightRTT_def WeightCPU_def WeightMEM_def WeightNET_def WeightDisk_def pos_fl)

text \<open>The average time plus \<^verbatim>\<open>eps\<close> is never zero.\<close>

lemma nneg_rtt_ratio:
  assumes "pos r" "pos a"
  shows "nneg (fdiv r (fadd a f64_nano))"
proof -
  obtain e where e: "f64_nano = Fin e" "1 / 2 ^ 30 \<le> e" by (rule f64_nano_Fin)
  from assms obtain x y where xy: "r = Fin x" "0 < x" "a = Fin y" "0 < y" by (cases r; cases a) auto
  have "(1 :: rat) / 2 ^ 40 \<le> 1 / 2 ^ 30" by simp
  then have "1 / 2 ^ 40 \<le> y + e" using e(2) xy(4) by linarith
  from fl_apart [OF this] show ?thesis
    using xy nneg_fdiv [of "Fin x" "fl (y + e)"] unfolding e(1) by auto
qed

lemma nneg_disk_penalty: "nneg (disk_penalty (clampMetric v))"
proof -
  obtain x where x: "clampMetric v = Fin x" "0 \<le> x" "x \<le> 1" using clampMetric_unit by blast
  obtain a where a: "fl (101 / 100) = Fin a" "\<bar>a - 101 / 100\<bar> \<le> 101 / 100 * f64_eps + f64_tiny"
    by (rule fl_err [of "101 / 100"]) (use f64_consts(5) in auto)
  obtain b where b: "fl (99 / 100) = Fin b" "\<bar>b - 99 / 100\<bar> \<le> 99 / 100 * f64_eps + f64_tiny"
    by (rule fl_err [of "99 / 100"]) (use f64_consts(5) in auto)
  have s: "101 / 100 * f64_eps + f64_tiny \<le> 1 / 1000" "99 / 100 * f64_eps + f64_tiny \<le> 1 / 1000"
    using f64_bounds(1,2) by simp_all
  define m where "m = (if x < b then x else b)"
  have m: "Min64 (clampMetric v) (fl (99 / 100)) = Fin m" using x b by (simp add: Min64_def m_def)
  have "m \<le> b" "0 \<le> m" using x b(2) s by (auto simp: m_def)
  then have "pos (fl (a - m))" using a(2) b(2) s by (intro pos_fl) auto
  with m a(1) nneg_fdiv [of "Fin 1"] show ?thesis by (simp add: disk_penalty_def fsub_def fneg_def)
qed

lemma nneg_node_score:
  assumes "pos avgRTT"
  shows "nneg (node_score avgRTT avgCPU avgMem avgNet avgDisk m)"
proof -
  have rs: "pos (relative n avg)" for n avg by (simp add: relative_def pos_positive_or)
  have usage: "nneg (clampMetric v)" for v using clampMetric_unit [of v] by auto
  show ?thesis unfolding node_score_def Let_def
    by (intro nneg_fadd nneg_fmul nneg_fdiv nneg_rtt_ratio nneg_disk_penalty Weight_pos rs usage pos_positive_or assms)
qed

lemma CalculateScores_IDs [simp]: "map ni_ID (CalculateScores metrics) = map nm_NodeID metrics"
  by (simp add: CalculateScores_def Let_def)

lemma length_CalculateScores [simp]: "length (CalculateScores metrics) = length metrics"
  by (simp add: CalculateScores_def Let_def)

lemma CalculateScores_Nil [simp]: "CalculateScores metrics = [] \<longleftrightarrow> metrics = []"
  by (simp add: CalculateScores_def Let_def)

section \<open>Properties\<close>

text \<open>
  Whatever the nodes report (negative or absent capacities, usages out of range, infinite or
  undefined floating point numbers), every node gets one score, in the order of the metrics, and no
  score is negative or undefined: a faulty report cannot make a node look better than free.
\<close>

theorem CalculateScores_total:
  "map ni_ID (CalculateScores metrics) = map nm_NodeID metrics
   \<and> list_all (\<lambda>n. nneg (ni_Score n)) (CalculateScores metrics)"
proof -
  have "pos (cluster_avg f metrics)" for f by (simp add: cluster_avg_def pos_positive_or)
  then show ?thesis by (simp add: CalculateScores_def Let_def list_all_iff nneg_node_score)
qed

end
