(* ===== verification/Replicas.thy ===== *)
theory Replicas
  imports Score
begin

text \<open>
  \<^verbatim>\<open>AssignReplicas\<close> of \<^verbatim>\<open>src/cluster/placement.go\<close>: the replicas of every vnode, by round trip time,
  free bandwidth and a jitter from the hash of vnode and node. The jitter needs the hash function
  (xxhash), which is a parameter.
\<close>

section \<open>Definitions\<close>

record candidate =
  ca_id :: string
  ca_score :: f64

type_synonym rtt_matrix = "(string, (string, f64) fmap) fmap"

definition stats_map :: "NodeMetrics list \<Rightarrow> (string, NodeMetrics) fmap" where
  "stats_map metrics = fold (\<lambda>m s. fmupd (nm_NodeID m) m s) metrics fmempty"

definition link_rtt :: "rtt_matrix \<Rightarrow> string \<Rightarrow> string \<Rightarrow> f64" where
  "link_rtt rttMatrix primaryID nid =
     (case fmlookup rttMatrix primaryID of
        None \<Rightarrow> Fin 1000
      | Some row \<Rightarrow>
          (case fmlookup row nid of
             None \<Rightarrow> Fin 1000
           | Some val \<Rightarrow> if flt (Fin 0) val then val else Fin 1000))"

definition suitability :: "(string \<Rightarrow> u64) \<Rightarrow> rtt_matrix \<Rightarrow> string \<Rightarrow> u16 \<Rightarrow> string \<Rightarrow> NodeMetrics \<Rightarrow> f64" where
  "suitability hash rttMatrix primaryID vid nid m =
     (let rtt = link_rtt rttMatrix primaryID nid;
          bwPenalty = fdiv (Fin 1) (fsub (fl (101 / 100)) (nm_NetUsage m));
          capFactor = fdiv (Fin 1) (fadd (of_go_int (nm_BandwidthMbps m)) f64_nano);
          baseSuitability = fmul (fmul rtt bwPenalty) capFactor;
          hashVal = hash (dec (unat vid) @ '':'' @ nid);
          jitterModifier = fadd (Fin 1) (fdiv (of_go_int (uint (hashVal mod 1000))) (Fin 10000))
      in fmul baseSuitability jitterModifier)"

definition candidates_of ::
  "(string \<Rightarrow> u64) \<Rightarrow> (string, NodeMetrics) fmap \<Rightarrow> rtt_matrix \<Rightarrow> NodeInfo list \<Rightarrow> VNode \<Rightarrow> candidate list" where
  "candidates_of hash statsMap rttMatrix nodes v =
     List.map_filter (\<lambda>node.
       if ni_ID node = vn_Primary v then None
       else (case fmlookup statsMap (ni_ID node) of
               None \<Rightarrow> None
             | Some m \<Rightarrow> Some \<lparr>ca_id = ni_ID node,
                 ca_score = suitability hash rttMatrix (vn_Primary v) (vn_ID v) (ni_ID node) m\<rparr>)) nodes"

definition cand_less :: "candidate \<Rightarrow> candidate \<Rightarrow> bool" where
  "cand_less a b = (if feq (ca_score a) (ca_score b) then ca_id a < ca_id b else flt (ca_score a) (ca_score b))"

definition assign_replicas_to ::
  "(string \<Rightarrow> u64) \<Rightarrow> (string, NodeMetrics) fmap \<Rightarrow> rtt_matrix \<Rightarrow> NodeInfo list \<Rightarrow> int \<Rightarrow> VNode \<Rightarrow> VNode" where
  "assign_replicas_to hash statsMap rttMatrix nodes rf v =
     (if vn_Primary v = '''' then v
      else v\<lparr>vn_Replicas := map ca_id (take (nat (rf - 1))
             (sort_by cand_less (candidates_of hash statsMap rttMatrix nodes v)))\<rparr>)"

definition AssignReplicas ::
  "(string \<Rightarrow> u64) \<Rightarrow> NodeMetrics list \<Rightarrow> rtt_matrix \<Rightarrow> int \<Rightarrow> Placement \<Rightarrow> Placement" where
  "AssignReplicas hash metrics rttMatrix rf p =
     (if rf \<le> 1 then p\<lparr>pl_VNodes := map (\<lambda>v. v\<lparr>vn_Replicas := []\<rparr>) (pl_VNodes p)\<rparr>
      else p\<lparr>pl_VNodes := map (assign_replicas_to hash (stats_map metrics) rttMatrix (pl_Nodes p) rf) (pl_VNodes p)\<rparr>)"

section \<open>The candidates\<close>

interpretation cand_order: sort_order cand_less "{c :: candidate. ca_score c \<noteq> NaN}" ca_id
proof
  fix a b c :: candidate
  assume "a \<in> {a. ca_score a \<noteq> NaN}" "b \<in> {a. ca_score a \<noteq> NaN}" "c \<in> {a. ca_score a \<noteq> NaN}"
  then show "cand_less a b \<Longrightarrow> cand_less b c \<Longrightarrow> cand_less a c"
    by (cases "ca_score a"; cases "ca_score b"; cases "ca_score c") (auto simp: cand_less_def feq_def split: if_splits)
next
  fix a b :: candidate
  assume "a \<in> {a. ca_score a \<noteq> NaN}" "b \<in> {a. ca_score a \<noteq> NaN}" "ca_id a \<noteq> ca_id b"
  then show "cand_less a b \<or> cand_less b a"
    by (cases "ca_score a"; cases "ca_score b") (auto simp: cand_less_def feq_def)
qed (auto simp: cand_less_def feq_def)

lemma stats_map_dom: "fmlookup (stats_map metrics) nid = None \<longleftrightarrow> nid \<notin> nm_NodeID ` set metrics"
proof -
  have "fmlookup (fold (\<lambda>m s. fmupd (nm_NodeID m) m s) metrics s) nid = None
      \<longleftrightarrow> nid \<notin> nm_NodeID ` set metrics \<and> fmlookup s nid = None" for s
    by (induction metrics arbitrary: s) auto
  then show ?thesis by (simp add: stats_map_def)
qed

lemma candidates_ids:
  "map ca_id (candidates_of hash (stats_map metrics) rttMatrix nodes v) =
     filter (\<lambda>nid. nid \<noteq> vn_Primary v \<and> nid \<in> nm_NodeID ` set metrics) (map ni_ID nodes)"
  by (induction nodes)
    (simp_all add: candidates_of_def map_filter_simps stats_map_dom [symmetric] split: option.splits)

lemma candidates_score:
  "c \<in> set (candidates_of hash S rttMatrix nodes v) \<Longrightarrow>
    ca_score c = suitability hash rttMatrix (vn_Primary v) (vn_ID v) (ca_id c) (the (fmlookup S (ca_id c)))"
  by (induction nodes) (auto simp: candidates_of_def map_filter_simps split: option.splits if_splits)

text \<open>The replicas of a vnode are never its owner and all different.\<close>

definition replicas_ok :: "string set \<Rightarrow> int \<Rightarrow> VNode \<Rightarrow> bool" where
  "replicas_ok ids rf v \<longleftrightarrow> vn_Primary v \<in> ids \<and> vn_Primary v \<notin> set (vn_Replicas v) \<and> distinct (vn_Replicas v)
     \<and> set (vn_Replicas v) \<subseteq> ids \<and> int (length (vn_Replicas v)) \<le> max 0 (rf - 1)"

lemma assign_replicas_to_ok:
  assumes "distinct (map ni_ID nodes)" "vn_Primary v \<noteq> ''''" "vn_Primary v \<in> ni_ID ` set nodes"
  shows "replicas_ok (ni_ID ` set nodes) rf (assign_replicas_to hash (stats_map metrics) rttMatrix nodes rf v)"
proof -
  define cs where "cs = candidates_of hash (stats_map metrics) rttMatrix nodes v"
  define reps where "reps = map ca_id (take (nat (rf - 1)) (sort_by cand_less cs))"
  note ids = candidates_ids [of hash metrics rttMatrix nodes v, folded cs_def]
  have "distinct (map ca_id (sort_by cand_less cs))" using assms(1) by (simp add: ids)
  then have "distinct reps" by (simp add: reps_def take_map [symmetric])
  moreover have "set reps \<subseteq> set (map ca_id cs)"
    unfolding reps_def set_map by (rule image_mono) (metis set_sort_by set_take_subset)
  then have "set reps \<subseteq> ni_ID ` set nodes - {vn_Primary v}" unfolding ids by auto
  moreover have "int (length reps) \<le> max 0 (rf - 1)" by (auto simp: reps_def)
  moreover have "assign_replicas_to hash (stats_map metrics) rttMatrix nodes rf v = v\<lparr>vn_Replicas := reps\<rparr>"
    using assms(2) by (simp add: assign_replicas_to_def reps_def cs_def)
  ultimately show ?thesis using assms(3) by (auto simp: replicas_ok_def)
qed

lemma AssignReplicas_ok:
  assumes "distinct (map ni_ID (pl_Nodes p))" "ring (pl_VNodes p)" "'''' \<notin> ni_ID ` set (pl_Nodes p)"
    and "\<forall>v\<in>set (pl_VNodes p). vn_Primary v \<in> ni_ID ` set (pl_Nodes p)"
  shows "\<exists>vs. AssignReplicas hash metrics rttMatrix rf p = p\<lparr>pl_VNodes := vs\<rparr> \<and> ring vs
    \<and> (\<forall>v\<in>set vs. replicas_ok (ni_ID ` set (pl_Nodes p)) rf v)"
proof (cases "rf \<le> 1")
  case True
  with assms show ?thesis
    by (intro exI [of _ "map (\<lambda>v. v\<lparr>vn_Replicas := []\<rparr>) (pl_VNodes p)"])
      (auto simp: AssignReplicas_def ring_def replicas_ok_def)
next
  case False
  let ?f = "assign_replicas_to hash (stats_map metrics) rttMatrix (pl_Nodes p) rf"
  have "vn_ID (?f v) = vn_ID v" for v by (simp add: assign_replicas_to_def)
  then have "ring (map ?f (pl_VNodes p))" using assms(2) by (simp add: ring_def)
  moreover have "replicas_ok (ni_ID ` set (pl_Nodes p)) rf (?f v)" if "v \<in> set (pl_VNodes p)" for v
    using that assms(3,4) by (intro assign_replicas_to_ok [OF assms(1)]) (metis, blast)
  ultimately show ?thesis using False
    by (intro exI [of _ "map ?f (pl_VNodes p)"]) (auto simp: AssignReplicas_def)
qed

section \<open>Properties\<close>

text \<open>The nodes a vnode may be replicated to, and the cost of one of them.\<close>

definition eligible :: "NodeMetrics list \<Rightarrow> Placement \<Rightarrow> VNode \<Rightarrow> string set" where
  "eligible metrics p v = {nid \<in> ni_ID ` set (pl_Nodes p). nid \<noteq> vn_Primary v \<and> nid \<in> nm_NodeID ` set metrics}"

definition cost :: "(string \<Rightarrow> u64) \<Rightarrow> NodeMetrics list \<Rightarrow> rtt_matrix \<Rightarrow> VNode \<Rightarrow> string \<Rightarrow> f64" where
  "cost hash metrics rttMatrix v nid =
     suitability hash rttMatrix (vn_Primary v) (vn_ID v) nid (the (fmlookup (stats_map metrics) nid))"

lemma take_cheapest:
  fixes cs :: "candidate list"
  assumes "distinct (map ca_id cs)" "\<forall>c\<in>set cs. ca_score c \<noteq> NaN"
    and "x \<in> set (take k (sort_by cand_less cs))" "y \<in> set cs" "y \<notin> set (take k (sort_by cand_less cs))"
  shows "\<not> flt (ca_score y) (ca_score x)"
proof -
  have "cand_less x y" using cand_order.take_sort_by [OF _ assms(1,3-5)] assms(2) by auto
  then show ?thesis
    by (cases "ca_score x"; cases "ca_score y") (auto simp: cand_less_def feq_def split: if_splits)
qed

text \<open>
  C22. The replicas \<^verbatim>\<open>AssignReplicas\<close> gives a vnode with an owner, for a replication factor of two or
  more: at most \<^verbatim>\<open>rf - 1\<close> different nodes, as many as there are other nodes with metrics; the
  owner is not among them; and no node left out has a lower cost than a chosen one, if the costs are
  numbers. Nothing else of the vnode changes.
\<close>

theorem AssignReplicas_best:
  assumes "1 < rf" "distinct (map ni_ID (pl_Nodes p))" "i < length (pl_VNodes p)"
    and "v = pl_VNodes p ! i" "vn_Primary v \<noteq> ''''"
  shows "\<exists>reps. pl_VNodes (AssignReplicas hash metrics rttMatrix rf p) ! i = v\<lparr>vn_Replicas := reps\<rparr>
    \<and> distinct reps \<and> set reps \<subseteq> eligible metrics p v \<and> length reps = min (nat (rf - 1)) (card (eligible metrics p v))
    \<and> ((\<forall>nid\<in>eligible metrics p v. cost hash metrics rttMatrix v nid \<noteq> NaN) \<longrightarrow>
        (\<forall>a\<in>set reps. \<forall>b\<in>eligible metrics p v - set reps.
           \<not> flt (cost hash metrics rttMatrix v b) (cost hash metrics rttMatrix v a)))"
proof -
  define cs where "cs = candidates_of hash (stats_map metrics) rttMatrix (pl_Nodes p) v"
  define chosen where "chosen = take (nat (rf - 1)) (sort_by cand_less cs)"
  let ?E = "eligible metrics p v" and ?c = "cost hash metrics rttMatrix v"
  note cids = candidates_ids [of hash metrics rttMatrix "pl_Nodes p" v, folded cs_def]
  have ids: "distinct (map ca_id cs)" "ca_id ` set cs = ?E"
    unfolding set_map [symmetric] cids using assms(2) by (auto simp: eligible_def)
  have cost: "ca_score c = ?c (ca_id c)" if "c \<in> set cs" for c
    using candidates_score that by (simp add: cs_def cost_def)
  have sub: "set chosen \<subseteq> set cs" using set_take_subset [of "nat (rf - 1)" "sort_by cand_less cs"]
    by (simp add: chosen_def)
  have "card ?E = length cs" using ids distinct_card by (metis length_map set_map)
  then have len: "length (map ca_id chosen) = min (nat (rf - 1)) (card ?E)" by (simp add: chosen_def)
  have dist: "distinct (map ca_id chosen)"
    using ids(1) by (simp add: chosen_def take_map [symmetric])
  have run: "pl_VNodes (AssignReplicas hash metrics rttMatrix rf p) ! i = v\<lparr>vn_Replicas := map ca_id chosen\<rparr>"
    using assms(1,3,5) by (simp add: AssignReplicas_def assign_replicas_to_def chosen_def cs_def assms(4))
  have best: "\<not> flt (?c b) (?c a)" if nn: "\<forall>nid\<in>?E. ?c nid \<noteq> NaN"
    and a: "a \<in> ca_id ` set chosen" and b: "b \<in> ?E" "b \<notin> ca_id ` set chosen" for a b
  proof -
    from a b ids(2) obtain x y where x: "x \<in> set chosen" "a = ca_id x" and y: "y \<in> set cs" "y \<notin> set chosen" "b = ca_id y"
      by blast
    have "\<forall>c\<in>set cs. ca_score c \<noteq> NaN" using nn cost ids(2) by auto
    then have "\<not> flt (ca_score y) (ca_score x)"
      using x(1) y(1,2) unfolding chosen_def by (rule take_cheapest [OF ids(1)])
    then show ?thesis using cost x y sub by auto
  qed
  have "set (map ca_id chosen) \<subseteq> ?E" using sub ids(2) by auto
  with run dist len best show ?thesis by (intro exI [of _ "map ca_id chosen"]) simp
qed

definition idle_node :: "string \<Rightarrow> NodeMetrics" where
  "idle_node nid = \<lparr>nm_NodeID = nid, nm_AvgRTT = Fin 2, nm_CPUCores = 4, nm_MemGB = 8, nm_BandwidthMbps = 1000,
     nm_DiskGB = 100, nm_CPUUsage = Fin 0, nm_MemUsage = Fin 0, nm_NetUsage = Fin 0, nm_DiskUsage = Fin 0\<rparr>"

definition owned_placement :: Placement where
  "owned_placement = \<lparr>pl_Epoch = 1,
     pl_Nodes = map (\<lambda>nid. \<lparr>ni_ID = nid, ni_Score = Fin 1\<rparr>) [''a'', ''b'', ''c''],
     pl_VNodes = [\<lparr>vn_ID = 0, vn_Token = 0, vn_Primary = ''a'', vn_Replicas = []\<rparr>]\<rparr>"

theorem AssignReplicas_best_witness:
  "\<exists>reps. pl_VNodes (AssignReplicas (\<lambda>_. 0) (map idle_node [''a'', ''b'', ''c'']) fmempty 2 owned_placement) ! 0
       = (pl_VNodes owned_placement ! 0)\<lparr>vn_Replicas := reps\<rparr>
     \<and> length reps = 1 \<and> set reps \<subseteq> {''b'', ''c''}"
proof -
  have E: "eligible (map idle_node [''a'', ''b'', ''c'']) owned_placement (pl_VNodes owned_placement ! 0) = {''b'', ''c''}"
    by (auto simp: eligible_def owned_placement_def idle_node_def)
  have c: "card {''b'', ''c''} = 2" by simp
  show ?thesis
    using AssignReplicas_best [of 2 owned_placement 0 "pl_VNodes owned_placement ! 0" "\<lambda>_. 0"
        "map idle_node [''a'', ''b'', ''c'']" fmempty]
    unfolding E c by (auto simp: owned_placement_def)
qed

end
