(* ===== verification/Member_Meta.thy ===== *)
theory Member_Meta
  imports Nawst_Prelude
begin

text \<open>
  The metadata that members gossip: \<^verbatim>\<open>NodeMeta\<close> of \<^verbatim>\<open>src/cluster/membership.go\<close> writes it,
  \<^verbatim>\<open>parseMeta\<close> and \<^verbatim>\<open>parseMetaWithRaft\<close> of \<^verbatim>\<open>src/cluster/replication.go\<close> read it.
\<close>

section \<open>Library functions\<close>

text \<open>The UTF-8 encodings of the characters that \<^verbatim>\<open>unicode.IsSpace\<close> accepts.\<close>

definition space_runes :: "string list" where
  "space_runes =
     [[CHR 0x09], [CHR 0x0A], [CHR 0x0B], [CHR 0x0C], [CHR 0x0D], [CHR 0x20],
      [CHR 0xC2, CHR 0x85], [CHR 0xC2, CHR 0xA0], [CHR 0xE1, CHR 0x9A, CHR 0x80]]
     @ map (\<lambda>c. [CHR 0xE2, CHR 0x80, c])
         [CHR 0x80, CHR 0x81, CHR 0x82, CHR 0x83, CHR 0x84, CHR 0x85, CHR 0x86, CHR 0x87, CHR 0x88, CHR 0x89,
          CHR 0x8A, CHR 0xA8, CHR 0xA9, CHR 0xAF]
     @ [[CHR 0xE2, CHR 0x81, CHR 0x9F], [CHR 0xE3, CHR 0x80, CHR 0x80]]"

function strip_runes :: "string list \<Rightarrow> string \<Rightarrow> string" where
  "strip_runes rs s =
     (case List.find (\<lambda>r. r \<noteq> [] \<and> take (length r) s = r) rs of
        None \<Rightarrow> s
      | Some r \<Rightarrow> strip_runes rs (drop (length r) s))"
  by pat_completeness auto
termination
  by (relation "measure (\<lambda>(rs, s). length s)") (auto simp: find_Some_iff, metis length_drop length_greater_0_conv diff_less take_Nil)

declare strip_runes.simps [simp del]

definition TrimSpace :: "string \<Rightarrow> string" where
  "TrimSpace s = rev (strip_runes (map rev space_runes) (rev (strip_runes space_runes s)))"

text \<open>\<^verbatim>\<open>strings.Split\<close> at a one-character separator.\<close>

fun Split :: "string \<Rightarrow> char \<Rightarrow> string list" where
  "Split [] sep = [[]]"
| "Split (c # s) sep =
     (if c = sep then [] # Split s sep
      else (case Split s sep of [] \<Rightarrow> [[c]] | p # ps \<Rightarrow> (c # p) # ps))"

section \<open>Metadata\<close>

datatype meta_error = EmptyMeta | BadFormat string | BadFields string

definition parseMeta :: "string \<Rightarrow> meta_error + string \<times> string" where
  "parseMeta meta =
     (let raw = TrimSpace meta
      in if raw = [] then Inl EmptyMeta
         else (let parts = Split raw CHR '',''
               in if length parts < 2 then Inl (BadFormat raw)
                  else if TrimSpace (parts ! 0) = [] \<or> TrimSpace (parts ! 1) = [] then Inl (BadFields raw)
                  else Inr (TrimSpace (parts ! 0), TrimSpace (parts ! 1))))"

definition parseMetaWithRaft :: "string \<Rightarrow> meta_error + string \<times> string \<times> string" where
  "parseMetaWithRaft meta =
     (let raw = TrimSpace meta
      in if raw = [] then Inl EmptyMeta
         else (let parts = Split raw CHR '',''
               in if length parts < 2
                  then (case parseMeta meta of Inl e \<Rightarrow> Inl e | Inr (nid, rpc) \<Rightarrow> Inr (nid, rpc, []))
                  else (let nodeID = TrimSpace (parts ! 0);
                            rpcAddr = TrimSpace (parts ! 1);
                            raftAddr = (if 2 < length parts then TrimSpace (parts ! 2) else [])
                        in if nodeID = [] \<or> rpcAddr = [] then Inl (BadFields raw)
                           else Inr (nodeID, rpcAddr, raftAddr))))"

definition NodeMeta :: "string \<Rightarrow> string \<Rightarrow> string \<Rightarrow> string" where
  "NodeMeta nid rpcAddr raftAddr =
     (if raftAddr = [] then nid @ '','' @ rpcAddr
      else nid @ '','' @ rpcAddr @ '','' @ raftAddr)"

section \<open>Trimming\<close>

definition no_match :: "string list \<Rightarrow> string \<Rightarrow> bool" where
  "no_match rs s \<longleftrightarrow> (\<forall>r\<in>set rs. r \<noteq> [] \<longrightarrow> take (length r) s \<noteq> r)"

lemma no_match_find: "no_match rs s \<longleftrightarrow> List.find (\<lambda>r. r \<noteq> [] \<and> take (length r) s = r) rs = None"
  by (auto simp: no_match_def find_None_iff)

lemma no_match_strip: "no_match rs (strip_runes rs s)"
proof (induction rs s rule: strip_runes.induct)
  case (1 rs s)
  show ?case
  proof (cases "List.find (\<lambda>r. r \<noteq> [] \<and> take (length r) s = r) rs")
    case None
    then show ?thesis by (subst strip_runes.simps) (simp add: no_match_find)
  next
    case (Some r)
    with 1 show ?thesis by (subst strip_runes.simps) simp
  qed
qed

lemma strip_no_match: "no_match rs s \<Longrightarrow> strip_runes rs s = s"
  by (subst strip_runes.simps) (simp add: no_match_find)

lemma strip_suffix: "\<exists>p. s = p @ strip_runes rs s"
proof (induction rs s rule: strip_runes.induct)
  case (1 rs s)
  show ?case
  proof (cases "List.find (\<lambda>r. r \<noteq> [] \<and> take (length r) s = r) rs")
    case None
    then show ?thesis by (subst strip_runes.simps) simp
  next
    case (Some r)
    with 1 obtain p where "drop (length r) s = p @ strip_runes rs (drop (length r) s)" by blast
    then have "s = (take (length r) s @ p) @ strip_runes rs (drop (length r) s)" by (metis append_assoc append_take_drop_id)
    moreover have "strip_runes rs s = strip_runes rs (drop (length r) s)" by (subst strip_runes.simps) (simp add: Some)
    ultimately show ?thesis by metis
  qed
qed

lemma strip_id_iff: "strip_runes rs s = s \<longleftrightarrow> no_match rs s"
  by (metis no_match_strip strip_no_match)

lemma TrimSpace_split: "\<exists>p q. s = p @ TrimSpace s @ q"
proof -
  let ?l = "strip_runes space_runes s"
  obtain p q where "s = p @ ?l" "rev ?l = q @ strip_runes (map rev space_runes) (rev ?l)" using strip_suffix by blast
  then have "s = p @ TrimSpace s @ rev q" unfolding TrimSpace_def by (metis rev_append rev_rev_ident)
  then show ?thesis by blast
qed

lemma no_match_prefix:
  assumes "no_match rs (s @ t)"
  shows "no_match rs s"
  unfolding no_match_def
proof (intro ballI impI notI)
  fix r
  assume r: "r \<in> set rs" "r \<noteq> []" "take (length r) s = r"
  then have "length r \<le> length s" by (metis length_take min.cobounded1)
  with r(3) have "take (length r) (s @ t) = r" by simp
  with assms r(1,2) show False by (auto simp: no_match_def)
qed

lemma no_match_TrimSpace: "no_match space_runes (TrimSpace s)" "no_match (map rev space_runes) (rev (TrimSpace s))"
proof -
  let ?l = "strip_runes space_runes s"
  obtain q where "rev ?l = q @ strip_runes (map rev space_runes) (rev ?l)" using strip_suffix by blast
  then have "?l = TrimSpace s @ rev q" unfolding TrimSpace_def by (metis rev_append rev_rev_ident)
  then show "no_match space_runes (TrimSpace s)" by (metis no_match_prefix no_match_strip)
  show "no_match (map rev space_runes) (rev (TrimSpace s))" by (simp add: TrimSpace_def no_match_strip)
qed

text \<open>Trimmed strings are the ones no space character begins or ends.\<close>

lemma TrimSpace_id_iff: "TrimSpace s = s \<longleftrightarrow> no_match space_runes s \<and> no_match (map rev space_runes) (rev s)"
proof
  show "TrimSpace s = s \<Longrightarrow> no_match space_runes s \<and> no_match (map rev space_runes) (rev s)"
    by (metis no_match_TrimSpace)
qed (simp add: TrimSpace_def strip_no_match)

lemma TrimSpace_idem [simp]: "TrimSpace (TrimSpace s) = TrimSpace s"
  by (simp add: TrimSpace_id_iff no_match_TrimSpace)

lemma space_runes_no_comma: "r \<in> set space_runes \<Longrightarrow> CHR '','' \<notin> set r"
  by (auto simp: space_runes_def)

lemma no_match_comma:
  assumes "no_match rs s" "s \<noteq> []" "\<forall>r\<in>set rs. CHR '','' \<notin> set r"
  shows "no_match rs (s @ CHR '','' # t)"
  unfolding no_match_def
proof (intro ballI impI notI)
  fix r
  assume r: "r \<in> set rs" "r \<noteq> []" "take (length r) (s @ CHR '','' # t) = r"
  show False
  proof (cases "length r \<le> length s")
    case True
    with r assms(1) show False by (auto simp: no_match_def)
  next
    case False
    then have "CHR '','' \<in> set (take (length r) (s @ CHR '','' # t))" by (cases "length r - length s") auto
    with r assms(3) show False by auto
  qed
qed

lemma Split_comma: "c \<notin> set s \<Longrightarrow> Split (s @ c # t) c = s # Split t c" "c \<notin> set s \<Longrightarrow> Split s c = [s]"
  by (induction s) auto

text \<open>A field of the metadata: not empty, trimmed, without a comma.\<close>

definition meta_field :: "string \<Rightarrow> bool" where
  "meta_field s \<longleftrightarrow> s \<noteq> [] \<and> TrimSpace s = s \<and> CHR '','' \<notin> set s"

lemma TrimSpace_fields:
  assumes "meta_field s" "meta_field t"
  shows "TrimSpace (s @ CHR '','' # t) = s @ CHR '','' # t"
    and "TrimSpace (s @ CHR '','' # u @ CHR '','' # t) = s @ CHR '','' # u @ CHR '','' # t"
  using assms no_match_comma [of space_runes s] no_match_comma [of "map rev space_runes" "rev t"] space_runes_no_comma
  by (auto simp: meta_field_def TrimSpace_id_iff)

lemma parseMeta_WithRaft:
  "parseMeta m = (case parseMetaWithRaft m of Inl e \<Rightarrow> Inl e | Inr (nid, rpc, _) \<Rightarrow> Inr (nid, rpc))"
  by (auto simp: parseMeta_def parseMetaWithRaft_def Let_def split: if_splits)

lemma parseMeta_field:
  assumes "parseMeta m = Inr (nid, rpc)"
  shows "nid \<noteq> []" "rpc \<noteq> []" "TrimSpace nid = nid" "TrimSpace rpc = rpc"
  using assms by (auto simp: parseMeta_def Let_def split: if_splits)

section \<open>Properties\<close>

text \<open>
  C25. Members can read each other's metadata: what \<^verbatim>\<open>NodeMeta\<close> writes for fields that are not
  empty, carry no comma and no surrounding white space (the Raft address may be absent), both parsers
  read back, field by field; and on every input the two parsers agree on id and RPC address.
\<close>

theorem meta_roundtrip:
  assumes "meta_field nid" "meta_field rpc" "raft = [] \<or> meta_field raft"
  shows "parseMetaWithRaft (NodeMeta nid rpc raft) = Inr (nid, rpc, raft)
    \<and> parseMeta (NodeMeta nid rpc raft) = Inr (nid, rpc)
    \<and> parseMeta m = (case parseMetaWithRaft m of Inl e \<Rightarrow> Inl e | Inr (i, r, _) \<Rightarrow> Inr (i, r))"
proof -
  have f: "nid \<noteq> []" "rpc \<noteq> []" "TrimSpace nid = nid" "TrimSpace rpc = rpc" "CHR '','' \<notin> set nid" "CHR '','' \<notin> set rpc"
    using assms by (auto simp: meta_field_def)
  have "parseMetaWithRaft (NodeMeta nid rpc raft) = Inr (nid, rpc, raft)"
  proof (cases "raft = []")
    case True
    with f TrimSpace_fields(1) [OF assms(1,2)] show ?thesis
      by (simp add: parseMetaWithRaft_def NodeMeta_def Split_comma)
  next
    case False
    with assms have r: "meta_field raft" by simp
    with f TrimSpace_fields(2) [OF assms(1) r, of rpc] False show ?thesis
      by (simp add: parseMetaWithRaft_def NodeMeta_def Split_comma meta_field_def)
  qed
  then show ?thesis by (simp add: parseMeta_WithRaft)
qed

theorem meta_roundtrip_witness:
  "parseMetaWithRaft (NodeMeta ''node1'' ''10.0.0.1:9000'' ''10.0.0.1:7000'') = Inr (''node1'', ''10.0.0.1:9000'', ''10.0.0.1:7000'')"
proof -
  have "meta_field ''node1''" "meta_field ''10.0.0.1:9000''" "meta_field ''10.0.0.1:7000''" by code_simp+
  with meta_roundtrip [of "''node1''" "''10.0.0.1:9000''" "''10.0.0.1:7000''" "[]"] show ?thesis by simp
qed

end
