(* ===== verification/Replicator_State.thy ===== *)
theory Replicator_State
  imports Replicas Member_Meta
begin

text \<open>
  The \<^verbatim>\<open>Replicator\<close> of \<^verbatim>\<open>src/cluster/replication.go\<close>: its state, the accessors the other parts
  call, and the table of gRPC clients. The locks guard single fields, so every accessor is one atomic
  function. A client stands for the address it dials; whether \<^verbatim>\<open>grpc.NewClient\<close> accepts an
  address is the parameter \<^verbatim>\<open>dial_err\<close>.
\<close>

section \<open>State\<close>

record Member =
  mb_Name :: string
  mb_Meta :: string

record Replicator =
  rp_ID :: string
  rp_peers :: "(string, string) fmap"
  rp_conns :: "(string, string) fmap"
  rp_placement :: "Placement option"
  rp_metrics :: "NodeMetrics list"
  rp_rttMatrix :: rtt_matrix
  rp_nodeRPCAddrs :: "(string, string) fmap"
  rp_deadRow :: "(string, int) fmap"
  rp_GracePeriod :: int
  rp_metricEMA :: "(string, NodeMetrics) fmap"
  rp_degradedStreak :: "(string, int) fmap"
  rp_ReplicationFactor :: int
  rp_migrationSource :: "(u16, string) fmap"

text \<open>Times are in nanoseconds, as \<^verbatim>\<open>time.Duration\<close>.\<close>

definition time_Second :: int where "time_Second = 10 ^ 9"

definition NewReplicator :: "string \<Rightarrow> int \<Rightarrow> Replicator" where
  "NewReplicator nid rf =
     \<lparr>rp_ID = nid, rp_peers = fmempty, rp_conns = fmempty, rp_placement = None, rp_metrics = [],
      rp_rttMatrix = fmempty, rp_nodeRPCAddrs = fmempty, rp_deadRow = fmempty, rp_GracePeriod = 2 * time_Second,
      rp_metricEMA = fmempty, rp_degradedStreak = fmempty, rp_ReplicationFactor = rf, rp_migrationSource = fmempty\<rparr>"

section \<open>Accessors\<close>

definition SetPlacement :: "Placement option \<Rightarrow> Replicator \<Rightarrow> Replicator" where
  "SetPlacement p r = r\<lparr>rp_placement := p\<rparr>"

definition SetMetrics :: "NodeMetrics list \<Rightarrow> rtt_matrix \<Rightarrow> Replicator \<Rightarrow> Replicator" where
  "SetMetrics metrics rttMatrix r = r\<lparr>rp_metrics := metrics, rp_rttMatrix := rttMatrix\<rparr>"

definition setMigrationSource :: "u16 \<Rightarrow> string \<Rightarrow> Replicator \<Rightarrow> Replicator" where
  "setMigrationSource vnodeID source r =
     (if TrimSpace source = [] then r\<lparr>rp_migrationSource := fmdrop vnodeID (rp_migrationSource r)\<rparr>
      else r\<lparr>rp_migrationSource := fmupd vnodeID source (rp_migrationSource r)\<rparr>)"

definition clearMigrationSource :: "u16 \<Rightarrow> Replicator \<Rightarrow> Replicator" where
  "clearMigrationSource vnodeID r = r\<lparr>rp_migrationSource := fmdrop vnodeID (rp_migrationSource r)\<rparr>"

definition get_str :: "('k, string) fmap \<Rightarrow> 'k \<Rightarrow> string" where
  "get_str m k = (case fmlookup m k of None \<Rightarrow> [] | Some s \<Rightarrow> s)"

definition GetMigrationSourceForKey :: "(string \<Rightarrow> u64) \<Rightarrow> Replicator \<Rightarrow> string \<Rightarrow> string" where
  "GetMigrationSourceForKey hash r key =
     (case rp_placement r of
        None \<Rightarrow> []
      | Some pl \<Rightarrow> get_str (rp_migrationSource r) (GetVNodeIDForKey hash pl key))"

definition CheckOwnership :: "(string \<Rightarrow> u64) \<Rightarrow> Replicator \<Rightarrow> string \<Rightarrow> bool \<times> bool \<times> string" where
  "CheckOwnership hash r key =
     (case rp_placement r of
        None \<Rightarrow> (True, False, [])
      | Some pl \<Rightarrow>
          (let (owner, replicas) = GetNodesForKey hash pl key
           in (owner = rp_ID r, rp_ID r \<in> set replicas, owner)))"

definition GetVNodeForKey :: "(string \<Rightarrow> u64) \<Rightarrow> Replicator \<Rightarrow> string \<Rightarrow> u16" where
  "GetVNodeForKey hash r key =
     (case rp_placement r of None \<Rightarrow> 0 | Some pl \<Rightarrow> GetVNodeIDForKey hash pl key)"

section \<open>Addresses and clients\<close>

definition setNodeRPCAddr :: "string \<Rightarrow> string \<Rightarrow> Replicator \<Rightarrow> Replicator" where
  "setNodeRPCAddr nodeID rpcAddr r =
     (if TrimSpace nodeID = [] \<or> TrimSpace rpcAddr = [] then r
      else r\<lparr>rp_nodeRPCAddrs := fmupd nodeID rpcAddr (rp_nodeRPCAddrs r)\<rparr>)"

definition getNodeRPCAddr :: "Replicator \<Rightarrow> string \<Rightarrow> string option" where
  "getNodeRPCAddr r nodeID = fmlookup (rp_nodeRPCAddrs r) nodeID"

datatype client_error = DialError string | NilMemberlist | NodeNotFound string | NilMember | MetaError meta_error

text \<open>
  Saving a dialled client under the write lock. Another goroutine may have saved one since the first
  lookup; then its client is used and the new connection is closed.
\<close>

definition publish_client :: "string \<Rightarrow> string \<Rightarrow> Replicator \<Rightarrow> string \<times> Replicator" where
  "publish_client nodeID rpcAddr r =
     (case fmlookup (rp_peers r) nodeID of
        Some c \<Rightarrow> (c, r)
      | None \<Rightarrow> (rpcAddr, r\<lparr>rp_peers := fmupd nodeID rpcAddr (rp_peers r), rp_conns := fmupd nodeID rpcAddr (rp_conns r)\<rparr>))"

definition getOrCreateClientByAddr ::
  "(string \<Rightarrow> string option) \<Rightarrow> string \<Rightarrow> string \<Rightarrow> Replicator \<Rightarrow> (client_error + string) \<times> Replicator" where
  "getOrCreateClientByAddr dial_err nodeID rpcAddr r =
     (case fmlookup (rp_peers r) nodeID of
        Some c \<Rightarrow> (Inr c, r)
      | None \<Rightarrow>
          (case dial_err rpcAddr of
             Some e \<Rightarrow> (Inl (DialError e), r)
           | None \<Rightarrow> (let (c, r') = publish_client nodeID rpcAddr r in (Inr c, r'))))"

definition getOrCreateClient ::
  "(string \<Rightarrow> string option) \<Rightarrow> Member option \<Rightarrow> Replicator \<Rightarrow> (client_error + string) \<times> Replicator" where
  "getOrCreateClient dial_err member r =
     (case member of
        None \<Rightarrow> (Inl NilMember, r)
      | Some mb \<Rightarrow>
          (case parseMeta (mb_Meta mb) of
             Inl e \<Rightarrow> (Inl (MetaError e), r)
           | Inr (peerID, rpcAddr) \<Rightarrow>
               getOrCreateClientByAddr dial_err peerID rpcAddr (setNodeRPCAddr peerID rpcAddr r)))"

text \<open>One pass over the members: learn addresses until the node is found.\<close>

fun find_member :: "string \<Rightarrow> Member list \<Rightarrow> Replicator \<Rightarrow> string option \<times> Replicator" where
  "find_member nodeID [] r = (None, r)"
| "find_member nodeID (mb # ms) r =
     (case parseMeta (mb_Meta mb) of
        Inl _ \<Rightarrow> find_member nodeID ms r
      | Inr (peerID, rpcAddr) \<Rightarrow>
          (let r' = setNodeRPCAddr peerID rpcAddr r
           in if peerID = nodeID then (Some rpcAddr, r') else find_member nodeID ms r'))"

text \<open>
  The member list is read once, then up to three more times with a pause: \<^verbatim>\<open>views\<close> are the lists
  seen.
\<close>

fun find_in_views :: "string \<Rightarrow> Member list list \<Rightarrow> Replicator \<Rightarrow> string option \<times> Replicator" where
  "find_in_views nodeID [] r = (None, r)"
| "find_in_views nodeID (v # vs) r =
     (case find_member nodeID v r of
        (Some a, r') \<Rightarrow> (Some a, r')
      | (None, r') \<Rightarrow> find_in_views nodeID vs r')"

definition getOrCreateClientByNodeID ::
  "(string \<Rightarrow> string option) \<Rightarrow> Member list list option \<Rightarrow> string \<Rightarrow> Replicator \<Rightarrow> (client_error + string) \<times> Replicator" where
  "getOrCreateClientByNodeID dial_err views nodeID r =
     (case fmlookup (rp_peers r) nodeID of
        Some c \<Rightarrow> (Inr c, r)
      | None \<Rightarrow>
          (case getNodeRPCAddr r nodeID of
             Some rpcAddr \<Rightarrow> getOrCreateClientByAddr dial_err nodeID rpcAddr r
           | None \<Rightarrow>
               (case views of
                  None \<Rightarrow> (Inl NilMemberlist, r)
                | Some vs \<Rightarrow>
                    (case find_in_views nodeID (take 4 vs) r of
                       (Some rpcAddr, r') \<Rightarrow> getOrCreateClientByAddr dial_err nodeID rpcAddr r'
                     | (None, r') \<Rightarrow> (Inl (NodeNotFound nodeID), r')))))"

text \<open>Dropping the clients: \<^verbatim>\<open>Close\<close>, without the errors of the closed connections.\<close>

definition Close_clients :: "Replicator \<Rightarrow> Replicator" where
  "Close_clients r = r\<lparr>rp_peers := fmempty, rp_conns := fmempty\<rparr>"

section \<open>Properties\<close>

text \<open>
  One client per node: once a call obtained a client for a node, every later call gets the same
  one, a goroutine that dialled at the same time included, whatever address it dialled. A new address of the node
  is recorded but never dialled while the old client is in the table.
\<close>

theorem client_reused:
  assumes "getOrCreateClientByAddr dial_err nid addr r = (Inr c, r')"
  shows "publish_client nid addr' r' = (c, r')
    \<and> getOrCreateClientByAddr dial_err' nid addr' r' = (Inr c, r')
    \<and> getOrCreateClientByNodeID dial_err' views nid (setNodeRPCAddr nid addr' r') = (Inr c, setNodeRPCAddr nid addr' r')"
proof -
  have "fmlookup (rp_peers r') nid = Some c"
    using assms by (auto simp: getOrCreateClientByAddr_def publish_client_def split: option.splits)
  then show ?thesis
    by (simp add: publish_client_def getOrCreateClientByAddr_def getOrCreateClientByNodeID_def setNodeRPCAddr_def)
qed

theorem client_reused_witness:
  "\<exists>r'. getOrCreateClientByAddr (\<lambda>_. None) ''n2'' ''10.0.0.2:9000'' (NewReplicator ''n1'' 3) = (Inr ''10.0.0.2:9000'', r')
     \<and> getOrCreateClientByAddr (\<lambda>_. None) ''n2'' ''10.0.0.7:9000'' r' = (Inr ''10.0.0.2:9000'', r')"
proof -
  have "\<exists>r'. getOrCreateClientByAddr (\<lambda>_. None) ''n2'' ''10.0.0.2:9000'' (NewReplicator ''n1'' 3) = (Inr ''10.0.0.2:9000'', r')"
    by (simp add: getOrCreateClientByAddr_def publish_client_def NewReplicator_def)
  with client_reused [of "\<lambda>_. None" "''n2''" "''10.0.0.2:9000''" "NewReplicator ''n1'' 3"] show ?thesis by blast
qed

end
