(* ===== verification/Cluster_State.thy ===== *)
theory Cluster_State
  imports Rpc_Server Replicator_State
begin

text \<open>
  The cluster state that placement-aware clients fetch: \<^verbatim>\<open>SnapshotClusterState\<close> of \<^verbatim>\<open>src/cluster/state.go\<close>, in the shape of
  the protobuf messages.
\<close>

record ClusterVNode =
  cv_Id :: u32
  cv_Primary :: string
  cv_Replicas :: "string list"

record ClusterNode =
  cl_Id :: string
  cl_RpcAddr :: string
  cl_Score :: f64

record ClusterState =
  cs_Epoch :: u64
  cs_Vnodes :: "ClusterVNode list"
  cs_Nodes :: "ClusterNode list"

definition cluster_vnode :: "VNode \<Rightarrow> ClusterVNode" where
  "cluster_vnode v = \<lparr>cv_Id = ucast (vn_ID v), cv_Primary = vn_Primary v, cv_Replicas = vn_Replicas v\<rparr>"

definition placed_node :: "Replicator \<Rightarrow> NodeInfo \<Rightarrow> ClusterNode" where
  "placed_node r n = \<lparr>cl_Id = ni_ID n, cl_RpcAddr = get_str (rp_nodeRPCAddrs r) (ni_ID n), cl_Score = ni_Score n\<rparr>"

definition placed_state :: "Replicator \<Rightarrow> ClusterState" where
  "placed_state r =
     (case rp_placement r of
        None \<Rightarrow> \<lparr>cs_Epoch = 0, cs_Vnodes = [], cs_Nodes = []\<rparr>
      | Some pl \<Rightarrow> \<lparr>cs_Epoch = pl_Epoch pl, cs_Vnodes = map cluster_vnode (pl_VNodes pl), cs_Nodes = map (placed_node r) (pl_Nodes pl)\<rparr>)"

text \<open>Nodes whose address is known but that are not in the placement follow in the order of their ids.\<close>

definition other_ids :: "ClusterState \<Rightarrow> Replicator \<Rightarrow> string list" where
  "other_ids state r = sorted_list_of_fset (fmdom (rp_nodeRPCAddrs r) |-| fset_of_list (map cl_Id (cs_Nodes state)))"

definition SnapshotClusterState :: "Replicator \<Rightarrow> ClusterState" where
  "SnapshotClusterState r =
     (let state = placed_state r
      in state\<lparr>cs_Nodes := cs_Nodes state @
           map (\<lambda>i. \<lparr>cl_Id = i, cl_RpcAddr = get_str (rp_nodeRPCAddrs r) i, cl_Score = Fin 0\<rparr>) (other_ids state r)\<rparr>)"

section \<open>What a client can look up\<close>

text \<open>Every node of the list is paired with the address the replicator knows for it, and every node with an address is in the list.\<close>

lemma snapshot_nodes:
  "n \<in> set (cs_Nodes (SnapshotClusterState r)) \<Longrightarrow> cl_RpcAddr n = get_str (rp_nodeRPCAddrs r) (cl_Id n)"
  "fmlookup (rp_nodeRPCAddrs r) i \<noteq> None \<Longrightarrow> i \<in> cl_Id ` set (cs_Nodes (SnapshotClusterState r))"
proof -
  show "n \<in> set (cs_Nodes (SnapshotClusterState r)) \<Longrightarrow> cl_RpcAddr n = get_str (rp_nodeRPCAddrs r) (cl_Id n)"
    by (auto simp: SnapshotClusterState_def placed_state_def placed_node_def Let_def split: option.splits)
next
  assume i: "fmlookup (rp_nodeRPCAddrs r) i \<noteq> None"
  show "i \<in> cl_Id ` set (cs_Nodes (SnapshotClusterState r))"
  proof (cases "i \<in> cl_Id ` set (cs_Nodes (placed_state r))")
    case True
    then show ?thesis by (auto simp: SnapshotClusterState_def Let_def)
  next
    case False
    have "set (other_ids (placed_state r) r) = fset (fmdom (rp_nodeRPCAddrs r)) - cl_Id ` set (cs_Nodes (placed_state r))"
      by (simp add: other_ids_def sorted_range.range_set fset_of_list.rep_eq)
    with False i have "i \<in> set (other_ids (placed_state r) r)" by (simp add: fmdom.rep_eq dom_def fmlookup_dom_iff)
    then show ?thesis by (simp add: SnapshotClusterState_def Let_def image_image image_Un)
  qed
qed

lemma snapshot_ring:
  "rp_placement r = Some pl \<Longrightarrow> cs_Vnodes (SnapshotClusterState r) = map cluster_vnode (pl_VNodes pl) \<and> cs_Epoch (SnapshotClusterState r) = pl_Epoch pl"
  by (simp add: SnapshotClusterState_def placed_state_def Let_def)

end
