(* ===== verification/Router.thy ===== *)
theory Router
  imports Cluster_State "HOL-Library.Multiset"
begin

text \<open>
  The client-side router of \<^verbatim>\<open>src/cluster/router.go\<close>. A call is a function of the client it goes to and of the state of
  the world, which it may change; \<^verbatim>\<open>dial_err\<close> says whether \<^verbatim>\<open>grpc.NewClient\<close> accepts an address. The router is used by
  one goroutine at a time here; TLS credentials are left out.
\<close>

section \<open>State\<close>

text \<open>The clients of a pool dial the same address; they are numbered.\<close>

record clientPool =
  cp_addr :: string
  cp_size :: nat
  cp_next :: u64

datatype client = Bootstrap string | Pooled string string nat

record PlacementRouter =
  rt_bootstrapAddr :: string
  rt_poolSize :: nat
  rt_state :: "ClusterState option"
  rt_bootstrapClient :: bool
  rt_clients :: "(string, clientPool) fmap"
  rt_readCursor :: u64

definition NewPlacementRouterWithPoolSize :: "string \<Rightarrow> int \<Rightarrow> PlacementRouter" where
  "NewPlacementRouterWithPoolSize bootstrapAddr poolSize =
     \<lparr>rt_bootstrapAddr = TrimSpace bootstrapAddr, rt_poolSize = nat (if poolSize \<le> 0 then 1 else poolSize), rt_state = None,
      rt_bootstrapClient = False, rt_clients = fmempty, rt_readCursor = 0\<rparr>"

definition NewPlacementRouter :: "string \<Rightarrow> PlacementRouter" where
  "NewPlacementRouter bootstrapAddr = NewPlacementRouterWithPoolSize bootstrapAddr 4"

definition CloseRouter :: "PlacementRouter \<Rightarrow> PlacementRouter" where
  "CloseRouter rt = rt\<lparr>rt_bootstrapClient := False, rt_clients := fmempty\<rparr>"

section \<open>Clients\<close>

datatype code = Unavailable | DeadlineExceeded | CodeNotFound | FailedPrecondition | OtherCode

datatype rpc_error =
    StatusError code string | DialFailed string | BootstrapEmpty | PlacementNotReadyForKey | NoRouteCandidates

definition bootstrapKVClient :: "(string \<Rightarrow> string option) \<Rightarrow> PlacementRouter \<Rightarrow> (rpc_error + client) \<times> PlacementRouter" where
  "bootstrapKVClient dial_err rt =
     (if rt_bootstrapClient rt then (Inr (Bootstrap (rt_bootstrapAddr rt)), rt)
      else if rt_bootstrapAddr rt = [] then (Inl BootstrapEmpty, rt)
      else (case dial_err (rt_bootstrapAddr rt) of
              Some e \<Rightarrow> (Inl (DialFailed e), rt)
            | None \<Rightarrow> (Inr (Bootstrap (rt_bootstrapAddr rt)), rt\<lparr>rt_bootstrapClient := True\<rparr>)))"

text \<open>The loop that dials the connections of a pool stops at the first error.\<close>

fun dial_pool :: "(string \<Rightarrow> string option) \<Rightarrow> string \<Rightarrow> nat \<Rightarrow> string option" where
  "dial_pool dial_err addr 0 = None"
| "dial_pool dial_err addr (Suc n) = (case dial_err addr of Some e \<Rightarrow> Some e | None \<Rightarrow> dial_pool dial_err addr n)"

definition clientForNode ::
  "(string \<Rightarrow> string option) \<Rightarrow> string \<Rightarrow> string \<Rightarrow> PlacementRouter \<Rightarrow> (rpc_error + client) \<times> PlacementRouter" where
  "clientForNode dial_err node addr rt =
     (let nodeID = TrimSpace node; rpcAddr = TrimSpace addr
      in if nodeID = [] \<or> rpcAddr = [] then bootstrapKVClient dial_err rt
         else (case fmlookup (rt_clients rt) nodeID of
                 Some pool \<Rightarrow>
                   (let n = cp_next pool + 1
                    in (Inr (Pooled nodeID (cp_addr pool) (unat (n mod of_nat (cp_size pool)))),
                        rt\<lparr>rt_clients := fmupd nodeID (pool\<lparr>cp_next := n\<rparr>) (rt_clients rt)\<rparr>))
               | None \<Rightarrow>
                   (case dial_pool dial_err rpcAddr (rt_poolSize rt) of
                      Some e \<Rightarrow> (Inl (DialFailed e), rt)
                    | None \<Rightarrow>
                        (Inr (Pooled nodeID rpcAddr 0),
                         rt\<lparr>rt_clients := fmupd nodeID \<lparr>cp_addr = rpcAddr, cp_size = rt_poolSize rt, cp_next = 0\<rparr> (rt_clients rt)\<rparr>))))"

text \<open>\<^verbatim>\<open>fetch\<close> is the call of \<^verbatim>\<open>GetClusterState\<close>.\<close>

definition Refresh ::
  "(string \<Rightarrow> string option) \<Rightarrow> (client \<Rightarrow> 'w \<Rightarrow> (rpc_error + ClusterState) \<times> 'w) \<Rightarrow> PlacementRouter \<times> 'w \<Rightarrow> rpc_error option \<times> PlacementRouter \<times> 'w" where
  "Refresh dial_err fetch st =
     (case bootstrapKVClient dial_err (fst st) of
        (Inl e, rt) \<Rightarrow> (Some e, rt, snd st)
      | (Inr c, rt) \<Rightarrow>
          (case fetch c (snd st) of
             (Inl e, w) \<Rightarrow> (Some e, rt, w)
           | (Inr state, w) \<Rightarrow> (None, rt\<lparr>rt_state := Some state\<rparr>, w)))"

section \<open>Routing\<close>

definition vnodeIDForKey :: "(string \<Rightarrow> u64) \<Rightarrow> string \<Rightarrow> u16" where
  "vnodeIDForKey hash key = ucast (mul64_hi (hash key) (of_nat VNodeCount))"

record routeTarget =
  tg_nodeID :: string
  tg_rpcAddr :: string

definition addr_by_node :: "ClusterNode list \<Rightarrow> (string, string) fmap" where
  "addr_by_node nodes = fold (\<lambda>n m. fmupd (cl_Id n) (TrimSpace (cl_RpcAddr n)) m) nodes fmempty"

definition target_of :: "(string, string) fmap \<Rightarrow> string \<Rightarrow> routeTarget list" where
  "target_of addrs n = (let addr = get_str addrs n in if addr \<noteq> [] then [\<lparr>tg_nodeID = n, tg_rpcAddr = addr\<rparr>] else [])"

definition routeForKey :: "(string \<Rightarrow> u64) \<Rightarrow> string \<Rightarrow> bool \<Rightarrow> PlacementRouter \<Rightarrow> routeTarget list option \<times> PlacementRouter" where
  "routeForKey hash key readAnyNode rt =
     (case rt_state rt of
        None \<Rightarrow> (None, rt)
      | Some state \<Rightarrow>
          if length (cs_Vnodes state) \<noteq> VNodeCount then (None, rt)
          else (let vnodeID = vnodeIDForKey hash key
                in if length (cs_Vnodes state) \<le> unat vnodeID then (None, rt)
                   else (let vnode = cs_Vnodes state ! unat vnodeID;
                             addrs = addr_by_node (cs_Nodes state);
                             targets = target_of addrs (cv_Primary vnode)
                         in if cv_Primary vnode = [] then (None, rt)
                            else if readAnyNode
                            then (let ts = targets @ concat (map (target_of addrs) (cv_Replicas vnode))
                                  in if 1 < length ts
                                     then (let cursor = rt_readCursor rt + 1;
                                               offset = unat (cursor mod of_nat (length ts))
                                           in (Some (drop offset ts @ take offset ts), rt\<lparr>rt_readCursor := cursor\<rparr>))
                                     else (Some ts, rt))
                            else (Some targets, rt))))"

section \<open>Calls\<close>

text \<open>One round over the targets; \<^verbatim>\<open>firstErr\<close> is the first error of a target that was passed over.\<close>

fun try_targets ::
  "(string \<Rightarrow> string option) \<Rightarrow> (client \<Rightarrow> 'w \<Rightarrow> (rpc_error + 'a) \<times> 'w) \<Rightarrow> rpc_error option \<Rightarrow> routeTarget list \<Rightarrow> PlacementRouter \<times> 'w
   \<Rightarrow> (rpc_error + 'a) \<times> PlacementRouter \<times> 'w" where
  "try_targets dial_err call firstErr [] st = (Inl (case firstErr of Some e \<Rightarrow> e | None \<Rightarrow> NoRouteCandidates), st)"
| "try_targets dial_err call firstErr (t # ts) (rt, w) =
     (let pass = (\<lambda>e. if firstErr = None then Some e else firstErr)
      in (case clientForNode dial_err (tg_nodeID t) (tg_rpcAddr t) rt of
            (Inl e, rt') \<Rightarrow> try_targets dial_err call (pass e) ts (rt', w)
          | (Inr c, rt') \<Rightarrow>
              (case call c w of
                 (Inr x, w') \<Rightarrow> (Inr x, rt', w')
               | (Inl e, w') \<Rightarrow>
                   (case e of
                      StatusError cd _ \<Rightarrow>
                        if cd \<in> {Unavailable, DeadlineExceeded, FailedPrecondition}
                        then try_targets dial_err call (pass e) ts (rt', w') else (Inl e, rt', w')
                    | _ \<Rightarrow> (Inl e, rt', w')))))"

definition invoke ::
  "(string \<Rightarrow> u64) \<Rightarrow> (string \<Rightarrow> string option) \<Rightarrow> string \<Rightarrow> bool \<Rightarrow> (client \<Rightarrow> 'w \<Rightarrow> (rpc_error + 'a) \<times> 'w) \<Rightarrow> PlacementRouter \<times> 'w
   \<Rightarrow> (rpc_error + 'a) \<times> PlacementRouter \<times> 'w" where
  "invoke hash dial_err key readAnyNode call st =
     (case routeForKey hash key readAnyNode (fst st) of
        (Some (t # ts), rt) \<Rightarrow> try_targets dial_err call None (t # ts) (rt, snd st)
      | (_, rt) \<Rightarrow> (Inl PlacementNotReadyForKey, rt, snd st))"

definition rpcWithPlacement ::
  "(string \<Rightarrow> u64) \<Rightarrow> (string \<Rightarrow> string option) \<Rightarrow> (client \<Rightarrow> 'w \<Rightarrow> (rpc_error + ClusterState) \<times> 'w)
   \<Rightarrow> string \<Rightarrow> bool \<Rightarrow> (client \<Rightarrow> 'w \<Rightarrow> (rpc_error + 'a) \<times> 'w) \<Rightarrow> PlacementRouter \<times> 'w \<Rightarrow> (rpc_error + 'a) \<times> PlacementRouter \<times> 'w" where
  "rpcWithPlacement hash dial_err fetch key readAnyNode call st =
     (case invoke hash dial_err key readAnyNode call st of
        (Inr x, st') \<Rightarrow> (Inr x, st')
      | (Inl _, st') \<Rightarrow> invoke hash dial_err key readAnyNode call (snd (Refresh dial_err fetch st')))"

text \<open>The methods of the client stubs are arguments.\<close>

record 'w stubs =
  stub_Get :: "client \<Rightarrow> string \<Rightarrow> u64 \<Rightarrow> 'w \<Rightarrow> (rpc_error + bytes \<times> u64) \<times> 'w"
  stub_Put :: "client \<Rightarrow> string \<Rightarrow> bytes \<Rightarrow> 'w \<Rightarrow> (rpc_error + unit) \<times> 'w"
  stub_Delete :: "client \<Rightarrow> string \<Rightarrow> 'w \<Rightarrow> (rpc_error + unit) \<times> 'w"
  stub_State :: "client \<Rightarrow> 'w \<Rightarrow> (rpc_error + ClusterState) \<times> 'w"

definition GetWithMinVersion ::
  "(string \<Rightarrow> u64) \<Rightarrow> (string \<Rightarrow> string option) \<Rightarrow> 'w stubs \<Rightarrow> string \<Rightarrow> u64 \<Rightarrow> PlacementRouter \<times> 'w
   \<Rightarrow> (rpc_error + bytes \<times> u64) \<times> PlacementRouter \<times> 'w" where
  "GetWithMinVersion hash dial_err stubs key minVersion st =
     rpcWithPlacement hash dial_err (stub_State stubs) key True (\<lambda>c. stub_Get stubs c key minVersion) st"

definition RouterGet ::
  "(string \<Rightarrow> u64) \<Rightarrow> (string \<Rightarrow> string option) \<Rightarrow> 'w stubs \<Rightarrow> string \<Rightarrow> PlacementRouter \<times> 'w \<Rightarrow> (rpc_error + bytes) \<times> PlacementRouter \<times> 'w" where
  "RouterGet hash dial_err stubs key st =
     (case GetWithMinVersion hash dial_err stubs key 0 st of (res, st') \<Rightarrow> (map_sum id fst res, st'))"

definition RouterPut ::
  "(string \<Rightarrow> u64) \<Rightarrow> (string \<Rightarrow> string option) \<Rightarrow> 'w stubs \<Rightarrow> string \<Rightarrow> bytes \<Rightarrow> PlacementRouter \<times> 'w \<Rightarrow> (rpc_error + unit) \<times> PlacementRouter \<times> 'w" where
  "RouterPut hash dial_err stubs key val st =
     rpcWithPlacement hash dial_err (stub_State stubs) key False (\<lambda>c. stub_Put stubs c key val) st"

definition RouterDelete ::
  "(string \<Rightarrow> u64) \<Rightarrow> (string \<Rightarrow> string option) \<Rightarrow> 'w stubs \<Rightarrow> string \<Rightarrow> PlacementRouter \<times> 'w \<Rightarrow> (rpc_error + unit) \<times> PlacementRouter \<times> 'w" where
  "RouterDelete hash dial_err stubs key st =
     rpcWithPlacement hash dial_err (stub_State stubs) key False (\<lambda>c. stub_Delete stubs c key) st"

section \<open>Lemmas\<close>

lemma vnodeIDForKey_index: "unat (vnodeIDForKey hash key) = vnode_index hash key"
proof -
  have "vnode_index hash key < 2 ^ LENGTH(16)" using vnode_index_less [of hash key] by (simp add: VNodeCount_def)
  then show ?thesis by (simp add: vnodeIDForKey_def vnode_index_def unsigned_ucast_eq take_bit_nat_eq_self)
qed

lemma addr_by_node_lookup:
  assumes "\<forall>n\<in>set nodes. TrimSpace (cl_RpcAddr n) = f (cl_Id n)"
  shows "get_str (addr_by_node nodes) i = (if i \<in> cl_Id ` set nodes then f i else [])"
proof -
  have "get_str (fold (\<lambda>n m. fmupd (cl_Id n) (TrimSpace (cl_RpcAddr n)) m) nodes m) i = (if i \<in> cl_Id ` set nodes then f i else get_str m i)" for m
    using assms by (induction nodes arbitrary: m) (auto simp: get_str_def)
  then show ?thesis by (simp add: addr_by_node_def get_str_def)
qed

lemma TrimSpace_Nil [simp]: "TrimSpace [] = []"
  by code_simp

text \<open>What the router finds in a snapshot is the address the replicator knows.\<close>

lemma snapshot_addr:
  "get_str (addr_by_node (cs_Nodes (SnapshotClusterState r))) i = TrimSpace (get_str (rp_nodeRPCAddrs r) i)"
proof -
  have "\<forall>n\<in>set (cs_Nodes (SnapshotClusterState r)). TrimSpace (cl_RpcAddr n) = TrimSpace (get_str (rp_nodeRPCAddrs r) (cl_Id n))"
    using snapshot_nodes(1) by simp
  from addr_by_node_lookup [where f = "\<lambda>i. TrimSpace (get_str (rp_nodeRPCAddrs r) i)", OF this]
  show ?thesis using snapshot_nodes(2) [of r i]
    by (cases "fmlookup (rp_nodeRPCAddrs r) i") (auto simp: get_str_def)
qed

text \<open>The route of a key through a snapshot: the owner, and for reads its replicas, as far as their addresses are known.\<close>

lemma routeForKey_snapshot:
  assumes "rp_placement r = Some pl" "ring (pl_VNodes pl)" "rt_state rt = Some (SnapshotClusterState r)"
    and "GetNodesForKey hash pl key = (owner, replicas)" "owner \<noteq> []"
  defines "known \<equiv> target_of (addr_by_node (cs_Nodes (SnapshotClusterState r)))"
  shows "routeForKey hash key False rt = (Some (known owner), rt)"
    and "\<exists>ts rt'. routeForKey hash key True rt = (Some ts, rt') \<and> mset ts = mset (concat (map known (owner # replicas)))"
proof -
  let ?s = "SnapshotClusterState r" and ?i = "vnode_index hash key"
  have len: "length (pl_VNodes pl) = VNodeCount" using assms(2) by (simp add: ring_def)
  have vs: "cs_Vnodes ?s = map cluster_vnode (pl_VNodes pl)" using snapshot_ring [OF assms(1)] by simp
  have i: "?i < VNodeCount" by (rule vnode_index_less)
  have v: "cv_Primary (cs_Vnodes ?s ! ?i) = owner" "cv_Replicas (cs_Vnodes ?s ! ?i) = replicas"
    using assms(4) i by (simp_all add: vs len GetNodesForKey_def cluster_vnode_def Let_def)
  have lens: "length (cs_Vnodes ?s) = VNodeCount" by (simp add: vs len)
  have go: "\<not> VNodeCount \<le> ?i" using i by simp
  show "routeForKey hash key False rt = (Some (known owner), rt)"
    using assms(5) by (simp add: routeForKey_def assms(3) lens vnodeIDForKey_index go v known_def Let_def)
  let ?ts = "concat (map known (owner # replicas))"
  have "routeForKey hash key True rt =
    (if 1 < length ?ts
     then (Some (drop (unat ((rt_readCursor rt + 1) mod of_nat (length ?ts))) ?ts @ take (unat ((rt_readCursor rt + 1) mod of_nat (length ?ts))) ?ts),
           rt\<lparr>rt_readCursor := rt_readCursor rt + 1\<rparr>)
     else (Some ?ts, rt))"
    using assms(5) by (simp add: routeForKey_def assms(3) lens vnodeIDForKey_index go v known_def Let_def)
  moreover have "mset (drop n ?ts @ take n ?ts) = mset ?ts" for n
    by (metis append_take_drop_id mset_append union_commute)
  ultimately show "\<exists>ts rt'. routeForKey hash key True rt = (Some ts, rt') \<and> mset ts = mset ?ts" by auto
qed

lemma dial_pool_ok: "dial_err addr = None \<Longrightarrow> dial_pool dial_err addr n = None"
  by (induction n) simp_all

lemma clientForNode_pooled:
  assumes "TrimSpace node = node" "node \<noteq> []" "TrimSpace addr = addr" "addr \<noteq> []" "dial_err addr = None"
  shows "\<exists>a i rt'. clientForNode dial_err node addr rt = (Inr (Pooled node a i), rt')"
  using assms by (simp add: clientForNode_def dial_pool_ok Let_def split: option.splits)


definition sample_router :: "Replicator \<Rightarrow> PlacementRouter" where
  "sample_router r = (NewPlacementRouter ''seed:1'')\<lparr>rt_state := Some (SnapshotClusterState r)\<rparr>"

definition owned_by_b :: Placement where
  "owned_by_b = \<lparr>pl_Epoch = 1, pl_Nodes = [], pl_VNodes = map (\<lambda>v. v\<lparr>vn_Primary := ''b'', vn_Replicas := [''c'']\<rparr>) InitializeVNodes\<rparr>"


end
