(* ===== verification/Float_Order.thy ===== *)
theory Float_Order
  imports Go_Float "HOL-Library.Signed_Division"
begin

text \<open>
  Rounding of \<^verbatim>\<open>float64\<close> results is monotone, and exact on the numbers of 53 significant bits.
  The bounds of smoothed metrics rest on these two facts.
\<close>

section \<open>Monotone rounding\<close>

lemma round_even_mono:
  assumes "p \<le> q"
  shows "round_even p \<le> round_even q"
proof (cases "\<lfloor>p\<rfloor> = \<lfloor>q\<rfloor>")
  case True
  with assms show ?thesis by (auto simp: round_even_def Let_def)
next
  case False
  with assms have "\<lfloor>p\<rfloor> < \<lfloor>q\<rfloor>" using floor_mono [OF assms] by linarith
  moreover have "round_even p \<le> \<lfloor>p\<rfloor> + 1" "\<lfloor>q\<rfloor> \<le> round_even q" by (simp_all add: round_even_def Let_def)
  ultimately show ?thesis by linarith
qed

definition ulp_exp :: "rat \<Rightarrow> int" where
  "ulp_exp x = max (ilog2 x) (-1022) - 52"

definition rnd :: "rat \<Rightarrow> rat" where
  "rnd x = of_int (round_even (x / 2 powi (ulp_exp x))) * 2 powi (ulp_exp x)"

lemma fl_pos_rnd: "fl_pos x = (if rnd x \<ge> f64_limit then Inf False else Fin (rnd x))"
  by (simp add: fl_pos_def rnd_def ulp_exp_def Let_def)

lemma powi_int: "a \<le> b \<Longrightarrow> (2 :: rat) powi b / 2 powi a = of_int (2 ^ nat (b - a))"
  using power_int_diff [of "2 :: rat" b a] by (simp add: power_int_def [of _ "b - a"])

lemma powi_le_iff: "(2 :: rat) powi a \<le> 2 powi b \<longleftrightarrow> a \<le> b"
  by (meson power_int_increasing power_int_strict_increasing not_less one_le_numeral one_less_numeral_iff semiring_norm(76))

lemma ilog2_mono:
  assumes "0 < x" "x \<le> y"
  shows "ilog2 x \<le> ilog2 y"
proof -
  have "(2 :: rat) powi ilog2 x < 2 powi (ilog2 y + 1)"
    using ilog2_bounds(1) [of x] ilog2_bounds(2) [of y] assms by linarith
  then show ?thesis using powi_le_iff [of "ilog2 y + 1" "ilog2 x"] by linarith
qed

text \<open>Numbers on the grid of \<^verbatim>\<open>x\<close> bound its rounded value.\<close>

lemma rnd_le_grid: "x \<le> of_int k * 2 powi (ulp_exp x) \<Longrightarrow> rnd x \<le> of_int k * 2 powi (ulp_exp x)"
proof -
  assume "x \<le> of_int k * 2 powi (ulp_exp x)"
  then have "x / 2 powi (ulp_exp x) \<le> of_int k" by (simp add: field_simps)
  from round_even_mono [OF this] show ?thesis by (simp add: rnd_def)
qed

lemma rnd_ge_grid: "of_int k * 2 powi (ulp_exp x) \<le> x \<Longrightarrow> of_int k * 2 powi (ulp_exp x) \<le> rnd x"
proof -
  assume "of_int k * 2 powi (ulp_exp x) \<le> x"
  then have "of_int k \<le> x / 2 powi (ulp_exp x)" by (simp add: field_simps)
  from round_even_mono [OF this] show ?thesis by (simp add: rnd_def)
qed

lemma rnd_mono:
  assumes "0 < x" "x \<le> y"
  shows "rnd x \<le> rnd y"
proof (cases "ulp_exp x = ulp_exp y")
  case True
  have "x / 2 powi (ulp_exp y) \<le> y / 2 powi (ulp_exp y)" using assms by (simp add: divide_right_mono)
  from round_even_mono [OF this] show ?thesis by (simp add: rnd_def True)
next
  case False
  with ilog2_mono [OF assms] have e: "ulp_exp y = ilog2 y - 52" "ilog2 x < ilog2 y" "ulp_exp x \<le> ilog2 y"
    by (auto simp: ulp_exp_def max_def split: if_splits)
  define P where "P = (2 :: rat) powi ilog2 y"
  have grid: "\<exists>k. P = of_int k * 2 powi (ulp_exp z)" if "ulp_exp z \<le> ilog2 y" for z
    using powi_int [OF that] by (intro exI [of _ "2 ^ nat (ilog2 y - ulp_exp z)"]) (simp add: P_def field_simps)
  have "x < 2 powi (ilog2 x + 1)" using ilog2_bounds(2) assms(1) by blast
  moreover have "(2 :: rat) powi (ilog2 x + 1) \<le> P" using e(2) by (simp add: P_def powi_le_iff)
  ultimately have "x \<le> P" by linarith
  then have "rnd x \<le> P" using grid [OF e(3)] rnd_le_grid by auto
  moreover have "P \<le> y" using ilog2_bounds(1) [of y] assms by (simp add: P_def)
  then have "P \<le> rnd y" using grid [of y] e(1) rnd_ge_grid [of _ y] by auto
  ultimately show ?thesis by linarith
qed

text \<open>A number of 53 significant bits is its own rounding.\<close>

lemma rnd_exact:
  assumes x: "x = of_int k * 2 powi e" "0 < k" "k < 2 ^ 53" "-1074 \<le> e"
  shows "rnd x = x"
proof -
  have pos: "0 < x" using x by simp
  have "ulp_exp x \<le> e"
  proof (rule ccontr)
    assume "\<not> ulp_exp x \<le> e"
    with x(4) have u: "ilog2 x = ulp_exp x + 52" "e + 53 \<le> ilog2 x" by (auto simp: ulp_exp_def)
    have "(of_int k :: rat) < of_int (2 ^ 53)" using x(3) by (simp only: of_int_less_iff)
    then have "x < 2 powi (53 + e)" using x(1) by (simp add: power_int_add)
    moreover have "(2 :: rat) powi (53 + e) \<le> 2 powi ilog2 x" using u by (simp add: powi_le_iff)
    ultimately show False using ilog2_bounds(1) [OF pos] by linarith
  qed
  from powi_int [OF this] have "x / 2 powi (ulp_exp x) = of_int (k * 2 ^ nat (e - ulp_exp x))"
    by (simp add: x(1) field_simps)
  then have "of_int (round_even (x / 2 powi (ulp_exp x))) = x / 2 powi (ulp_exp x)" by (simp only: round_even_int)
  then show ?thesis by (simp add: rnd_def)
qed

lemma rnd_nonneg: "0 < x \<Longrightarrow> 0 \<le> rnd x"
  unfolding rnd_def by (intro mult_nonneg_nonneg) (simp_all add: round_even_nonneg)

text \<open>A result between zero and a small number of 53 bits stays there.\<close>

lemma fl_between:
  assumes "0 \<le> x" "x \<le> c" and c: "c = of_int k * 2 powi e" "0 < k" "k < 2 ^ 53" "-1074 \<le> e" "c \<le> 2 ^ 90"
  obtains y where "fl x = Fin y" "0 \<le> y" "y \<le> c"
proof (cases "x = 0")
  case True
  have "0 \<le> c" using assms by linarith
  with True that [of 0] show ?thesis by (simp add: fl_def)
next
  case False
  with assms have x: "0 < x" by simp
  have "rnd x \<le> c" using rnd_mono [OF x assms(2)] rnd_exact [OF c(1-4)] by simp
  moreover have "c < f64_limit" by (rule less_le_trans [OF _ f64_bounds(6)]) (rule le_less_trans [OF c(5)], simp)
  ultimately show ?thesis using that [of "rnd x"] x rnd_nonneg [OF x] by (simp add: fl_def fl_pos_rnd)
qed

lemma fl_exact:
  assumes c: "c = of_int k * 2 powi e" "0 < k" "k < 2 ^ 53" "-1074 \<le> e" "c \<le> 2 ^ 90"
  shows "fl c = Fin c"
proof -
  have "0 < c" using c(1,2) by simp
  moreover have "c < f64_limit" by (rule less_le_trans [OF _ f64_bounds(6)]) (rule le_less_trans [OF c(5)], simp)
  ultimately show ?thesis using rnd_exact [OF c(1-4)] by (simp add: fl_def fl_pos_rnd)
qed

lemma fl_numerals: "fl 0 = Fin 0" "fl 1 = Fin 1" "fl 2 = Fin 2"
  using of_go_int_exact [of 0] of_go_int_exact [of 1] of_go_int_exact [of 2] by (simp_all add: of_go_int_def)

lemma fl_unit:
  assumes "0 \<le> x" "x \<le> 1"
  obtains y where "fl x = Fin y" "0 \<le> y" "y \<le> 1"
  using fl_between [OF assms, of 1 0] by auto

text \<open>A coarse error bound, for results up to 8.\<close>

lemma fl_near:
  assumes "0 \<le> x" "x \<le> 8"
  obtains y where "fl x = Fin y" "0 \<le> y" "\<bar>y - x\<bar> \<le> 1 / 1000"
proof -
  have "2 * x \<le> f64_limit" by (rule order_trans [OF _ f64_bounds(6)]) (use assms(2) in simp)
  then obtain y where y: "fl x = Fin y" "0 \<le> y" "\<bar>y - x\<bar> \<le> x * f64_eps + f64_tiny" using fl_err [of x] assms(1) by blast
  have "x * f64_eps \<le> 8 * (1 / 2 ^ 50)" using assms f64_bounds(1) f64_consts(1) by (intro mult_mono) auto
  then have "x * f64_eps + f64_tiny \<le> 1 / 1000" using f64_bounds(2) by simp
  with y that show thesis by fastforce
qed

lemma fl_near_ex: "0 \<le> x \<Longrightarrow> x \<le> 8 \<Longrightarrow> \<exists>y. fl x = Fin y \<and> 0 \<le> y \<and> \<bar>y - x\<bar> \<le> 1 / 1000"
  by (rule fl_near) auto

lemma fl_unit_ex: "0 \<le> x \<Longrightarrow> x \<le> 1 \<Longrightarrow> \<exists>y. fl x = Fin y \<and> 0 \<le> y \<and> y \<le> 1"
  by (rule fl_unit) auto

section \<open>Durations\<close>

text \<open>\<^verbatim>\<open>Duration.Seconds\<close>.\<close>

definition Seconds :: "int \<Rightarrow> f64" where
  "Seconds d = fadd (of_go_int (d sdiv 10 ^ 9)) (fdiv (of_go_int (d smod 10 ^ 9)) (Fin (10 ^ 9)))"

end
