(* ===== verification/Loadgen.thy ===== *)
theory Loadgen
  imports Router Float_Order
begin

text \<open>
  The workload driver \<^verbatim>\<open>src/cmd/loadgen/main.go\<close>: the checks of its configuration, the choice of operations and keys, the partition
  of the prefill among workers, and the recorder with its latency quantiles. What the random generator returns is an argument.
\<close>

section \<open>Configuration\<close>

record LoadConfig =
  lc_Addr :: string
  lc_Clients :: int
  lc_Conns :: int
  lc_Timeout :: int
  lc_TLSEnable :: bool
  lc_TLSCACertFile :: string
  lc_TLSServerName :: string
  lc_TLSInsecureSkip :: bool
  lc_ValueSize :: int
  lc_Keyspace :: int
  lc_PrefillKeys :: int
  lc_Warmup :: int
  lc_Duration :: int
  lc_ProgressEvery :: int
  lc_Distribution :: string
  lc_ZipfS :: f64
  lc_ZipfV :: f64
  lc_ReadPct :: int
  lc_WritePct :: int
  lc_DeletePct :: int
  lc_TargetOpsPerSec :: int
  lc_Seed :: int
  lc_PutOnly :: bool
  lc_UseStream :: bool

text \<open>What \<^verbatim>\<open>parseFlags\<close> does to the parsed values.\<close>

definition check_flags :: "LoadConfig \<Rightarrow> LoadConfig" where
  "check_flags cfg =
     (let keyspace = (if lc_Keyspace cfg \<le> 0 then 1 else lc_Keyspace cfg);
          pre = (if lc_PrefillKeys cfg < 0 then 0 else lc_PrefillKeys cfg)
      in cfg\<lparr>lc_Clients := (if lc_Clients cfg \<le> 0 then 1 else lc_Clients cfg),
             lc_Conns := (if lc_Conns cfg \<le> 0 then 1 else lc_Conns cfg),
             lc_ValueSize := (if lc_ValueSize cfg \<le> 0 then 64 else lc_ValueSize cfg),
             lc_Keyspace := keyspace,
             lc_PrefillKeys := (if keyspace < pre then keyspace else pre),
             lc_ProgressEvery := (if lc_ProgressEvery cfg \<le> 0 then 5 * time_Second else lc_ProgressEvery cfg),
             lc_Duration := (if lc_Duration cfg \<le> 0 then 30 * time_Second else lc_Duration cfg),
             lc_ZipfS := (if fle (lc_ZipfS cfg) (Fin 1) then fl (101 / 100) else lc_ZipfS cfg),
             lc_ZipfV := (if flt (lc_ZipfV cfg) (Fin 1) then Fin 1 else lc_ZipfV cfg)\<rparr>)"

section \<open>Operations and keys\<close>

datatype operation = opPut | opGet | opDelete

definition op_String :: "operation \<Rightarrow> string" where
  "op_String o1 = (case o1 of opPut \<Rightarrow> ''PUT'' | opGet \<Rightarrow> ''GET'' | opDelete \<Rightarrow> ''DELETE'')"

record opMix =
  om_putEnd :: int
  om_getEnd :: int

datatype mix_error = NegativePercentage | PercentagesNot100

definition buildMix :: "LoadConfig \<Rightarrow> mix_error + opMix" where
  "buildMix cfg =
     (if lc_PutOnly cfg then Inr \<lparr>om_putEnd = 100, om_getEnd = 100\<rparr>
      else if lc_ReadPct cfg < 0 \<or> lc_WritePct cfg < 0 \<or> lc_DeletePct cfg < 0 then Inl NegativePercentage
      else if lc_ReadPct cfg + lc_WritePct cfg + lc_DeletePct cfg \<noteq> 100 then Inl PercentagesNot100
      else Inr \<lparr>om_putEnd = lc_WritePct cfg, om_getEnd = lc_WritePct cfg + lc_ReadPct cfg\<rparr>)"

text \<open>\<^verbatim>\<open>v\<close> is \<^verbatim>\<open>r.Intn(100)\<close>.\<close>

definition pick :: "opMix \<Rightarrow> int \<Rightarrow> operation" where
  "pick m v = (if v < om_putEnd m then opPut else if v < om_getEnd m then opGet else opDelete)"

datatype keyPicker = uniformPicker int | latestPicker int | zipfPicker u64

datatype picker_error = InvalidZipf | UnknownDistribution string

text \<open>
  \<^verbatim>\<open>strings.ToLower\<close>, as far as it matters for a comparison with ASCII words: the characters outside ASCII whose lower case is
  in ASCII are the dotted capital I and the Kelvin sign.
\<close>

fun ToLower :: "string \<Rightarrow> string" where
  "ToLower [] = []"
| "ToLower (c # cs) =
     (if c = CHR 0xC4 \<and> take 1 cs = [CHR 0xB0] then CHR ''i'' # ToLower (drop 1 cs)
      else if c = CHR 0xE2 \<and> take 2 cs = [CHR 0x84, CHR 0xAA] then CHR ''k'' # ToLower (drop 2 cs)
      else (if CHR ''A'' \<le> c \<and> c \<le> CHR ''Z'' then char_of (of_char c + 32 :: nat) else c) # ToLower cs)"

text \<open>\<^verbatim>\<open>zipf_ok\<close> says whether \<^verbatim>\<open>rand.NewZipf\<close> accepts its parameters.\<close>

definition buildPicker :: "(f64 \<Rightarrow> f64 \<Rightarrow> u64 \<Rightarrow> bool) \<Rightarrow> LoadConfig \<Rightarrow> picker_error + keyPicker" where
  "buildPicker zipf_ok cfg =
     (let d = ToLower (lc_Distribution cfg);
          maxKey = of_int (lc_Keyspace cfg - 1)
      in if d = ''uniform'' then Inr (uniformPicker (lc_Keyspace cfg))
         else if d = ''latest'' then Inr (latestPicker (lc_Keyspace cfg))
         else if d = ''zipf''
         then (if lc_Keyspace cfg \<le> 1 then Inr (uniformPicker (lc_Keyspace cfg))
               else if \<not> zipf_ok (lc_ZipfS cfg) (lc_ZipfV cfg) maxKey then Inl InvalidZipf
               else Inr (zipfPicker maxKey))
         else Inl (UnknownDistribution (lc_Distribution cfg)))"

text \<open>
  The random generator: \<^verbatim>\<open>Intn\<close>, the fourth power of a \<^verbatim>\<open>Float64\<close>, and the Zipf generator. A conversion of a float to an
  integer cuts off the fraction.
\<close>

record draws =
  dr_Intn :: "int \<Rightarrow> int"
  dr_Pow4 :: f64
  dr_Zipf :: u64

definition trunc_int :: "f64 \<Rightarrow> int" where
  "trunc_int v =
     (case v of
        Fin x \<Rightarrow> (let n = (if 0 \<le> x then \<lfloor>x\<rfloor> else \<lceil>x\<rceil>) in if - (2 ^ 63) \<le> n \<and> n < 2 ^ 63 then n else - (2 ^ 63))
      | _ \<Rightarrow> - (2 ^ 63))"

definition NextKey :: "keyPicker \<Rightarrow> draws \<Rightarrow> int" where
  "NextKey p dr =
     (case p of
        uniformPicker keyspace \<Rightarrow> dr_Intn dr keyspace
      | latestPicker keyspace \<Rightarrow>
          if keyspace \<le> 1 then 0
          else (let idx = trunc_int (fmul (fsub (Fin 1) (dr_Pow4 dr)) (of_go_int (keyspace - 1)));
                    idx1 = (if idx < 0 then 0 else idx)
                in if keyspace \<le> idx1 then keyspace - 1 else idx1)
      | zipfPicker maxKey \<Rightarrow> uint (dr_Zipf dr mod (maxKey + 1)))"

text \<open>\<^verbatim>\<open>fmt.Sprintf("k%08d", n)\<close>.\<close>

definition key_name :: "nat \<Rightarrow> string" where
  "key_name n = (let d = dec n in CHR ''k'' # replicate (8 - length d) CHR ''0'' @ d)"

definition pickKey :: "LoadConfig \<Rightarrow> keyPicker \<Rightarrow> draws \<Rightarrow> string" where
  "pickKey cfg p dr = key_name (nat (NextKey p dr mod lc_Keyspace cfg))"

text \<open>One byte per draw of \<^verbatim>\<open>r.Intn(26)\<close>.\<close>

definition randomValue :: "nat list \<Rightarrow> bytes" where
  "randomValue ds = map (\<lambda>d. of_nat (d + 97)) ds"

text \<open>The next operation of a worker.\<close>

definition doOp ::
  "(string \<Rightarrow> u64) \<Rightarrow> (string \<Rightarrow> string option) \<Rightarrow> 'w stubs \<Rightarrow> operation \<Rightarrow> string \<Rightarrow> bytes \<Rightarrow> PlacementRouter \<times> 'w
   \<Rightarrow> rpc_error option \<times> PlacementRouter \<times> 'w" where
  "doOp hash dial_err stubs o1 key val st =
     (case o1 of
        opPut \<Rightarrow> (case RouterPut hash dial_err stubs key val st of (Inl e, st') \<Rightarrow> (Some e, st') | (Inr _, st') \<Rightarrow> (None, st'))
      | opGet \<Rightarrow>
          (case RouterGet hash dial_err stubs key st of
             (Inr _, st') \<Rightarrow> (None, st')
           | (Inl e, st') \<Rightarrow> (case e of StatusError CodeNotFound _ \<Rightarrow> (None, st') | _ \<Rightarrow> (Some e, st')))
      | opDelete \<Rightarrow> (case RouterDelete hash dial_err stubs key st of (Inl e, st') \<Rightarrow> (Some e, st') | (Inr _, st') \<Rightarrow> (None, st')))"

text \<open>The pause between two operations of a worker, in nanoseconds.\<close>

definition perWorkerPace :: "LoadConfig \<Rightarrow> int" where
  "perWorkerPace cfg =
     (if 0 < lc_TargetOpsPerSec cfg
      then (let perWorker = fdiv (of_go_int (lc_TargetOpsPerSec cfg)) (of_go_int (lc_Clients cfg))
            in if flt (Fin 0) perWorker then trunc_int (fdiv (of_go_int time_Second) perWorker) else 0)
      else 0)"

section \<open>Prefill\<close>

definition prefill_workers :: "LoadConfig \<Rightarrow> nat" where
  "prefill_workers cfg =
     (let w = (if lc_PrefillKeys cfg < lc_Clients cfg then lc_PrefillKeys cfg else lc_Clients cfg) in nat (if w \<le> 0 then 1 else w))"

text \<open>The keys worker \<^verbatim>\<open>i\<close> writes, in order.\<close>

function worker_keys :: "nat \<Rightarrow> nat \<Rightarrow> nat \<Rightarrow> nat list" where
  "worker_keys workers total1 k = (if k < total1 \<and> 0 < workers then k # worker_keys workers total1 (k + workers) else [])"
  by pat_completeness auto
termination by (relation "measure (\<lambda>(w, t, k). t - k)") auto

declare worker_keys.simps [simp del]

definition prefill_keys :: "LoadConfig \<Rightarrow> string list list" where
  "prefill_keys cfg =
     (if lc_PrefillKeys cfg \<le> 0 then []
      else map (\<lambda>i. map (\<lambda>k. key_name (k mod nat (lc_Keyspace cfg))) (worker_keys (prefill_workers cfg) (nat (lc_PrefillKeys cfg)) i))
             [0..<prefill_workers cfg])"

section \<open>Recorder\<close>

record opStats =
  os_ok :: u64
  os_fail :: u64
  os_latencySum :: f64
  os_hist :: "u64 list"

definition latency_bounds :: "rat list" where
  "latency_bounds = [1 / 4, 1 / 2, 1, 2, 5, 10, 20, 50, 100, 200, 500, 1000, 2000, 5000]"

definition newRecorder :: "operation \<Rightarrow> opStats" where
  "newRecorder o1 = \<lparr>os_ok = 0, os_fail = 0, os_latencySum = Fin 0, os_hist = replicate (length latency_bounds + 1) 0\<rparr>"

fun bucket_of :: "rat list \<Rightarrow> f64 \<Rightarrow> nat" where
  "bucket_of [] ms = 0"
| "bucket_of (b # bs) ms = (if fle ms (Fin b) then 0 else Suc (bucket_of bs ms))"

text \<open>\<^verbatim>\<open>float64(d.Microseconds()) / 1000.0\<close>.\<close>

definition latency_ms :: "int \<Rightarrow> f64" where
  "latency_ms d = fdiv (of_go_int (d div 1000)) (Fin 1000)"

definition observe :: "operation \<Rightarrow> int \<Rightarrow> bool \<Rightarrow> (operation \<Rightarrow> opStats) \<Rightarrow> (operation \<Rightarrow> opStats)" where
  "observe o1 d failed rec =
     (let s = rec o1; ms = latency_ms d; b = bucket_of latency_bounds ms
      in rec(o1 := (if failed then s\<lparr>os_fail := os_fail s + 1\<rparr>
                    else s\<lparr>os_ok := os_ok s + 1, os_latencySum := fadd (os_latencySum s) ms, os_hist := (os_hist s)[b := os_hist s ! b + 1]\<rparr>)))"

definition totalOK :: "(operation \<Rightarrow> opStats) \<Rightarrow> u64" where
  "totalOK snap = os_ok (snap opPut) + os_ok (snap opGet) + os_ok (snap opDelete)"

definition totalFail :: "(operation \<Rightarrow> opStats) \<Rightarrow> u64" where
  "totalFail snap = os_fail (snap opPut) + os_fail (snap opGet) + os_fail (snap opDelete)"

section \<open>Quantiles\<close>

definition ceil_u64 :: "f64 \<Rightarrow> u64" where
  "ceil_u64 v = (case v of Fin x \<Rightarrow> of_int \<lceil>x\<rceil> | _ \<Rightarrow> 2 ^ 63)"

definition quantile_target :: "u64 \<Rightarrow> f64 \<Rightarrow> u64" where
  "quantile_target total1 q = (let t = ceil_u64 (fmul (of_go_int (uint total1)) q) in if t = 0 then 1 else t)"

fun scan_hist :: "u64 list \<Rightarrow> rat list \<Rightarrow> u64 \<Rightarrow> u64 \<Rightarrow> nat \<Rightarrow> rat" where
  "scan_hist [] bounds target cumulative i = last bounds"
| "scan_hist (c # hist) bounds target cumulative i =
     (let cumulative' = cumulative + c
      in if target \<le> cumulative' then (if length bounds \<le> i then last bounds else bounds ! i)
         else scan_hist hist bounds target cumulative' (Suc i))"

definition qFromHist :: "u64 list \<Rightarrow> rat list \<Rightarrow> f64 \<Rightarrow> rat" where
  "qFromHist hist bounds q =
     (let total1 = fold (\<lambda>c t. t + c) hist 0
      in if total1 = 0 then 0 else scan_hist hist bounds (quantile_target total1 q) 0 0)"

text \<open>The numbers of a line of the report: successes, failures, average and quantiles.\<close>

definition report_line :: "opStats \<Rightarrow> (u64 \<times> u64 \<times> f64 \<times> rat list) option" where
  "report_line s =
     (if os_ok s + os_fail s = 0 then None
      else Some (os_ok s, os_fail s, if 0 < os_ok s then fdiv (os_latencySum s) (of_go_int (uint (os_ok s))) else Fin 0,
                 map (qFromHist (os_hist s) latency_bounds) [fl (1 / 2), fl (95 / 100), fl (99 / 100)]))"

section \<open>Choices\<close>

text \<open>An accepted mix sends the percentages asked for: of the hundred draws, so many pick each operation.\<close>

lemma buildMix_shares:
  assumes "buildMix cfg = Inr m" "\<not> lc_PutOnly cfg"
  shows "card {v \<in> {0..<100}. pick m v = opPut} = nat (lc_WritePct cfg)"
    and "card {v \<in> {0..<100}. pick m v = opGet} = nat (lc_ReadPct cfg)"
    and "card {v \<in> {0..<100}. pick m v = opDelete} = nat (lc_DeletePct cfg)"
proof -
  have m: "om_putEnd m = lc_WritePct cfg" "om_getEnd m = lc_WritePct cfg + lc_ReadPct cfg" "0 \<le> lc_WritePct cfg" "0 \<le> lc_ReadPct cfg"
    "0 \<le> lc_DeletePct cfg" "lc_ReadPct cfg + lc_WritePct cfg + lc_DeletePct cfg = 100"
    using assms by (auto simp: buildMix_def split: if_splits)
  have "{v \<in> {0..<100}. pick m v = opPut} = {0..<lc_WritePct cfg}" "{v \<in> {0..<100}. pick m v = opGet} = {lc_WritePct cfg..<lc_WritePct cfg + lc_ReadPct cfg}"
    "{v \<in> {0..<100}. pick m v = opDelete} = {lc_WritePct cfg + lc_ReadPct cfg..<100}"
    using m by (auto simp: pick_def split: if_splits)
  then show "card {v \<in> {0..<100}. pick m v = opPut} = nat (lc_WritePct cfg)"
    "card {v \<in> {0..<100}. pick m v = opGet} = nat (lc_ReadPct cfg)"
    "card {v \<in> {0..<100}. pick m v = opDelete} = nat (lc_DeletePct cfg)"
    using m by simp_all
qed

text \<open>The latest picker stays in the key space for every draw, and checked flags prefill at most the key space.\<close>

lemma latest_in_range: "0 < n \<Longrightarrow> 0 \<le> NextKey (latestPicker n) dr \<and> NextKey (latestPicker n) dr < n"
  by (simp add: NextKey_def Let_def)

lemma check_flags_ranges:
  "0 < lc_Clients (check_flags cfg)" "0 < lc_Keyspace (check_flags cfg)" "0 < lc_ValueSize (check_flags cfg)"
  "0 \<le> lc_PrefillKeys (check_flags cfg)" "lc_PrefillKeys (check_flags cfg) \<le> lc_Keyspace (check_flags cfg)"
  by (auto simp: check_flags_def Let_def)

section \<open>The prefill writes every key once\<close>

lemma worker_keys_set:
  assumes "0 < w"
  shows "set (worker_keys w t k) = {j. k \<le> j \<and> j < t \<and> j mod w = k mod w} \<and> distinct (worker_keys w t k)"
  using assms
proof (induction w t k rule: worker_keys.induct)
  case (1 w t k)
  show ?case
  proof (cases "k < t")
    case True
    have step: "{j. k \<le> j \<and> j < t \<and> j mod w = k mod w} = insert k {j. k + w \<le> j \<and> j < t \<and> j mod w = (k + w) mod w}"
    proof -
      have "k + w \<le> j" if j: "k \<le> j" "j mod w = k mod w" "j \<noteq> k" for j
      proof -
        have "w dvd j - k" using j(1,2) by (simp add: mod_eq_dvd_iff_nat)
        moreover have "0 < j - k" using j(1,3) by simp
        ultimately have "w \<le> j - k" by (rule dvd_imp_le)
        then show ?thesis using j(1) by simp
      qed
      then show ?thesis using True by auto
    qed
    have "worker_keys w t k = k # worker_keys w t (k + w)" using True 1(2) by (subst worker_keys.simps) simp
    moreover have "k \<notin> {j. k + w \<le> j \<and> j < t \<and> j mod w = (k + w) mod w}" using 1(2) by simp
    ultimately show ?thesis using 1(1) [OF _ 1(2)] True 1(2) unfolding step by simp
  next
    case False
    then have "worker_keys w t k = []" by (subst worker_keys.simps) simp
    then show ?thesis using False by auto
  qed
qed

lemma prefill_partition:
  assumes "0 < w"
  shows "mset (concat (map (worker_keys w n) [0..<w])) = mset [0..<n]"
proof -
  have one: "set (worker_keys w n i) = {j. j < n \<and> j mod w = i}" "distinct (worker_keys w n i)" if "i < w" for i
  proof -
    have "i \<le> j" if "j mod w = i" for j using that mod_less_eq_dividend [of j w] by simp
    then show "set (worker_keys w n i) = {j. j < n \<and> j mod w = i}" "distinct (worker_keys w n i)"
      using worker_keys_set [OF assms, of n i] that by auto
  qed
  have "distinct (concat (map (worker_keys w n) ids)) \<and> set (concat (map (worker_keys w n) ids)) = {j. j < n \<and> j mod w \<in> set ids}"
    if "distinct ids" "\<forall>i\<in>set ids. i < w" for ids
    using that
  proof (induction ids)
    case (Cons i ids)
    then show ?case using one [of i] by auto
  qed simp
  from this [of "[0..<w]"] show ?thesis using assms
    by (subst set_eq_iff_mset_eq_distinct [symmetric]) auto
qed

section \<open>What the recorder counts\<close>

text \<open>The successful latencies of an operation in a list of observations.\<close>

definition successes :: "operation \<Rightarrow> (operation \<times> int \<times> bool) list \<Rightarrow> f64 list" where
  "successes o1 obs = map (\<lambda>(_, d, _). latency_ms d) (filter (\<lambda>(p, _, failed). p = o1 \<and> \<not> failed) obs)"

definition observe_all :: "(operation \<times> int \<times> bool) list \<Rightarrow> operation \<Rightarrow> opStats" where
  "observe_all obs = fold (\<lambda>(p, d, failed). observe p d failed) obs newRecorder"

lemma bucket_le: "bucket_of bs ms \<le> length bs"
  by (induction bs) simp_all

text \<open>Each bucket counts the latencies that fall into it.\<close>

lemma observe_all_hist:
  "length (os_hist (observe_all obs o1)) = length latency_bounds + 1 \<and>
   (\<forall>i\<le>length latency_bounds. os_hist (observe_all obs o1) ! i = of_nat (length (filter (\<lambda>ms. bucket_of latency_bounds ms = i) (successes o1 obs))))"
proof (induction obs rule: rev_induct)
  case Nil
  then show ?case by (auto simp: observe_all_def newRecorder_def successes_def nth_Cons split: nat.splits)
next
  case (snoc x obs)
  obtain p d failed where x: "x = (p, d, failed)" by (cases x)
  have step: "observe_all (obs @ [x]) = observe p d failed (observe_all obs)" by (simp add: observe_all_def x)
  have succ: "successes o1 (obs @ [x]) = successes o1 obs @ (if p = o1 \<and> \<not> failed then [latency_ms d] else [])"
    by (simp add: successes_def x)
  show ?case
    using snoc bucket_le [of latency_bounds "latency_ms d"]
    by (auto simp: step succ observe_def Let_def nth_list_update)
qed

section \<open>Quantiles are quantiles\<close>

lemma fle_weaken: "fle ms (Fin a) \<Longrightarrow> a \<le> b \<Longrightarrow> fle ms (Fin b)"
  by (cases ms) (auto simp: fle_def feq_def)

lemma bucket_of_le_iff:
  "sorted bs \<Longrightarrow> m < length bs \<Longrightarrow> bucket_of bs ms \<le> m \<longleftrightarrow> fle ms (Fin (bs ! m))"
proof (induction bs arbitrary: m)
  case (Cons b bs)
  show ?case
  proof (cases m)
    case (Suc k)
    then have k: "k < length bs" "sorted bs" "b \<le> bs ! k" using Cons.prems by simp_all
    show ?thesis using Cons.IH [OF k(2,1)] fle_weaken [OF _ k(3)] Suc by simp
  qed simp
qed simp

lemma counts_sum: "sum_list (map (\<lambda>i. length (filter (\<lambda>x. f x = i) xs)) [0..<k]) = length (filter (\<lambda>x. f x < k) xs)"
proof (induction k)
  case (Suc k)
  have "length (filter (\<lambda>x. f x < Suc k) xs) = length (filter (\<lambda>x. f x < k) xs) + length (filter (\<lambda>x. f x = k) xs)"
    by (induction xs) auto
  with Suc show ?case by simp
qed simp

lemma unat_u64: "n < 2 ^ 64 \<Longrightarrow> unat (of_nat n :: u64) = n"
  by (rule of_nat_inverse [OF refl]) simp

text \<open>The scan stops in the first bucket that reaches the target.\<close>

lemma scan_hist_first:
  assumes "c + sum_list h < 2 ^ 64" "c < unat t" "unat t \<le> c + sum_list h"
  shows "\<exists>m<length h. scan_hist (map of_nat h) bs t (of_nat c) i = (if length bs \<le> i + m then last bs else bs ! (i + m))
    \<and> c + sum_list (take m h) < unat t \<and> unat t \<le> c + sum_list (take (Suc m) h)"
  using assms
proof (induction h arbitrary: c i)
  case (Cons a h)
  have word: "of_nat c + of_nat a = (of_nat (c + a) :: u64)" by simp
  have small: "c + a < 2 ^ 64" using Cons.prems(1) by simp
  have le: "t \<le> of_nat (c + a) \<longleftrightarrow> unat t \<le> c + a"
    unfolding word_le_nat_alt using small by (simp only: unat_u64)
  show ?case
  proof (cases "unat t \<le> c + a")
    case True
    then show ?thesis using le Cons.prems(2) by (intro exI [of _ 0]) (simp add: Let_def)
  next
    case False
    obtain m where m: "m < length h" "scan_hist (map of_nat h) bs t (of_nat (c + a)) (Suc i) = (if length bs \<le> Suc i + m then last bs else bs ! (Suc i + m))"
      "c + a + sum_list (take m h) < unat t" "unat t \<le> c + a + sum_list (take (Suc m) h)"
      using Cons.IH [of "c + a" "Suc i"] Cons.prems False by auto
    show ?thesis using m False le by (intro exI [of _ "Suc m"]) (simp add: Let_def word del: of_nat_add)
  qed
qed simp

lemma quantile_target_bounds:
  assumes "0 < n" "n < 2 ^ 53" "0 < x" "x \<le> 1"
  shows "0 < unat (quantile_target (of_nat n) (Fin x)) \<and> unat (quantile_target (of_nat n) (Fin x)) \<le> n"
proof -
  have n64: "n < 2 ^ LENGTH(64)" using assms(2) by simp
  have "uint (of_nat n :: u64) = int n" using n64 by (metis of_nat_inverse uint_nat)
  then have fn: "of_go_int (uint (of_nat n :: u64)) = Fin (of_int (int n))" using of_go_int_exact [of "int n"] assms(2) by simp
  have xn: "0 \<le> of_int (int n) * x" "of_int (int n) * x \<le> of_int (int n)" using assms by (simp_all add: mult_left_le)
  have big: "(of_int (int n) :: rat) \<le> 2 ^ 90"
  proof -
    have "(of_nat n :: rat) < of_nat (2 ^ 53)" using assms(2) by (simp only: of_nat_less_iff)
    then show ?thesis by simp
  qed
  have k: "(of_int (int n) :: rat) = of_int (int n) * 2 powi 0" "0 < int n" "int n < 2 ^ 53" using assms(1,2) by simp_all
  obtain y where y: "fl (of_int (int n) * x) = Fin y" "0 \<le> y" "y \<le> of_int (int n)"
    by (rule fl_between [OF xn k(1) k(2) k(3) _ big]) simp
  define z where "z = nat \<lceil>y\<rceil>"
  have "\<lceil>y\<rceil> \<le> int n" using y(3) by (simp only: ceiling_le_iff)
  then have z: "z \<le> n" "\<lceil>y\<rceil> = int z" using y(2) by (simp_all add: z_def)
  have "ceil_u64 (fmul (of_go_int (uint (of_nat n :: u64))) (Fin x)) = of_nat z"
    using y(1) by (simp add: fn ceil_u64_def z(2))
  moreover have "unat (of_nat z :: u64) = z" using z(1) assms(2) by (intro unat_u64) simp
  ultimately show ?thesis using z(1) assms(1)
    by (cases "z = 0") (auto simp: quantile_target_def Let_def)
qed

lemma observe_all_counts:
  "os_hist (observe_all obs o1) = map of_nat (map (\<lambda>i. length (filter (\<lambda>ms. bucket_of latency_bounds ms = i) (successes o1 obs))) [0..<length latency_bounds + 1])"
  by (rule nth_equalityI) (use observe_all_hist [of obs o1] in \<open>auto simp del: upt_Suc\<close>)

lemma sum_words: "fold (\<lambda>c t. t + c) (map of_nat h) (of_nat c) = (of_nat (c + sum_list h) :: u64)"
  by (induction h arbitrary: c) (simp_all flip: of_nat_add add: add.assoc)

text \<open>How many latencies a bound covers.\<close>

definition covered :: "rat \<Rightarrow> f64 list \<Rightarrow> nat" where
  "covered b lats = length (filter (\<lambda>ms. fle ms (Fin b)) lats)"

lemma quantile_of_hist:
  fixes x :: rat
  assumes "successes o1 obs \<noteq> []" "length (successes o1 obs) < 2 ^ 53" "0 < x" "x \<le> 1"
  defines "n \<equiv> length (successes o1 obs)"
  defines "t \<equiv> unat (quantile_target (of_nat n) (Fin x))"
  shows "1 \<le> t \<and> t \<le> n \<and>
    (\<exists>j<length latency_bounds. qFromHist (os_hist (observe_all obs o1)) latency_bounds (Fin x) = latency_bounds ! j
      \<and> (\<forall>i<j. covered (latency_bounds ! i) (successes o1 obs) < t)
      \<and> (t \<le> covered (latency_bounds ! j) (successes o1 obs) \<or> j = length latency_bounds - 1))"
proof -
  let ?B = latency_bounds and ?f = "bucket_of latency_bounds" and ?xs = "successes o1 obs"
  define h where "h = map (\<lambda>i. length (filter (\<lambda>ms. ?f ms = i) ?xs)) [0..<length ?B + 1]"
  have hist: "os_hist (observe_all obs o1) = map of_nat h" by (simp only: observe_all_counts h_def)
  have n: "0 < n" "n < 2 ^ 53" using assms(1,2) by (simp_all add: n_def)
  have t: "0 < t" "t \<le> n" using quantile_target_bounds [OF n assms(3,4)] by (simp_all add: t_def)
  have cum: "sum_list (take m h) = length (filter (\<lambda>ms. ?f ms < m) ?xs)" if "m \<le> length ?B + 1" for m
    using that by (simp add: h_def take_map counts_sum del: upt_Suc)
  have all: "sum_list h = n"
  proof -
    have "filter (\<lambda>ms. ?f ms < length ?B + 1) ?xs = ?xs" using bucket_le [of ?B] by (simp add: filter_id_conv less_Suc_eq_le)
    then show ?thesis using cum [of "length ?B + 1"] by (simp add: h_def n_def del: upt_Suc)
  qed
  have total: "fold (\<lambda>c t. t + c) (map of_nat h) 0 = (of_nat n :: u64)" using sum_words [of h 0] by (simp add: all)
  have nz: "(of_nat n :: u64) \<noteq> 0" using unat_u64 [of n] n by auto
  obtain m where m: "m < length h" "scan_hist (map of_nat h) ?B (quantile_target (of_nat n) (Fin x)) (of_nat 0) 0 = (if length ?B \<le> 0 + m then last ?B else ?B ! (0 + m))"
    "0 + sum_list (take m h) < t" "t \<le> 0 + sum_list (take (Suc m) h)"
    using scan_hist_first [of 0 h "quantile_target (of_nat n) (Fin x)" ?B 0] t n all by (auto simp: t_def)
  have lenB: "length ?B = 14" "sorted ?B" "last ?B = ?B ! 13" by (simp_all add: latency_bounds_def)
  have lenh: "length h = Suc (length ?B)" by (simp add: h_def)
  define j where "j = (if length ?B \<le> m then length ?B - 1 else m)"
  have res: "qFromHist (os_hist (observe_all obs o1)) ?B (Fin x) = ?B ! j"
    using m(2) nz by (auto simp: qFromHist_def hist total Let_def j_def lenB)
  have up: "covered (?B ! i) ?xs = length (filter (\<lambda>ms. ?f ms < Suc i) ?xs)" if "i < length ?B" for i
    using bucket_of_le_iff [OF lenB(2) that] by (simp add: covered_def less_Suc_eq_le)
  have mono: "length (filter (\<lambda>ms. ?f ms < a) lats) \<le> length (filter (\<lambda>ms. ?f ms < b) lats)" if "a \<le> b" for a b lats
    using that by (induction lats) auto
  have below: "covered (?B ! i) ?xs < t" if "i < j" for i
  proof -
    have "i < length ?B" "Suc i \<le> m" using that by (simp_all add: j_def split: if_splits)
    then show ?thesis using up [of i] mono [of "Suc i" m ?xs] m(1,3) cum [of m] lenh by simp
  qed
  have reach: "t \<le> covered (?B ! j) ?xs \<or> j = length ?B - 1"
  proof (cases "length ?B \<le> m")
    case False
    then show ?thesis using m(4) cum [of "Suc m"] up [of m] by (simp add: j_def)
  qed (simp add: j_def)
  have "j < length ?B" by (auto simp: j_def lenB)
  then show ?thesis using t res below reach by (intro conjI exI [of _ j]) auto
qed



end
