(* ===== verification/Transport.thy ===== *)
theory Transport
  imports Nawst_Prelude
begin

text \<open>
  Outbound credentials: \<^verbatim>\<open>src/cluster/transport.go\<close> and the two functions that install them, \<^verbatim>\<open>ConfigureClientTLS\<close> of the
  replicator and \<^verbatim>\<open>ConfigureTLS\<close> of the router. Files and certificates are arguments.
\<close>

section \<open>Credentials\<close>

record ClientTLSConfig =
  tc_Enabled :: bool
  tc_CACertFile :: string
  tc_ServerName :: string
  tc_InsecureSkipVerify :: bool

datatype credentials = Insecure | TLS string bool "bytes option"

datatype tls_error = ReadCA string string | ParseCA string

text \<open>\<^verbatim>\<open>read_file\<close> reads a file, \<^verbatim>\<open>has_certs\<close> says whether a PEM text holds a certificate.\<close>

definition BuildClientTransportCredentials ::
  "(string \<Rightarrow> string + bytes) \<Rightarrow> (bytes \<Rightarrow> bool) \<Rightarrow> ClientTLSConfig \<Rightarrow> tls_error + credentials" where
  "BuildClientTransportCredentials read_file has_certs cfg =
     (if \<not> tc_Enabled cfg then Inr Insecure
      else if tc_CACertFile cfg \<noteq> []
      then (case read_file (tc_CACertFile cfg) of
              Inl e \<Rightarrow> Inl (ReadCA (tc_CACertFile cfg) e)
            | Inr pem \<Rightarrow>
                if \<not> has_certs pem then Inl (ParseCA (tc_CACertFile cfg))
                else Inr (TLS (tc_ServerName cfg) (tc_InsecureSkipVerify cfg) (Some pem)))
      else Inr (TLS (tc_ServerName cfg) (tc_InsecureSkipVerify cfg) None))"

definition ConfigureClientTLS ::
  "(string \<Rightarrow> string + bytes) \<Rightarrow> (bytes \<Rightarrow> bool) \<Rightarrow> ClientTLSConfig \<Rightarrow> credentials \<Rightarrow> tls_error option \<times> credentials" where
  "ConfigureClientTLS read_file has_certs cfg transportCreds =
     (case BuildClientTransportCredentials read_file has_certs cfg of
        Inl e \<Rightarrow> (Some e, transportCreds)
      | Inr creds \<Rightarrow> (None, creds))"

text \<open>The router keeps the configuration along with the credentials.\<close>

definition ConfigureTLS ::
  "(string \<Rightarrow> string + bytes) \<Rightarrow> (bytes \<Rightarrow> bool) \<Rightarrow> ClientTLSConfig \<Rightarrow> ClientTLSConfig \<times> credentials
   \<Rightarrow> tls_error option \<times> ClientTLSConfig \<times> credentials" where
  "ConfigureTLS read_file has_certs cfg old =
     (case BuildClientTransportCredentials read_file has_certs cfg of
        Inl e \<Rightarrow> (Some e, old)
      | Inr creds \<Rightarrow> (None, cfg, creds))"

definition disabled_tls :: ClientTLSConfig where
  "disabled_tls = \<lparr>tc_Enabled = False, tc_CACertFile = [], tc_ServerName = [], tc_InsecureSkipVerify = False\<rparr>"

text \<open>Configured credentials verify the server, by the configured roots if there are any, unless that is switched off.\<close>

lemma BuildClientTransportCredentials_Inr:
  "BuildClientTransportCredentials read_file has_certs cfg = Inr creds \<longleftrightarrow>
     (if tc_Enabled cfg
      then \<exists>roots. creds = TLS (tc_ServerName cfg) (tc_InsecureSkipVerify cfg) roots
             \<and> (if tc_CACertFile cfg = [] then roots = None else \<exists>pem. read_file (tc_CACertFile cfg) = Inr pem \<and> has_certs pem \<and> roots = Some pem)
      else creds = Insecure)"
  by (auto simp: BuildClientTransportCredentials_def split: sum.splits)

end
