(* ===== verification/Cli.thy ===== *)
theory Cli
  imports Loadgen Transport
begin

text \<open>
  The command line client \<^verbatim>\<open>src/cmd/cli/main.go\<close>: how a line of input becomes a call of the router. Reading the terminal and printing
  are left out; \<^verbatim>\<open>read_file\<close> reads the files of \<^verbatim>\<open>putfile\<close>.
\<close>

section \<open>Words of a line\<close>

definition at_space :: "string \<Rightarrow> bool" where
  "at_space s \<longleftrightarrow> list_ex (\<lambda>r. take (length r) s = r) space_runes"

fun take_word :: "string \<Rightarrow> string \<times> string" where
  "take_word [] = ([], [])"
| "take_word (c # s) = (if at_space (c # s) then ([], c # s) else (case take_word s of (w, rest) \<Rightarrow> (c # w, rest)))"

lemma take_word_append: "take_word s = (w, rest) \<Longrightarrow> s = w @ rest"
  by (induction s arbitrary: w) (auto split: if_splits prod.splits)

text \<open>\<^verbatim>\<open>strings.Fields\<close>.\<close>

function Fields :: "string \<Rightarrow> string list" where
  "Fields s =
     (case strip_runes space_runes s of
        [] \<Rightarrow> []
      | c # cs \<Rightarrow> (case take_word cs of (w, rest) \<Rightarrow> (c # w) # Fields rest))"
  by pat_completeness auto
termination
proof (relation "measure length")
  fix s c cs w rest
  assume *: "strip_runes space_runes s = c # cs" "(w, rest) = take_word cs"
  obtain p where "s = p @ strip_runes space_runes s" using strip_suffix by blast
  then have "s = p @ c # cs" using * by simp
  then have "length cs < length s" by simp
  moreover have "cs = w @ rest" by (rule take_word_append) (simp add: *)
  ultimately show "(rest, s) \<in> measure length" by simp
qed simp

declare Fields.simps [simp del]

section \<open>Commands\<close>

datatype cli_action =
    CliSkip | CliQuit | CliHelp | CliUsage string | CliGet string | CliPut string bytes | CliPutFile string string | CliDelete string | CliUnknown

definition parse_line :: "string \<Rightarrow> cli_action" where
  "parse_line text =
     (let line = TrimSpace text
      in if line = [] then CliSkip
         else (let parts = Fields line; cmd = ToLower (parts ! 0)
               in if cmd = ''quit'' \<or> cmd = ''exit'' then CliQuit
                  else if cmd = ''help'' then CliHelp
                  else if cmd = ''get'' then (if length parts < 2 then CliUsage ''get KEY'' else CliGet (parts ! 1))
                  else if cmd = ''put'' then (if length parts < 3 then CliUsage ''put KEY VALUE'' else CliPut (parts ! 1) (key_bytes (parts ! 2)))
                  else if cmd = ''putfile'' then (if length parts < 3 then CliUsage ''putfile KEY PATH'' else CliPutFile (parts ! 1) (parts ! 2))
                  else if cmd = ''delete'' then (if length parts < 2 then CliUsage ''delete KEY'' else CliDelete (parts ! 1))
                  else CliUnknown))"

datatype cli_output = NoOutput | HelpText | Usage string | GotValue bytes | CliOk | CliError rpc_error | FileError string | UnknownCommand

definition put_output :: "(rpc_error + unit) \<times> 'st \<Rightarrow> cli_output \<times> 'st" where
  "put_output res = (case res of (Inl e, st) \<Rightarrow> (CliError e, st) | (Inr _, st) \<Rightarrow> (CliOk, st))"

text \<open>\<^verbatim>\<open>None\<close> ends the loop.\<close>

definition run_line ::
  "(string \<Rightarrow> u64) \<Rightarrow> (string \<Rightarrow> string option) \<Rightarrow> 'w stubs \<Rightarrow> (string \<Rightarrow> string + bytes) \<Rightarrow> string \<Rightarrow> PlacementRouter \<times> 'w
   \<Rightarrow> (cli_output \<times> PlacementRouter \<times> 'w) option" where
  "run_line hash dial_err stubs read_file text st =
     (case parse_line text of
        CliSkip \<Rightarrow> Some (NoOutput, st)
      | CliQuit \<Rightarrow> None
      | CliHelp \<Rightarrow> Some (HelpText, st)
      | CliUsage u \<Rightarrow> Some (Usage u, st)
      | CliGet key \<Rightarrow> Some (case RouterGet hash dial_err stubs key st of (Inl e, st') \<Rightarrow> (CliError e, st') | (Inr v, st') \<Rightarrow> (GotValue v, st'))
      | CliPut key val \<Rightarrow> Some (put_output (RouterPut hash dial_err stubs key val st))
      | CliPutFile key path \<Rightarrow>
          Some (case read_file path of Inl e \<Rightarrow> (FileError e, st) | Inr dat \<Rightarrow> put_output (RouterPut hash dial_err stubs key dat st))
      | CliDelete key \<Rightarrow> Some (put_output (RouterDelete hash dial_err stubs key st))
      | CliUnknown \<Rightarrow> Some (UnknownCommand, st))"

fun run_lines ::
  "(string \<Rightarrow> u64) \<Rightarrow> (string \<Rightarrow> string option) \<Rightarrow> 'w stubs \<Rightarrow> (string \<Rightarrow> string + bytes) \<Rightarrow> string list \<Rightarrow> PlacementRouter \<times> 'w
   \<Rightarrow> cli_output list \<times> PlacementRouter \<times> 'w" where
  "run_lines hash dial_err stubs read_file [] st = ([], st)"
| "run_lines hash dial_err stubs read_file (l # ls) st =
     (case run_line hash dial_err stubs read_file l st of
        None \<Rightarrow> ([], st)
      | Some (out, st') \<Rightarrow> (case run_lines hash dial_err stubs read_file ls st' of (outs, st'') \<Rightarrow> (out # outs, st'')))"

text \<open>\<^verbatim>\<open>main\<close>: a failed first refresh is only logged.\<close>

record cli_flags =
  cf_addr :: string
  cf_rpcTimeout :: int
  cf_tls :: ClientTLSConfig

definition default_cli :: cli_flags where
  "default_cli = \<lparr>cf_addr = ''localhost:9999'', cf_rpcTimeout = 5 * time_Second, cf_tls = disabled_tls\<rparr>"

definition cli_main ::
  "(string \<Rightarrow> u64) \<Rightarrow> (string \<Rightarrow> string option) \<Rightarrow> 'w stubs \<Rightarrow> (string \<Rightarrow> string + bytes) \<Rightarrow> (bytes \<Rightarrow> bool) \<Rightarrow> cli_flags \<Rightarrow> string list \<Rightarrow> 'w
   \<Rightarrow> tls_error + cli_output list \<times> PlacementRouter \<times> 'w" where
  "cli_main hash dial_err stubs read_file has_certs fs input w =
     (case ConfigureTLS read_file has_certs (cf_tls fs) (disabled_tls, Insecure) of
        (Some e, _) \<Rightarrow> Inl e
      | (None, _) \<Rightarrow>
          (case Refresh dial_err (stub_State stubs) (NewPlacementRouter (cf_addr fs), w) of
             (_, st) \<Rightarrow> (case run_lines hash dial_err stubs read_file input st of (outs, rt, w') \<Rightarrow> Inr (outs, CloseRouter rt, w'))))"

section \<open>A typed key reaches the router unchanged\<close>

text \<open>A word: not empty, and no space character starts anywhere in it.\<close>

fun spaceless :: "string \<Rightarrow> bool" where
  "spaceless [] = True"
| "spaceless (c # s) = (\<not> at_space [c] \<and> c \<notin> {CHR 0xC2, CHR 0xE1, CHR 0xE2, CHR 0xE3} \<and> spaceless s)"

lemma at_space_char: "\<not> at_space [c] \<Longrightarrow> c \<notin> {CHR 0xC2, CHR 0xE1, CHR 0xE2, CHR 0xE3} \<Longrightarrow> \<not> at_space (c # s)"
  by (auto simp: at_space_def space_runes_def)

lemma take_word_spaceless: "spaceless w \<Longrightarrow> take_word (w @ CHR '' '' # s) = (w, CHR '' '' # s)" "spaceless w \<Longrightarrow> take_word w = (w, [])"
proof -
  have "at_space (CHR '' '' # s)" by (simp add: at_space_def space_runes_def)
  then show "spaceless w \<Longrightarrow> take_word (w @ CHR '' '' # s) = (w, CHR '' '' # s)" by (induction w) (auto simp: at_space_char)
  show "spaceless w \<Longrightarrow> take_word w = (w, [])" by (induction w) (auto simp: at_space_char)
qed

lemma strip_spaceless: "spaceless (c # w) \<Longrightarrow> strip_runes space_runes (c # w @ s) = c # w @ s"
proof -
  assume "spaceless (c # w)"
  then have "\<not> at_space (c # w @ s)" using at_space_char [of c "w @ s"] by simp
  then have "List.find (\<lambda>r. r \<noteq> [] \<and> take (length r) (c # w @ s) = r) space_runes = None"
    by (auto simp: at_space_def list_ex_iff find_None_iff)
  then show ?thesis by (subst strip_runes.simps) simp
qed

lemma strip_blank: "strip_runes space_runes (CHR '' '' # s) = strip_runes space_runes s"
proof -
  have "List.find (\<lambda>r. r \<noteq> [] \<and> take (length r) (CHR '' '' # s) = r) space_runes = Some '' ''" by (simp add: space_runes_def)
  then show ?thesis by (subst strip_runes.simps) simp
qed

lemma Fields_word: "spaceless w \<Longrightarrow> w \<noteq> [] \<Longrightarrow> Fields (w @ CHR '' '' # s) = w # Fields (CHR '' '' # s)" "spaceless w \<Longrightarrow> w \<noteq> [] \<Longrightarrow> Fields w = [w]"
proof -
  assume w: "spaceless w" "w \<noteq> []"
  then obtain c v where cv: "w = c # v" "spaceless v" by (cases w) auto
  have "Fields (c # v @ CHR '' '' # s) = (c # v) # Fields (CHR '' '' # s)"
    using w cv strip_spaceless [of c v "CHR '' '' # s"] by (subst Fields.simps) (simp add: take_word_spaceless)
  then show "Fields (w @ CHR '' '' # s) = w # Fields (CHR '' '' # s)" by (simp add: cv)
  have "strip_runes space_runes [] = []" by (subst strip_runes.simps) (simp add: space_runes_def)
  then have nil: "Fields [] = []" by (subst Fields.simps) simp
  show "Fields w = [w]"
    using w cv strip_spaceless [of c v "[]"] nil by (subst Fields.simps) (simp add: take_word_spaceless)
qed

lemma Fields_blank: "Fields (CHR '' '' # s) = Fields s"
  by (subst (1 2) Fields.simps) (simp add: strip_blank)

text \<open>A \<^verbatim>\<open>put\<close> of two words is a put of that key and value.\<close>

lemma parse_put:
  assumes "spaceless key" "key \<noteq> []" "spaceless val" "val \<noteq> []" "TrimSpace (''put '' @ key @ '' '' @ val) = ''put '' @ key @ '' '' @ val"
  shows "parse_line (''put '' @ key @ '' '' @ val) = CliPut key (key_bytes val)"
proof -
  have put: "spaceless ''put''" by code_simp
  have low: "ToLower ''put'' = ''put''" by code_simp
  have "Fields (''put'' @ CHR '' '' # key @ CHR '' '' # val) = [''put'', key, val]"
    using Fields_word(1) [OF put] Fields_word(1) [OF assms(1,2)] Fields_word(2) [OF assms(3,4)] by (simp add: Fields_blank)
  then have "Fields (''put '' @ key @ '' '' @ val) = [''put'', key, val]" by simp
  then show ?thesis unfolding parse_line_def assms(5) by (simp add: Let_def low)
qed

end
