(* ===== verification/Load_Phase.thy ===== *)
theory Load_Phase
  imports Loadgen Transport
begin

text \<open>
  The phases of the workload driver \<^verbatim>\<open>src/cmd/loadgen/main.go\<close>: the flags, the loop of a worker with its pace, snapshots of the recorder, the
  final report, and \<^verbatim>\<open>main\<close>. The clock readings, the random draws and what the other workers do in between are arguments.
\<close>

section \<open>Flags\<close>

definition default_config :: "int \<Rightarrow> LoadConfig" where
  "default_config now =
     \<lparr>lc_Addr = ''localhost:9999'', lc_Clients = 128, lc_Conns = 32, lc_Timeout = 3 * time_Second, lc_TLSEnable = False,
      lc_TLSCACertFile = [], lc_TLSServerName = [], lc_TLSInsecureSkip = False, lc_ValueSize = 512, lc_Keyspace = 300000,
      lc_PrefillKeys = 120000, lc_Warmup = 30 * time_Second, lc_Duration = 300 * time_Second, lc_ProgressEvery = 5 * time_Second,
      lc_Distribution = ''zipf'', lc_ZipfS = fl (110 / 100), lc_ZipfV = Fin 1, lc_ReadPct = 80, lc_WritePct = 15, lc_DeletePct = 5,
      lc_TargetOpsPerSec = 0, lc_Seed = now, lc_PutOnly = False, lc_UseStream = False\<rparr>"

section \<open>A worker\<close>

record 'w load_env =
  ld_hash :: "string \<Rightarrow> u64"
  ld_dial_err :: "string \<Rightarrow> string option"
  ld_stubs :: "'w stubs"

text \<open>One round of the loop: the clock at its test, before and after the operation, and the draws.\<close>

record iteration =
  it_now :: int
  it_started :: int
  it_ended :: int
  it_pick :: int
  it_draws :: draws

type_synonym observation = "operation \<times> int \<times> bool"

definition worker_op ::
  "'w load_env \<Rightarrow> LoadConfig \<Rightarrow> opMix \<Rightarrow> keyPicker \<Rightarrow> bytes \<Rightarrow> iteration \<Rightarrow> PlacementRouter \<times> 'w \<Rightarrow> observation \<times> PlacementRouter \<times> 'w" where
  "worker_op env cfg mix picker val it st =
     (let o1 = (if lc_UseStream cfg then opPut else pick mix (it_pick it));
          (err, st') = doOp (ld_hash env) (ld_dial_err env) (ld_stubs env) o1 (pickKey cfg picker (it_draws it)) val st
      in ((o1, it_ended it - it_started it, err \<noteq> None), st'))"

definition worker_sleep :: "int \<Rightarrow> int \<Rightarrow> int" where
  "worker_sleep pace elapsed = (if 0 < pace then (let s = pace - elapsed in if 0 < s then s else 0) else 0)"

text \<open>
  The loop runs until the clock reaches \<^verbatim>\<open>stopAt\<close>; \<open>others i\<close> is what happened to router and servers before round \<open>i\<close>. The result has the number
  of rounds and what they observed.
\<close>

partial_function (option) worker_loop ::
  "'w load_env \<Rightarrow> LoadConfig \<Rightarrow> opMix \<Rightarrow> keyPicker \<Rightarrow> bytes \<Rightarrow> int \<Rightarrow> (nat \<Rightarrow> PlacementRouter \<times> 'w \<Rightarrow> PlacementRouter \<times> 'w)
   \<Rightarrow> (nat \<Rightarrow> iteration) \<Rightarrow> nat \<Rightarrow> PlacementRouter \<times> 'w \<Rightarrow> (nat \<times> observation list \<times> PlacementRouter \<times> 'w) option" where
  "worker_loop env cfg mix picker val stopAt others its i st =
     (if it_now (its i) < stopAt
      then (case worker_op env cfg mix picker val (its i) (others i st) of
              (ob, st') \<Rightarrow>
                Option.bind (worker_loop env cfg mix picker val stopAt others its (Suc i) st')
                  (\<lambda>(n, obs, st''). Some (n, ob # obs, st'')))
      else Some (i, [], st))"

text \<open>
  A worker of a phase, which ends at once when it cannot build its picker; \<^verbatim>\<open>letters\<close> are the draws for its value.
\<close>

definition phase_worker ::
  "'w load_env \<Rightarrow> LoadConfig \<Rightarrow> (f64 \<Rightarrow> f64 \<Rightarrow> u64 \<Rightarrow> bool) \<Rightarrow> opMix \<Rightarrow> nat list \<Rightarrow> int \<Rightarrow> (nat \<Rightarrow> PlacementRouter \<times> 'w \<Rightarrow> PlacementRouter \<times> 'w)
   \<Rightarrow> (nat \<Rightarrow> iteration) \<Rightarrow> PlacementRouter \<times> 'w \<Rightarrow> (nat \<times> observation list \<times> PlacementRouter \<times> 'w) option" where
  "phase_worker env cfg zipf_ok mix letters stopAt others its st =
     (case buildPicker zipf_ok cfg of
        Inl _ \<Rightarrow> Some (0, [], st)
      | Inr picker \<Rightarrow> worker_loop env cfg mix picker (randomValue letters) stopAt others its 0 st)"

section \<open>Recorder and report\<close>

record recorder =
  rc_perOp :: "operation \<Rightarrow> opStats"
  rc_started :: int

text \<open>\<^verbatim>\<open>runPhase\<close>: the observations of all workers, in the order in which they took the recorder's lock.\<close>

definition phase_recorder :: "bool \<Rightarrow> int \<Rightarrow> observation list \<Rightarrow> recorder" where
  "phase_recorder measured start obs =
     \<lparr>rc_perOp = (if measured then fold (\<lambda>(o1, d, failed). observe o1 d failed) obs newRecorder else newRecorder), rc_started = start\<rparr>"

record snapshot =
  sn_elapsed :: int
  sn_perOp :: "operation \<Rightarrow> opStats"

definition take_snapshot :: "int \<Rightarrow> recorder \<Rightarrow> snapshot" where
  "take_snapshot now rec = \<lparr>sn_elapsed = now - rc_started rec, sn_perOp = rc_perOp rec\<rparr>"

definition max_float :: "f64 \<Rightarrow> f64 \<Rightarrow> f64" where
  "max_float a b = (if flt b a then a else b)"

text \<open>The throughput of the progress lines and of the prefill.\<close>

definition throughput :: "u64 \<Rightarrow> int \<Rightarrow> f64" where
  "throughput okCount elapsed = fdiv (of_go_int (uint okCount)) (max_float (Seconds elapsed) (fl (1 / 10 ^ 9)))"

record report =
  pr_ok :: u64
  pr_fail :: u64
  pr_rate :: "f64 option"
  pr_throughput :: f64
  pr_lines :: "(string \<times> u64 \<times> u64 \<times> f64 \<times> rat list) list"

definition printReport :: "snapshot \<Rightarrow> report" where
  "printReport snap =
     (let okCount = totalOK (sn_perOp snap); failCount = totalFail (sn_perOp snap);
          elapsedSec = (if fle (Seconds (sn_elapsed snap)) (Fin 0) then Fin 1 else Seconds (sn_elapsed snap))
      in \<lparr>pr_ok = okCount, pr_fail = failCount,
          pr_rate = (if okCount + failCount > 0
                     then Some (fdiv (fmul (Fin 100) (of_go_int (uint okCount))) (of_go_int (uint (okCount + failCount)))) else None),
          pr_throughput = fdiv (of_go_int (uint okCount)) elapsedSec,
          pr_lines = List.map_filter (\<lambda>o1. map_option (\<lambda>l. (op_String o1, l)) (report_line (sn_perOp snap o1))) [opPut, opGet, opDelete]\<rparr>)"

section \<open>Prefill and main\<close>

text \<open>The puts of the prefill in the order in which they happen, each with the value of its worker, and the counts of successes and failures.\<close>

fun prefill_puts ::
  "'w load_env \<Rightarrow> (string \<times> bytes) list \<Rightarrow> u64 \<times> u64 \<Rightarrow> PlacementRouter \<times> 'w \<Rightarrow> (u64 \<times> u64) \<times> PlacementRouter \<times> 'w" where
  "prefill_puts env [] counts st = (counts, st)"
| "prefill_puts env ((key, val) # puts) (okCount, failCount) st =
     (case RouterPut (ld_hash env) (ld_dial_err env) (ld_stubs env) key val st of
        (Inl _, st') \<Rightarrow> prefill_puts env puts (okCount, failCount + 1) st'
      | (Inr _, st') \<Rightarrow> prefill_puts env puts (okCount + 1, failCount) st')"

definition load_tls :: "LoadConfig \<Rightarrow> ClientTLSConfig" where
  "load_tls cfg =
     \<lparr>tc_Enabled = lc_TLSEnable cfg, tc_CACertFile = lc_TLSCACertFile cfg, tc_ServerName = lc_TLSServerName cfg,
      tc_InsecureSkipVerify = lc_TLSInsecureSkip cfg\<rparr>"

datatype load_failure = LoadTLS tls_error | LoadMix mix_error

text \<open>The router of \<^verbatim>\<open>main\<close> with its first refresh, whose failure is only logged.\<close>

definition load_start ::
  "'w load_env \<Rightarrow> (string \<Rightarrow> string + bytes) \<Rightarrow> (bytes \<Rightarrow> bool) \<Rightarrow> LoadConfig \<Rightarrow> 'w \<Rightarrow> tls_error + PlacementRouter \<times> 'w" where
  "load_start env read_file has_certs cfg w =
     (case ConfigureTLS read_file has_certs (load_tls cfg) (disabled_tls, Insecure) of
        (Some e, _) \<Rightarrow> Inl e
      | (None, _) \<Rightarrow>
          (case Refresh (ld_dial_err env) (stub_State (ld_stubs env)) (NewPlacementRouterWithPoolSize (lc_Addr cfg) (lc_Conns cfg), w) of
             (_, st) \<Rightarrow> Inr st))"

text \<open>
  \<^verbatim>\<open>main\<close> up to the first phase, which ends the program when the mix is not valid: only after the prefill has written its keys.
\<close>

definition load_main ::
  "'w load_env \<Rightarrow> (string \<Rightarrow> string + bytes) \<Rightarrow> (bytes \<Rightarrow> bool) \<Rightarrow> LoadConfig \<Rightarrow> (string \<times> bytes) list \<Rightarrow> 'w
   \<Rightarrow> (load_failure + opMix \<times> (u64 \<times> u64)) \<times> (PlacementRouter \<times> 'w) option" where
  "load_main env read_file has_certs flags puts w =
     (let cfg = check_flags flags
      in (case load_start env read_file has_certs cfg w of
            Inl e \<Rightarrow> (Inl (LoadTLS e), None)
          | Inr st \<Rightarrow>
              (let (counts, st') = prefill_puts env puts (0, 0) st
               in (case buildMix cfg of Inl e \<Rightarrow> (Inl (LoadMix e), Some st') | Inr mix \<Rightarrow> (Inr (mix, counts), Some st')))))"

section \<open>Counting\<close>

lemma prefill_puts_counts:
  "prefill_puts env puts (a, b) st = ((a', b'), st') \<Longrightarrow> a' + b' = a + b + of_nat (length puts)"
  by (induction env puts "(a, b)" st arbitrary: a b rule: prefill_puts.induct)
    (auto simp: algebra_simps split: prod.splits sum.splits)

lemma observe_total:
  "totalOK (observe o1 d failed rec) + totalFail (observe o1 d failed rec) = totalOK rec + totalFail rec + 1"
  by (cases o1) (simp_all add: observe_def totalOK_def totalFail_def Let_def)

lemma recorder_total:
  "totalOK (rc_perOp (phase_recorder True start obs)) + totalFail (rc_perOp (phase_recorder True start obs)) = of_nat (length obs)"
proof (induction obs rule: rev_induct)
  case (snoc x obs)
  then show ?case by (cases x) (simp add: phase_recorder_def observe_total)
qed (simp add: phase_recorder_def totalOK_def totalFail_def newRecorder_def)

section \<open>Phases end\<close>

text \<open>The clock between the rounds of a worker: it goes on, and \<^verbatim>\<open>time.Sleep\<close> lasts at least as long as asked.\<close>

definition clock_ok :: "int \<Rightarrow> (nat \<Rightarrow> iteration) \<Rightarrow> bool" where
  "clock_ok pace its \<longleftrightarrow>
     (\<forall>i. it_now (its i) \<le> it_started (its i) \<and> it_started (its i) \<le> it_ended (its i)
        \<and> it_now (its i) < it_now (its (Suc i))
        \<and> it_ended (its i) + worker_sleep pace (it_ended (its i) - it_started (its i)) \<le> it_now (its (Suc i)))"

lemma clock_advances:
  assumes "clock_ok pace its"
  shows "it_now (its i) + max 1 pace \<le> it_now (its (Suc i))"
  using assms unfolding clock_ok_def worker_sleep_def Let_def by (smt (verit))

lemma clock_after:
  assumes "clock_ok pace its"
  shows "it_now (its i) + int k * max 1 pace \<le> it_now (its (i + k))"
proof (induction k)
  case (Suc k)
  then show ?case using clock_advances [OF assms, of "i + k"] by (simp add: algebra_simps)
qed simp

lemma worker_loop_ends:
  assumes "clock_ok pace its" "nat (stopAt - it_now (its i)) \<le> fuel"
  shows "\<exists>n obs st'. worker_loop env cfg mix picker val stopAt others its i st = Some (n, obs, st') \<and> i \<le> n \<and> length obs = n - i
    \<and> stopAt \<le> it_now (its n) \<and> (\<forall>j. i \<le> j \<and> j < n \<longrightarrow> it_now (its j) < stopAt)"
  using assms(2)
proof (induction fuel arbitrary: i st)
  case 0
  then show ?case by (subst worker_loop.simps) simp
next
  case (Suc fuel)
  show ?case
  proof (cases "it_now (its i) < stopAt")
    case True
    obtain ob st1 where op: "worker_op env cfg mix picker val (its i) (others i st) = (ob, st1)" by (metis surj_pair)
    have "nat (stopAt - it_now (its (Suc i))) \<le> fuel" using Suc.prems clock_advances [OF assms(1), of i] True by linarith
    from Suc.IH [OF this, of st1] obtain n obs st' where
      n: "worker_loop env cfg mix picker val stopAt others its (Suc i) st1 = Some (n, obs, st')" "Suc i \<le> n" "length obs = n - Suc i"
        "stopAt \<le> it_now (its n)" "\<forall>j. Suc i \<le> j \<and> j < n \<longrightarrow> it_now (its j) < stopAt" by blast
    have "worker_loop env cfg mix picker val stopAt others its i st = Some (n, ob # obs, st')"
      using True op n(1) by (subst worker_loop.simps) simp
    moreover have "\<forall>j. i \<le> j \<and> j < n \<longrightarrow> it_now (its j) < stopAt" using n(5) True by (metis Suc_leI le_neq_implies_less)
    ultimately show ?thesis using n(2-4) by (intro exI [of _ n] exI [of _ "ob # obs"] exI [of _ st']) simp
  next
    case False
    then show ?thesis by (subst worker_loop.simps) simp
  qed
qed

section \<open>Properties\<close>

text \<open>
  C40. A phase ends and keeps its pace: if the clock goes on and sleeping takes as long as asked, a worker's loop returns, it has made one
  operation per round, and it makes at most one operation per pace (at most one per nanosecond without a pace) in the phase's duration, the
  first not counted.
\<close>

theorem worker_terminates:
  assumes "clock_ok (perWorkerPace cfg) its" "start \<le> it_now (its 0)"
  shows "\<exists>n obs st'. phase_worker env cfg zipf_ok mix letters (start + lc_Duration cfg) others its st = Some (n, obs, st') \<and> length obs = n
    \<and> (n = 0 \<or> (int n - 1) * max 1 (perWorkerPace cfg) < lc_Duration cfg)"
proof (cases "buildPicker zipf_ok cfg")
  case (Inr picker)
  let ?stop = "start + lc_Duration cfg"
  from worker_loop_ends [where stopAt = ?stop and i = 0 and env = env and cfg = cfg and mix = mix and picker = picker
      and val = "randomValue letters" and others = others and st = st, OF assms(1) order_refl] obtain n obs st' where
    n: "worker_loop env cfg mix picker (randomValue letters) ?stop others its 0 st = Some (n, obs, st')" "length obs = n"
      "\<forall>j. j < n \<longrightarrow> it_now (its j) < ?stop" by auto
  have "(int n - 1) * max 1 (perWorkerPace cfg) < lc_Duration cfg" if "n \<noteq> 0"
  proof -
    have "it_now (its 0) + int (n - 1) * max 1 (perWorkerPace cfg) \<le> it_now (its (n - 1))" using clock_after [OF assms(1), of 0 "n - 1"] by simp
    moreover have "it_now (its (n - 1)) < ?stop" using n(3) that by simp
    ultimately show ?thesis using assms(2) that by (simp add: of_nat_diff)
  qed
  then show ?thesis using n(1,2) Inr by (intro exI [of _ n] exI [of _ obs] exI [of _ st']) (auto simp: phase_worker_def)
qed (simp add: phase_worker_def)

text \<open>Servers that answer, a clock that advances ten nanoseconds per round, and a short phase.\<close>

definition calm_load :: "unit load_env" where
  "calm_load = \<lparr>ld_hash = (\<lambda>_. 0), ld_dial_err = (\<lambda>_. None),
     ld_stubs = \<lparr>stub_Get = (\<lambda>_ _ _ w. (Inr ([], 0), w)), stub_Put = (\<lambda>_ _ _ w. (Inr (), w)), stub_Delete = (\<lambda>_ _ w. (Inr (), w)),
                 stub_State = (\<lambda>_ w. (Inl BootstrapEmpty, w))\<rparr>\<rparr>"

definition steady_clock :: "nat \<Rightarrow> iteration" where
  "steady_clock i = \<lparr>it_now = 10 * int i, it_started = 10 * int i + 1, it_ended = 10 * int i + 5, it_pick = 50,
     it_draws = \<lparr>dr_Intn = (\<lambda>_. 0), dr_Pow4 = Fin 0, dr_Zipf = 3\<rparr>\<rparr>"

definition short_phase :: LoadConfig where
  "short_phase = (default_config 0)\<lparr>lc_Duration := 1000\<rparr>"

theorem worker_terminates_witness:
  "\<exists>n obs st'. phase_worker calm_load short_phase (\<lambda>_ _ _. True) \<lparr>om_putEnd = 15, om_getEnd = 95\<rparr> [1, 2] 1000 (\<lambda>_ st. st) steady_clock
     (NewPlacementRouter ''a:1'', ()) = Some (n, obs, st') \<and> length obs = n \<and> n \<le> 1000"
proof -
  have pace: "perWorkerPace short_phase = 0" and dur: "lc_Duration short_phase = 1000"
    by (simp_all add: short_phase_def perWorkerPace_def default_config_def)
  have clock: "clock_ok (perWorkerPace short_phase) steady_clock" unfolding pace by (simp add: clock_ok_def worker_sleep_def steady_clock_def)
  have "0 \<le> it_now (steady_clock 0)" by (simp add: steady_clock_def)
  from worker_terminates [OF clock this, of calm_load "\<lambda>_ _ _. True" "\<lparr>om_putEnd = 15, om_getEnd = 95\<rparr>" "[1, 2]" "\<lambda>_ st. st"
      "(NewPlacementRouter ''a:1'', ())"]
  obtain n obs st' where "phase_worker calm_load short_phase (\<lambda>_ _ _. True) \<lparr>om_putEnd = 15, om_getEnd = 95\<rparr> [1, 2] 1000 (\<lambda>_ st. st) steady_clock
     (NewPlacementRouter ''a:1'', ()) = Some (n, obs, st')" "length obs = n" "n = 0 \<or> int n - 1 < 1000"
    unfolding pace dur by auto
  then show ?thesis by (intro exI [of _ n] exI [of _ obs] exI [of _ st']) auto
qed

end
