(* ===== verification/Target_Counts.thy ===== *)
theory Target_Counts
  imports Placement
begin

text \<open>
  \<^verbatim>\<open>GetTargetVNodeCount\<close> of \<^verbatim>\<open>src/cluster/placement.go\<close>: the number of vnodes each node deserves,
  in inverse proportion to its score, by largest remainders. The proof that the numbers always add up
  to 1024 follows the rounding error of every floating point step.
\<close>

section \<open>Definition\<close>

definition weight :: "NodeInfo \<Rightarrow> f64" where
  "weight n =
     (let s = ni_Score n;
          s' = (if flt s (Fin 0) \<or> IsNaN s \<or> IsInf s then Fin 1 else s)
      in fdiv (Fin 1) (fadd s' f64_nano))"

record alloc =
  al_id :: string
  al_base :: int
  al_frac :: f64

definition alloc_of :: "f64 \<Rightarrow> NodeInfo \<Rightarrow> alloc" where
  "alloc_of tot n =
     (let ideal = fmul (fdiv (weight n) tot) (of_go_int (int VNodeCount));
          base = floor_int ideal
      in \<lparr>al_id = ni_ID n, al_base = base, al_frac = fsub ideal (of_go_int base)\<rparr>)"

definition alloc_less :: "alloc \<Rightarrow> alloc \<Rightarrow> bool" where
  "alloc_less a b = (if feq (al_frac a) (al_frac b) then al_id a < al_id b else flt (al_frac b) (al_frac a))"

fun even_split :: "int \<Rightarrow> int \<Rightarrow> NodeInfo list \<Rightarrow> (string, int) fmap \<Rightarrow> (string, int) fmap" where
  "even_split each rem [] counts = counts"
| "even_split each rem (n # ns) counts =
     even_split each (rem - 1) ns (fmupd (ni_ID n) (if 0 < rem then each + 1 else each) counts)"

fun set_bases :: "alloc list \<Rightarrow> (string, int) fmap \<Rightarrow> (string, int) fmap" where
  "set_bases [] counts = counts"
| "set_bases (a # as) counts = set_bases as (fmupd (al_id a) (al_base a) counts)"

fun add_rest :: "nat \<Rightarrow> alloc list \<Rightarrow> (string, int) fmap \<Rightarrow> placement_panic + (string, int) fmap" where
  "add_rest 0 as counts = Inr counts"
| "add_rest (Suc k) [] counts = Inl IndexPanic"
| "add_rest (Suc k) (a # as) counts = add_rest k as (fmupd (al_id a) (get0 counts (al_id a) + 1) counts)"

definition weight_total :: "NodeInfo list \<Rightarrow> f64" where
  "weight_total nodes = fold (\<lambda>n tot. fadd tot (weight n)) nodes (Fin 0)"

definition GetTargetVNodeCount :: "NodeInfo list \<Rightarrow> placement_panic + (string, int) fmap" where
  "GetTargetVNodeCount nodes =
     (if nodes = [] then Inr fmempty
      else (let tot = weight_total nodes
            in if fle tot (Fin 0) \<or> IsNaN tot \<or> IsInf tot
               then Inr (even_split (int VNodeCount div int (length nodes)) (int VNodeCount mod int (length nodes)) nodes fmempty)
               else (let allocs = map (alloc_of tot) nodes;
                         assigned = sum_list (map al_base allocs);
                         sorted_allocs = sort_by alloc_less allocs
                     in add_rest (nat (int VNodeCount - assigned)) sorted_allocs (set_bases sorted_allocs fmempty))))"

text \<open>The remainders are compared by a total order, so sorting them has one result.\<close>

interpretation alloc_order: sort_order alloc_less "{a :: alloc. al_frac a \<noteq> NaN}" al_id
proof
  fix a b c :: alloc
  assume "a \<in> {a. al_frac a \<noteq> NaN}" "b \<in> {a. al_frac a \<noteq> NaN}" "c \<in> {a. al_frac a \<noteq> NaN}"
  then show "alloc_less a b \<Longrightarrow> alloc_less b c \<Longrightarrow> alloc_less a c"
    by (cases "al_frac a"; cases "al_frac b"; cases "al_frac c") (auto simp: alloc_less_def feq_def split: if_splits)
next
  fix a b :: alloc
  assume "a \<in> {a. al_frac a \<noteq> NaN}" "b \<in> {a. al_frac a \<noteq> NaN}" "al_id a \<noteq> al_id b"
  then show "alloc_less a b \<or> alloc_less b a"
    by (cases "al_frac a"; cases "al_frac b") (auto simp: alloc_less_def feq_def)
qed (auto simp: alloc_less_def feq_def)

section \<open>Counting\<close>

lemma fm_sum_even_split:
  assumes "distinct (map ni_ID ns)" "\<forall>n\<in>set ns. fmlookup counts (ni_ID n) = None"
  shows "fm_sum (\<lambda>n. n) (even_split each r ns counts) =
    fm_sum (\<lambda>n. n) counts + each * int (length ns) + min (max 0 r) (int (length ns))"
  using assms
proof (induction ns arbitrary: r counts)
  case (Cons n ns)
  have "\<forall>m\<in>set ns. fmlookup (fmupd (ni_ID n) (if 0 < r then each + 1 else each) counts) (ni_ID m) = None"
    using Cons.prems by auto
  with Cons show ?case by (auto simp: go_simps algebra_simps)
qed simp

lemma even_split_lookup:
  "fmlookup (even_split each r ns counts) k = Some v \<Longrightarrow> fmlookup counts k = Some v \<or> k \<in> ni_ID ` set ns \<and> (v = each \<or> v = each + 1)"
  by (induction ns arbitrary: r counts) (fastforce split: if_splits)+

lemma set_bases_lookup:
  "fmlookup (set_bases as counts) k = Some v \<Longrightarrow> fmlookup counts k = Some v \<or> (\<exists>a\<in>set as. k = al_id a \<and> v = al_base a)"
  by (induction as arbitrary: counts) (fastforce split: if_splits)+

lemma fm_sum_set_bases:
  assumes "distinct (map al_id as)" "\<forall>a\<in>set as. fmlookup counts (al_id a) = None"
  shows "fm_sum (\<lambda>n. n) (set_bases as counts) = fm_sum (\<lambda>n. n) counts + sum_list (map al_base as)"
  using assms
proof (induction as arbitrary: counts)
  case (Cons a as)
  have "\<forall>b\<in>set as. fmlookup (fmupd (al_id a) (al_base a) counts) (al_id b) = None"
    using Cons.prems by auto
  with Cons show ?case by (auto simp: go_simps)
qed simp

lemma fm_sum_incr: "fm_sum (\<lambda>n. n) (fmupd k (get0 m k + 1) m) = fm_sum (\<lambda>n. n) m + (1 :: int)"
  by (simp add: go_simps get0_def split: option.splits)

lemma add_rest_ok:
  assumes "k \<le> length as" "distinct (map al_id as)"
  shows "\<exists>c. add_rest k as counts = Inr c \<and> fm_sum (\<lambda>n. n) c = fm_sum (\<lambda>n. n) counts + int k
    \<and> (\<forall>i v. fmlookup c i = Some v \<longrightarrow> fmlookup counts i = Some v
        \<or> i \<in> al_id ` set as \<and> v = get0 counts i + 1)"
  using assms
proof (induction k as counts rule: add_rest.induct)
  case (3 k a as counts)
  then obtain c where "add_rest k as (fmupd (al_id a) (get0 counts (al_id a) + 1) counts) = Inr c"
    "fm_sum (\<lambda>n. n) c = fm_sum (\<lambda>n. n) (fmupd (al_id a) (get0 counts (al_id a) + 1) counts) + int k"
    "\<forall>i v. fmlookup c i = Some v \<longrightarrow> fmlookup (fmupd (al_id a) (get0 counts (al_id a) + 1) counts) i = Some v
        \<or> i \<in> al_id ` set as \<and> v = get0 (fmupd (al_id a) (get0 counts (al_id a) + 1) counts) i + 1" by auto
  with 3(3) show ?case
    by (auto simp: fm_sum_incr get0_upd split: if_splits)
qed auto

section \<open>Rounding errors\<close>

lemma weight_Fin:
  obtains w where "weight n = Fin w" "0 \<le> w" "w \<le> 2 ^ 33" "w = 0 \<or> f64_small \<le> w"
proof -
  obtain e where nano: "f64_nano = Fin e" and e: "1 / 2 ^ 30 \<le> e" by (rule f64_nano_Fin)
  have e0: "0 < e" by (rule less_le_trans [OF _ e]) simp
  have "\<exists>s\<ge>0. (if flt (ni_Score n) (Fin 0) \<or> IsNaN (ni_Score n) \<or> IsInf (ni_Score n) then Fin 1 else ni_Score n) = Fin s"
    by (cases "ni_Score n") auto
  then obtain s where s: "0 \<le> s"
    and s': "(if flt (ni_Score n) (Fin 0) \<or> IsNaN (ni_Score n) \<or> IsInf (ni_Score n) then Fin 1 else ni_Score n) = Fin s"
    by blast
  have w: "weight n = fdiv (Fin 1) (fl (s + e))" by (simp add: weight_def Let_def s' nano)
  have "0 \<le> s + e" using s e0 by simp
  then obtain z where z: "\<bar>z - (s + e)\<bar> \<le> (s + e) * f64_eps + f64_tiny"
    "fl (s + e) = (if z \<ge> f64_limit then Inf False else Fin z)" by (rule fl_value)
  show thesis
  proof (cases "z \<ge> f64_limit")
    case True
    with z(2) that [of 0] show ?thesis by (simp add: w)
  next
    case False
    have "(s + e) * f64_eps \<le> (s + e) * (1 / 4)"
      using s f64_consts(2) by (intro mult_left_mono) (use e0 in auto)
    moreover have "f64_tiny \<le> 1 / 2 ^ 32" using f64_bounds(2) by (rule order_trans) simp
    moreover have "s + e - z \<le> (s + e) * f64_eps + f64_tiny" using z(1) by linarith
    ultimately have "s + e - z \<le> (s + e) * (1 / 4) + 1 / 2 ^ 32" by (meson add_mono order_trans)
    then have "(s + e) * (3 / 4) - 1 / 2 ^ 32 \<le> z" by (simp add: field_simps)
    moreover have "1 / 2 ^ 30 \<le> s + e" using s e by (rule add_increasing)
    ultimately have low: "1 / 2 ^ 32 \<le> z" by (simp add: field_simps)
    then have zpos: "0 < z" by (rule less_le_trans [rotated]) simp
    define i where "i = 1 / z"
    have inv: "i \<le> 2 ^ 32" "0 < i" using low zpos by (simp_all add: i_def field_simps)
    have "2 * i \<le> f64_limit" using inv(1) f64_bounds(6) by simp
    then obtain y where y: "fl i = Fin y" "\<bar>y - i\<bar> \<le> i * f64_eps + f64_tiny"
      using fl_err [of i] inv by auto
    have small: "2 * f64_small \<le> i"
    proof -
      have "2 * f64_small * z \<le> 2 * f64_small * f64_limit" using False f64_bounds(4) by (intro mult_left_mono) auto
      then show ?thesis using f64_bounds(5) zpos by (simp add: i_def field_simps)
    qed
    have "i * f64_eps \<le> i * (1 / 4)" using f64_consts(2) inv(2) by (intro mult_left_mono) auto
    moreover have "f64_tiny \<le> i * (1 / 4)" using small f64_bounds(3,4) by simp
    ultimately have "i * (1 / 2) \<le> y" "y \<le> 2 * i" using y(2) by linarith+
    then show ?thesis
      using that [of y] z(2) False zpos y(1) inv small by (simp add: w i_def [symmetric])
  qed
qed

definition weight_rat :: "NodeInfo \<Rightarrow> rat" where
  "weight_rat n = (case weight n of Fin w \<Rightarrow> w | _ \<Rightarrow> 0)"

lemma weight_rat:
  "weight n = Fin (weight_rat n)" "0 \<le> weight_rat n" "weight_rat n \<le> 2 ^ 33" "weight_rat n = 0 \<or> f64_small \<le> weight_rat n"
  by (rule weight_Fin [of n]; simp add: weight_rat_def)+

lemma bernoulli_rat: "0 \<le> d \<Longrightarrow> d \<le> 1 \<Longrightarrow> 1 - of_nat n * d \<le> (1 - d :: rat) ^ n"
proof (induction n)
  case (Suc n)
  have "1 - of_nat (Suc n) * d \<le> (1 - of_nat n * d) * (1 - d)"
    using Suc.prems by (simp add: algebra_simps)
  also have "\<dots> \<le> (1 - d) ^ n * (1 - d)" using Suc by (intro mult_right_mono) auto
  finally show ?case by (simp add: mult.commute)
qed simp

lemma f64_rel_01: "0 \<le> f64_rel" "f64_rel \<le> 1"
  by (simp_all add: f64_rel_def)

lemma f64_rel_pow:
  assumes "c \<le> 2 ^ 21"
  shows "1 / 2 \<le> (1 - f64_rel) ^ c"
proof -
  have "of_nat c * f64_rel \<le> of_nat (2 ^ 21) * f64_rel"
    using of_nat_mono [OF assms, where 'a = rat] f64_rel_01(1) by (rule mult_right_mono)
  also have "\<dots> \<le> 1 / 2" by (simp add: f64_rel_def)
  finally show ?thesis using bernoulli_rat [OF f64_rel_01, of c] by linarith
qed

text \<open>
  Adding the weights one by one. The running total stays within a factor $(1 - 2^{-48})^{\pm k}$ of the
  exact sum; \<open>c\<close> counts the additions made so far and keeps the total away from zero.
\<close>

lemma weight_sum_step:
  assumes t: "0 \<le> t" "t = 0 \<or> f64_small * (1 - f64_rel) ^ c \<le> t" "t \<le> 2 ^ 90" and c: "c \<le> 2 ^ 21"
  obtains t' where "fadd (Fin t) (weight n) = Fin t'" "(t + weight_rat n) * (1 - f64_rel) \<le> t'"
    "t' * (1 - f64_rel) \<le> t + weight_rat n" "t' = 0 \<or> f64_small * (1 - f64_rel) ^ Suc c \<le> t'" "0 \<le> t'"
proof -
  define w where "w = weight_rat n"
  define x where "x = t + w"
  have w: "weight n = Fin w" "0 \<le> w" "w \<le> 2 ^ 33" "w = 0 \<or> f64_small \<le> w"
    using weight_rat [of n] by (simp_all add: w_def)
  note rel = f64_rel_01
  show thesis
  proof (cases "x = 0")
    case True
    with t w that [of 0] show ?thesis by (simp add: x_def w_def [symmetric] fl_def)
  next
    case False
    have pow: "0 \<le> (1 - f64_rel) ^ c" "(1 - f64_rel) ^ c \<le> 1" using rel by (simp_all add: power_le_one)
    have "f64_small * (1 - f64_rel) ^ c \<le> f64_small" using pow f64_bounds(4) by (simp add: mult_left_le)
    with t(1,2) w(2,4) False have big: "f64_small * (1 - f64_rel) ^ c \<le> x" by (auto simp: x_def)
    have "f64_small * (1 / 2) \<le> f64_small * (1 - f64_rel) ^ c"
      using f64_rel_pow [OF c] f64_bounds(4) by (intro mult_left_mono) auto
    with big have low: "f64_small \<le> 2 * x" by linarith
    have "2 * x \<le> f64_limit" using t(3) w(3) f64_bounds(6) by (simp add: x_def)
    from fl_rel [OF low this] obtain y where y: "fl x = Fin y" "x * (1 - f64_rel) \<le> y" "y \<le> x * (1 + f64_rel)"
      by blast
    have x0: "0 \<le> x" using t(1) w(2) by (simp add: x_def)
    have "y * (1 - f64_rel) \<le> x * (1 + f64_rel) * (1 - f64_rel)"
      using y(3) rel by (intro mult_right_mono) auto
    also have "\<dots> = x - x * f64_rel ^ 2" by (simp add: algebra_simps power2_eq_square)
    also have "\<dots> \<le> x" using x0 by simp
    finally have up: "y * (1 - f64_rel) \<le> x" .
    have "f64_small * (1 - f64_rel) ^ c * (1 - f64_rel) \<le> x * (1 - f64_rel)"
      using big rel by (intro mult_right_mono) auto
    from order_trans [OF this y(2)] have "f64_small * (1 - f64_rel) ^ Suc c \<le> y"
      by (simp only: power_Suc2 mult.assoc)
    moreover have "0 \<le> y" using y(2) x0 rel by (meson diff_ge_0_iff_ge mult_nonneg_nonneg order_trans)
    ultimately show ?thesis
      using that [of y] y up by (simp add: x_def w_def [symmetric] w(1))
  qed
qed

lemma weight_sum_bounds:
  assumes "0 \<le> t" "t = 0 \<or> f64_small * (1 - f64_rel) ^ c \<le> t" "c + length ns \<le> 2 ^ 21"
    and "t * (1 - f64_rel) ^ c \<le> of_nat c * 2 ^ 33"
  shows "\<exists>T. fold (\<lambda>n tot. fadd tot (weight n)) ns (Fin t) = Fin T
    \<and> (t + sum_list (map weight_rat ns)) * (1 - f64_rel) ^ length ns \<le> T
    \<and> T * (1 - f64_rel) ^ length ns \<le> t + sum_list (map weight_rat ns)"
  using assms
proof (induction ns arbitrary: t c)
  case (Cons n ns)
  let ?q = "1 - f64_rel" and ?S = "sum_list (map weight_rat ns)"
  note rel = f64_rel_01
  have q: "0 \<le> ?q" "?q \<le> 1" using rel by auto
  have c: "c \<le> 2 ^ 21" using Cons.prems(3) by simp
  have "t * (1 / 2) \<le> t * ?q ^ c" using f64_rel_pow [OF c] Cons.prems(1) by (intro mult_left_mono) auto
  also have "\<dots> \<le> of_nat c * 2 ^ 33" by (rule Cons.prems(4))
  also have "\<dots> \<le> of_nat (2 ^ 21) * 2 ^ 33"
    using of_nat_mono [OF c, where 'a = rat] by (rule mult_right_mono) simp
  finally have "t \<le> 2 ^ 90" by simp
  then obtain t' where t': "fadd (Fin t) (weight n) = Fin t'" "(t + weight_rat n) * ?q \<le> t'"
    "t' * ?q \<le> t + weight_rat n" "t' = 0 \<or> f64_small * ?q ^ Suc c \<le> t'" "0 \<le> t'"
    using weight_sum_step [OF Cons.prems(1,2) _ c, of n] by blast
  have S: "0 \<le> ?S" by (intro sum_list_nonneg) (auto simp: weight_rat(2))
  have "t' * ?q ^ Suc c = t' * ?q * ?q ^ c" by simp
  also have "\<dots> \<le> (t + weight_rat n) * ?q ^ c" using t'(3) q by (intro mult_right_mono) auto
  also have "\<dots> \<le> of_nat c * 2 ^ 33 + weight_rat n * 1"
    using Cons.prems(4) q weight_rat(2) [of n]
    by (simp add: distrib_right add_mono mult_left_le power_le_one)
  also have "\<dots> \<le> of_nat (Suc c) * 2 ^ 33" using weight_rat(3) [of n] by (simp add: algebra_simps)
  finally have cap: "t' * ?q ^ Suc c \<le> of_nat (Suc c) * 2 ^ 33" .
  have "Suc c + length ns \<le> 2 ^ 21" using Cons.prems(3) by simp
  from Cons.IH [OF t'(5,4) this cap] obtain T where
    T: "fold (\<lambda>n tot. fadd tot (weight n)) ns (Fin t') = Fin T"
      "(t' + ?S) * ?q ^ length ns \<le> T" "T * ?q ^ length ns \<le> t' + ?S" by blast
  have Sq: "?S * ?q \<le> ?S" using S q(2) by (simp add: mult_left_le)
  have "(t + weight_rat n + ?S) * ?q \<le> t' + ?S"
    using t'(2) Sq unfolding distrib_right by linarith
  then have "(t + weight_rat n + ?S) * ?q * ?q ^ length ns \<le> (t' + ?S) * ?q ^ length ns"
    using q by (intro mult_right_mono) auto
  with T(2) have lo: "(t + weight_rat n + ?S) * ?q * ?q ^ length ns \<le> T" by linarith
  have "T * ?q ^ length ns * ?q \<le> (t' + ?S) * ?q" using T(3) q by (intro mult_right_mono) auto
  also have "\<dots> \<le> t + weight_rat n + ?S"
    using t'(3) Sq unfolding distrib_right by linarith
  finally have hi: "T * ?q ^ length ns * ?q \<le> t + weight_rat n + ?S" .
  from T(1) t'(1) lo hi show ?case by (intro exI [of _ T]) (simp add: ac_simps)
qed simp

lemma weight_total_ratio:
  assumes "length ns \<le> 2 ^ 20"
  obtains T where "weight_total ns = Fin T" "0 \<le> T"
    "T \<noteq> 0 \<longrightarrow> 1 - 1 / 2 ^ 28 \<le> sum_list (map weight_rat ns) / T \<and> sum_list (map weight_rat ns) / T \<le> 1 + 1 / 2 ^ 27"
proof -
  let ?q = "(1 - f64_rel) ^ length ns" and ?S = "sum_list (map weight_rat ns)"
  from weight_sum_bounds [of 0 0 ns] assms obtain T where
    T: "weight_total ns = Fin T" "?S * ?q \<le> T" "T * ?q \<le> ?S"
    by (auto simp: weight_total_def)
  have q1: "0 \<le> ?q" using f64_rel_01 by simp
  have "of_nat (length ns) * f64_rel \<le> of_nat (2 ^ 20) * f64_rel"
    using of_nat_mono [OF assms, where 'a = rat] f64_rel_01(1) by (rule mult_right_mono)
  also have "\<dots> = 1 / 2 ^ 28" by (simp add: f64_rel_def)
  finally have q: "1 - 1 / 2 ^ 28 \<le> ?q" using bernoulli_rat [OF f64_rel_01, of "length ns"] by linarith
  have S: "0 \<le> ?S" by (intro sum_list_nonneg) (auto simp: weight_rat(2))
  with T(2) q1 have T0: "0 \<le> T" by (meson mult_nonneg_nonneg order_trans)
  have "1 - 1 / 2 ^ 28 \<le> ?S / T \<and> ?S / T \<le> 1 + 1 / 2 ^ 27" if "T \<noteq> 0"
  proof
    have pos: "0 < T" using T0 that by simp
    have "T * (1 - 1 / 2 ^ 28) \<le> T * ?q" using q T0 by (rule mult_left_mono)
    with T(3) have "T * (1 - 1 / 2 ^ 28) \<le> ?S" by (rule order_trans [rotated])
    then show "1 - 1 / 2 ^ 28 \<le> ?S / T" using pos by (simp only: pos_le_divide_eq mult.commute)
    have "?S * (1 - 1 / 2 ^ 28) \<le> ?S * ?q" using q S by (rule mult_left_mono)
    with T(2) have "?S * (1 - 1 / 2 ^ 28) \<le> T" by (rule order_trans [rotated])
    then have "?S \<le> (1 + 1 / 2 ^ 27) * T" using T0 by simp
    then show "?S / T \<le> 1 + 1 / 2 ^ 27" using pos by (simp only: pos_divide_le_eq)
  qed
  with that T(1) T0 show thesis by blast
qed

lemma fl_1024: "of_go_int (int VNodeCount) = Fin 1024"
  by (simp add: of_go_int_exact VNodeCount_def)

definition ideal :: "rat \<Rightarrow> NodeInfo \<Rightarrow> f64" where
  "ideal T n = fmul (fdiv (weight n) (Fin T)) (of_go_int (int VNodeCount))"

lemma ideal_close:
  assumes T: "0 < T" and x: "weight_rat n / T \<le> 2"
  obtains v where "ideal T n = Fin v" "0 \<le> v" "v \<le> 4096"
    "\<bar>v - 1024 * (weight_rat n / T)\<bar> \<le> weight_rat n / T * (1 / 2 ^ 38) + 1 / 2 ^ 39"
proof -
  define x where "x = weight_rat n / T"
  have x: "0 \<le> x" "x \<le> 2" using weight_rat(2) [of n] T x by (simp_all add: x_def)
  have "2 * x \<le> f64_limit" using x(2) f64_bounds(6) by simp
  then obtain y where y: "fl x = Fin y" "0 \<le> y" "\<bar>y - x\<bar> \<le> x * f64_eps + f64_tiny"
    using fl_err [OF x(1)] by blast
  have xe: "x * f64_eps \<le> x * (1 / 2 ^ 50)" using f64_bounds(1) x(1) by (rule mult_left_mono)
  have y5: "\<bar>y - x\<bar> \<le> x * (1 / 2 ^ 50) + 1 / 2 ^ 60" using y(3) xe f64_bounds(2) by linarith
  then have y3: "y \<le> 2 * x + 1" using x by simp
  have "2 * (y * 1024) \<le> f64_limit" using y3 x(2) f64_bounds(6) by simp
  then obtain v where v: "fl (y * 1024) = Fin v" "0 \<le> v" "\<bar>v - y * 1024\<bar> \<le> y * 1024 * f64_eps + f64_tiny"
    using fl_err [of "y * 1024"] y(2) by auto
  have "y * 1024 * f64_eps \<le> y * 1024 * (1 / 2 ^ 50)" using f64_bounds(1) y(2) by (intro mult_left_mono) auto
  also have "\<dots> \<le> (2 * x + 1) * (1 / 2 ^ 40)" using y3 by simp
  finally have "\<bar>v - y * 1024\<bar> \<le> (2 * x + 1) * (1 / 2 ^ 40) + 1 / 2 ^ 60" using v(3) f64_bounds(2) by linarith
  then have close: "\<bar>v - 1024 * x\<bar> \<le> x * (1 / 2 ^ 38) + 1 / 2 ^ 39"
    using y5 x(1) by (simp only: abs_le_iff) (simp add: field_simps)
  then have "v \<le> 4096" using x by simp
  moreover have "ideal T n = Fin v"
    using T y(1) v(1) by (simp add: ideal_def fl_1024 weight_rat(1) [of n] x_def [symmetric])
  ultimately show thesis using that v(2) close by (simp add: x_def)
qed

section \<open>The targets add up\<close>

lemma sum_list_close:
  assumes "\<forall>n\<in>set ns. \<bar>f n - g n\<bar> \<le> h n * c + (d :: rat)"
  shows "\<bar>sum_list (map f ns) - sum_list (map g ns)\<bar> \<le> sum_list (map h ns) * c + of_nat (length ns) * d"
  using assms
proof (induction ns)
  case (Cons n ns)
  then have "\<bar>f n - g n\<bar> \<le> h n * c + d"
    "\<bar>sum_list (map f ns) - sum_list (map g ns)\<bar> \<le> sum_list (map h ns) * c + of_nat (length ns) * d" by auto
  then show ?case by (simp add: algebra_simps)
qed simp

lemma sum_list_floor:
  fixes f :: "'a \<Rightarrow> rat"
  shows "of_int (sum_list (map (\<lambda>n. \<lfloor>f n\<rfloor>) ns)) \<le> sum_list (map f ns)"
    and "sum_list (map f ns) - of_nat (length ns) \<le> of_int (sum_list (map (\<lambda>n. \<lfloor>f n\<rfloor>) ns))"
proof (induction ns)
  case (Cons n ns)
  case 1
  show ?case using Cons.IH(1) by (simp add: add_mono)
  case 2
  have "f n - 1 \<le> of_int \<lfloor>f n\<rfloor>" by linarith
  then show ?case using Cons.IH(2) by (simp add: algebra_simps)
qed simp_all

text \<open>The bases leave between none and one vnode per node to hand out.\<close>

lemma bases_bounds:
  assumes len: "length ns \<le> 2 ^ 20" and tot: "weight_total ns = Fin T" "T \<noteq> 0"
  defines "bases \<equiv> sum_list (map al_base (map (alloc_of (Fin T)) ns))"
  shows "bases \<le> 1024" "1024 - int (length ns) \<le> bases" "\<forall>n\<in>set ns. 0 \<le> al_base (alloc_of (Fin T) n)"
proof -
  define x where "x n = weight_rat n / T" for n
  define r where "r = sum_list (map x ns)"
  have r: "r = sum_list (map weight_rat ns) / T"
    unfolding r_def x_def by (induction ns) (simp_all add: add_divide_distrib)
  obtain T' where "weight_total ns = Fin T'" "0 \<le> T'"
    "T' \<noteq> 0 \<longrightarrow> 1 - 1 / 2 ^ 28 \<le> sum_list (map weight_rat ns) / T' \<and> sum_list (map weight_rat ns) / T' \<le> 1 + 1 / 2 ^ 27"
    by (rule weight_total_ratio [OF len])
  with tot have T: "0 < T" "1 - 1 / 2 ^ 28 \<le> r" "r \<le> 1 + 1 / 2 ^ 27"
    unfolding r by (simp_all only: f64.inject) (simp_all add: less_le)
  have r2: "r \<le> 2" by (rule order_trans [OF T(3)]) simp
  have x0: "0 \<le> x n" for n using T(1) weight_rat(2) [of n] by (simp add: x_def)
  define v where "v n = (case ideal T n of Fin y \<Rightarrow> y | _ \<Rightarrow> 0)" for n
  have v: "ideal T n = Fin (v n)" "0 \<le> v n" "v n \<le> 4096"
    "\<bar>v n - 1024 * x n\<bar> \<le> x n * (1 / 2 ^ 38) + 1 / 2 ^ 39" if "n \<in> set ns" for n
  proof -
    have "x n \<le> r" unfolding r_def using that by (intro member_le_sum_list) (auto simp: x0)
    then have "weight_rat n / T \<le> 2" using r2 unfolding x_def by (rule order_trans)
    from ideal_close [OF T(1) this] obtain y where "ideal T n = Fin y" "0 \<le> y" "y \<le> 4096"
      "\<bar>y - 1024 * x n\<bar> \<le> x n * (1 / 2 ^ 38) + 1 / 2 ^ 39" unfolding x_def by blast
    then show "ideal T n = Fin (v n)" "0 \<le> v n" "v n \<le> 4096"
      "\<bar>v n - 1024 * x n\<bar> \<le> x n * (1 / 2 ^ 38) + 1 / 2 ^ 39"
      by (simp_all add: v_def)
  qed
  have base: "al_base (alloc_of (Fin T) n) = \<lfloor>v n\<rfloor>" if "n \<in> set ns" for n
  proof -
    have "0 \<le> \<lfloor>v n\<rfloor>" "\<lfloor>v n\<rfloor> \<le> 4096" using v(2,3) [OF that] by (simp_all add: floor_le_iff)
    then show ?thesis
      using v(1) [OF that] by (simp add: alloc_of_def Let_def floor_int_def flip: ideal_def)
  qed
  then show "\<forall>n\<in>set ns. 0 \<le> al_base (alloc_of (Fin T) n)" using v(2) by simp
  have bases: "bases = sum_list (map (\<lambda>n. \<lfloor>v n\<rfloor>) ns)"
    unfolding bases_def using base by (simp add: comp_def cong: map_cong)
  define V where "V = sum_list (map v ns)"
  have "sum_list (map (\<lambda>n. 1024 * x n) ns) = 1024 * r" by (simp add: r_def sum_list_const_mult)
  then have "\<bar>V - 1024 * r\<bar> \<le> r * (1 / 2 ^ 38) + of_nat (length ns) * (1 / 2 ^ 39)"
    using sum_list_close [of ns v "\<lambda>n. 1024 * x n" x "1 / 2 ^ 38" "1 / 2 ^ 39"] v(4)
    unfolding V_def r_def by (simp only: refl ball_simps) blast
  moreover have "of_nat (length ns) * (1 / 2 ^ 39) \<le> (of_nat (2 ^ 20) * (1 / 2 ^ 39) :: rat)"
    using of_nat_mono [OF len, where 'a = rat] by (rule mult_right_mono) simp
  moreover have "r * (1 / 2 ^ 38) \<le> 2 * (1 / 2 ^ 38)" using r2 by (rule mult_right_mono) simp
  ultimately have "\<bar>V - 1024 * r\<bar> \<le> 2 * (1 / 2 ^ 38) + of_nat (2 ^ 20) * (1 / 2 ^ 39)" by linarith
  then have near: "\<bar>V - 1024 * r\<bar> \<le> 1 / 4" by (rule order_trans) simp
  have "1024 - 1 / 4 \<le> 1024 * r" using T(2) by simp
  moreover have "1024 * r \<le> 1024 + 1 / 4" using T(3) by simp
  ultimately have V: "1023 < V" "V < 1025" using near by linarith+
  from sum_list_floor(1) [of v ns] V(2) have "of_int bases < (1025 :: rat)" by (simp add: bases V_def)
  then show "bases \<le> 1024" by simp
  from sum_list_floor(2) [of v ns] V(1) have "of_int (1023 - int (length ns)) < (of_int bases :: rat)"
    by (simp add: bases V_def)
  then show "1024 - int (length ns) \<le> bases" by (simp only: of_int_less_iff)
qed

lemma even_counts:
  assumes "ns \<noteq> []" "distinct (map ni_ID ns)"
  defines "c \<equiv> even_split (int VNodeCount div int (length ns)) (int VNodeCount mod int (length ns)) ns fmempty"
  shows "fm_sum (\<lambda>n. n) c = int VNodeCount" "fmlookup c nid = Some k \<Longrightarrow> 0 \<le> k \<and> nid \<in> ni_ID ` set ns"
proof -
  let ?n = "int (length ns)"
  have m: "0 \<le> int VNodeCount mod ?n" "int VNodeCount mod ?n < ?n" using assms(1) by simp_all
  have "fm_sum (\<lambda>n. n) c = int VNodeCount div ?n * ?n + min (max 0 (int VNodeCount mod ?n)) ?n"
    unfolding c_def using assms(2) by (subst fm_sum_even_split) (simp_all add: go_simps)
  then show "fm_sum (\<lambda>n. n) c = int VNodeCount" using m by (simp add: div_mult_mod_eq)
  have "0 \<le> int VNodeCount div ?n" by (simp flip: zdiv_int)
  then show "fmlookup c nid = Some k \<Longrightarrow> 0 \<le> k \<and> nid \<in> ni_ID ` set ns"
    unfolding c_def using even_split_lookup [of "int VNodeCount div ?n" "int VNodeCount mod ?n" ns fmempty nid k]
    by auto
qed

lemma proportional_counts:
  assumes ids: "distinct (map al_id as)"
    and b: "sum_list (map al_base as) \<le> 1024" "1024 - int (length as) \<le> sum_list (map al_base as)" "\<forall>a\<in>set as. 0 \<le> al_base a"
  shows "\<exists>c. add_rest (nat (int VNodeCount - sum_list (map al_base as))) as (set_bases as fmempty) = Inr c
    \<and> fm_sum (\<lambda>n. n) c = int VNodeCount \<and> (\<forall>nid k. fmlookup c nid = Some k \<longrightarrow> 0 \<le> k \<and> nid \<in> al_id ` set as)"
proof -
  let ?rest = "nat (int VNodeCount - sum_list (map al_base as))"
  have sum: "fm_sum (\<lambda>n. n) (set_bases as fmempty) = sum_list (map al_base as)"
    using ids by (subst fm_sum_set_bases) (simp_all add: go_simps)
  have "?rest \<le> length as" using b(1,2) by (simp add: VNodeCount_def)
  from add_rest_ok [OF this ids, of "set_bases as fmempty"] obtain c where
    c: "add_rest ?rest as (set_bases as fmempty) = Inr c"
      "fm_sum (\<lambda>n. n) c = fm_sum (\<lambda>n. n) (set_bases as fmempty) + int ?rest"
    and look: "\<forall>i v. fmlookup c i = Some v \<longrightarrow> fmlookup (set_bases as fmempty) i = Some v
      \<or> i \<in> al_id ` set as \<and> v = get0 (set_bases as fmempty) i + 1" by blast
  have base: "0 \<le> k \<and> nid \<in> al_id ` set as" if "fmlookup (set_bases as fmempty) nid = Some k" for nid k
    using set_bases_lookup [OF that] b(3) by auto
  then have "0 \<le> get0 (set_bases as fmempty) nid" for nid
    by (auto simp: get0_def split: option.splits)
  with look base have "\<forall>nid k. fmlookup c nid = Some k \<longrightarrow> 0 \<le> k \<and> nid \<in> al_id ` set as"
    by (metis add_nonneg_nonneg zero_le_one)
  moreover have "fm_sum (\<lambda>n. n) c = int VNodeCount" using c(2) sum b(1) by (simp add: VNodeCount_def)
  ultimately show ?thesis using c(1) by blast
qed

lemma target_counts:
  assumes ne: "nodes \<noteq> []" and dist: "distinct (map ni_ID nodes)" and len: "length nodes \<le> 2 ^ 20"
  shows "\<exists>c. GetTargetVNodeCount nodes = Inr c \<and> fm_sum (\<lambda>n. n) c = int VNodeCount
    \<and> (\<forall>nid k. fmlookup c nid = Some k \<longrightarrow> 0 \<le> k \<and> nid \<in> ni_ID ` set nodes)"
proof -
  obtain T where tot: "weight_total nodes = Fin T" "0 \<le> T"
    and "T \<noteq> 0 \<longrightarrow> 1 - 1 / 2 ^ 28 \<le> sum_list (map weight_rat nodes) / T \<and> sum_list (map weight_rat nodes) / T \<le> 1 + 1 / 2 ^ 27"
    by (rule weight_total_ratio [OF len])
  show ?thesis
  proof (cases "T = 0")
    case True
    then have "GetTargetVNodeCount nodes =
        Inr (even_split (int VNodeCount div int (length nodes)) (int VNodeCount mod int (length nodes)) nodes fmempty)"
      using ne tot by (simp add: GetTargetVNodeCount_def)
    then show ?thesis using even_counts [OF ne dist] by blast
  next
    case False
    define as where "as = map (alloc_of (Fin T)) nodes"
    have b: "sum_list (map al_base as) \<le> 1024" "1024 - int (length as) \<le> sum_list (map al_base as)" "\<forall>a\<in>set as. 0 \<le> al_base a"
      using bases_bounds [OF len tot(1) False] by (simp_all add: as_def)
    have same: "sum_list (map al_base (sort_by alloc_less as)) = sum_list (map al_base as)"
      by (metis mset_map mset_sort_by sum_mset_sum_list)
    have "map al_id as = map ni_ID nodes" by (simp add: as_def alloc_of_def Let_def)
    then have ids: "distinct (map al_id (sort_by alloc_less as))" "al_id ` set (sort_by alloc_less as) = ni_ID ` set nodes"
      using dist by (metis distinct_map distinct_sort_by set_sort_by, metis set_map set_sort_by)
    have "GetTargetVNodeCount nodes =
        add_rest (nat (int VNodeCount - sum_list (map al_base as))) (sort_by alloc_less as) (set_bases (sort_by alloc_less as) fmempty)"
      using ne tot False by (simp add: GetTargetVNodeCount_def Let_def as_def)
    with proportional_counts [OF ids(1)] b same ids(2) show ?thesis by simp
  qed
qed

section \<open>Properties\<close>

text \<open>
  C20. The targets always add up. For any scores at all (zero, huge, negative, infinite or not a number)
  and up to $2^{20}$ nodes with different ids, \<^verbatim>\<open>GetTargetVNodeCount\<close> returns non-negative counts, for these
  nodes only, whose sum is exactly 1024, in spite of the rounding of every floating point
  step; the index into the sorted remainders is never out of range.
\<close>

theorem GetTargetVNodeCount_sum:
  assumes "nodes \<noteq> []" "distinct (map ni_ID nodes)" "length nodes \<le> 2 ^ 20"
  shows "\<exists>c. GetTargetVNodeCount nodes = Inr c \<and> fm_sum (\<lambda>n. n) c = int VNodeCount
    \<and> (\<forall>nid k. fmlookup c nid = Some k \<longrightarrow> 0 \<le> k \<and> nid \<in> ni_ID ` set nodes)"
  by (rule target_counts [OF assms])

definition demo_nodes :: "NodeInfo list" where
  "demo_nodes = [\<lparr>ni_ID = ''a'', ni_Score = fl (7 / 10)\<rparr>, \<lparr>ni_ID = ''b'', ni_Score = NaN\<rparr>,
     \<lparr>ni_ID = ''c'', ni_Score = Fin 0\<rparr>]"

theorem GetTargetVNodeCount_sum_witness:
  "\<exists>c. GetTargetVNodeCount demo_nodes = Inr c \<and> fm_sum (\<lambda>n. n) c = 1024"
  using GetTargetVNodeCount_sum [of demo_nodes] by (auto simp: demo_nodes_def VNodeCount_def)

end
