(* ===== verification/Node_Metrics.thy ===== *)
theory Node_Metrics
  imports Replicator_State Float_Order "HOL-Library.Signed_Division"
begin

text \<open>
  The metrics of a node: their collection (\<^verbatim>\<open>src/cluster/metrics.go\<close>) and the smoothed view every
  node keeps of all nodes (\<^verbatim>\<open>HandleMetricsMessage\<close> and \<^verbatim>\<open>smoothMetricsLocked\<close> of
  \<^verbatim>\<open>src/cluster/replication.go\<close>). Readings of the operating system are arguments, \<^verbatim>\<open>None\<close> for an
  error; JSON encoding and decoding are parameters.
\<close>

section \<open>Collecting\<close>

record netSample =
  ns_rxBytes :: u64
  ns_txBytes :: u64
  ns_at :: int

record MetricsCollector =
  mc_nodeID :: string
  mc_cpuCores :: int
  mc_memGB :: int
  mc_bandwidthMbps :: int
  mc_diskGB :: int
  mc_diskPath :: string
  mc_lastRTT :: "(string, f64) fmap"
  mc_rttCount :: "(string, int) fmap"
  mc_lastNetSample :: "netSample option"

definition detectCPUCores :: "int option \<Rightarrow> int" where
  "detectCPUCores counts = (case counts of None \<Rightarrow> 1 | Some c \<Rightarrow> if c \<le> 0 then 1 else c)"

text \<open>\<^verbatim>\<open>detectMemGB\<close> and \<^verbatim>\<open>detectDiskGB\<close>, from the total bytes.\<close>

definition detectGB :: "u64 option \<Rightarrow> int" where
  "detectGB total_bytes =
     (case total_bytes of
        None \<Rightarrow> 1
      | Some t \<Rightarrow>
          if t = 0 then 1
          else (let gb = uint (t div (1024 * 1024 * 1024)) in if gb \<le> 0 then 1 else gb))"

definition NewMetricsCollector ::
  "int option \<Rightarrow> u64 option \<Rightarrow> (string \<Rightarrow> u64 option) \<Rightarrow> string \<Rightarrow> int \<Rightarrow> string \<Rightarrow> MetricsCollector" where
  "NewMetricsCollector cpus mem_total disk_total nodeID bandwidthMbps diskPath =
     (let bw = (if bandwidthMbps \<le> 0 then 100 else bandwidthMbps);
          path = (if diskPath = [] then ''/'' else diskPath)
      in \<lparr>mc_nodeID = nodeID, mc_cpuCores = detectCPUCores cpus, mc_memGB = detectGB mem_total, mc_bandwidthMbps = bw,
          mc_diskGB = detectGB (disk_total path), mc_diskPath = path, mc_lastRTT = fmempty, mc_rttCount = fmempty,
          mc_lastNetSample = None\<rparr>)"

definition RecordRTT :: "string \<Rightarrow> f64 \<Rightarrow> MetricsCollector \<Rightarrow> MetricsCollector" where
  "RecordRTT peerID latencyMS mc =
     (if peerID = [] \<or> fle latencyMS (Fin 0) \<or> IsNaN latencyMS \<or> IsInf latencyMS then mc
      else mc\<lparr>mc_lastRTT := fmupd peerID
                (case fmlookup (mc_lastRTT mc) peerID of
                   Some old \<Rightarrow> fadd (fmul (fl (8 / 10)) old) (fmul (fl (2 / 10)) latencyMS)
                 | None \<Rightarrow> latencyMS) (mc_lastRTT mc),
              mc_rttCount := fmupd peerID (get0 (mc_rttCount mc) peerID + 1) (mc_rttCount mc)\<rparr>)"

text \<open>The argument \<^verbatim>\<open>dialled\<close> is how long the TCP connection took, in nanoseconds.\<close>

definition ProbePeerRTT :: "int option \<Rightarrow> string \<Rightarrow> string \<Rightarrow> MetricsCollector \<Rightarrow> MetricsCollector" where
  "ProbePeerRTT dialled peerID rpcAddr mc =
     (if peerID = [] \<or> rpcAddr = [] then mc
      else (case dialled of
              None \<Rightarrow> mc
            | Some elapsed \<Rightarrow> RecordRTT peerID (of_go_int (elapsed sdiv 1000000)) mc))"

definition clamp01 :: "f64 \<Rightarrow> f64" where
  "clamp01 v =
     (if IsNaN v \<or> IsInf v then Fin 0
      else if flt v (Fin 0) then Fin 0
      else if flt (Fin 1) v then Fin 1
      else v)"

definition diffUint64 :: "u64 \<Rightarrow> u64 \<Rightarrow> u64" where
  "diffUint64 cur prev = (if cur \<ge> prev then cur - prev else 0)"

definition readCPUUsage :: "f64 list option \<Rightarrow> f64" where
  "readCPUUsage p = (case p of None \<Rightarrow> Fin 0 | Some [] \<Rightarrow> Fin 0 | Some (v # _) \<Rightarrow> clamp01 (fdiv v (Fin 100)))"

text \<open>\<^verbatim>\<open>readMemUsage\<close> and \<^verbatim>\<open>readDiskUsage\<close>, from the used percentage.\<close>

definition readUsedPercent :: "f64 option \<Rightarrow> f64" where
  "readUsedPercent p = (case p of None \<Rightarrow> Fin 0 | Some v \<Rightarrow> clamp01 (fdiv v (Fin 100)))"

definition readNetUsage :: "(u64 \<times> u64) list option \<Rightarrow> int \<Rightarrow> MetricsCollector \<Rightarrow> f64 \<times> MetricsCollector" where
  "readNetUsage counters now mc =
     (case counters of
        None \<Rightarrow> (Fin 0, mc)
      | Some [] \<Rightarrow> (Fin 0, mc)
      | Some ((rx, tx) # _) \<Rightarrow>
          (let cur = \<lparr>ns_rxBytes = rx, ns_txBytes = tx, ns_at = now\<rparr>
           in (case mc_lastNetSample mc of
                 None \<Rightarrow> (Fin 0, mc\<lparr>mc_lastNetSample := Some cur\<rparr>)
               | Some last_sample \<Rightarrow>
                   (let dt = Seconds (now - ns_at last_sample)
                    in if fle dt (Fin 0) then (Fin 0, mc)
                       else (let deltaRx = diffUint64 rx (ns_rxBytes last_sample);
                                 deltaTx = diffUint64 tx (ns_txBytes last_sample);
                                 bitsPerSecond = fdiv (fmul (of_go_int (uint (deltaRx + deltaTx))) (Fin 8)) dt;
                                 mc' = mc\<lparr>mc_lastNetSample := Some cur\<rparr>;
                                 cap = fmul (of_go_int (mc_bandwidthMbps mc)) (Fin 1000000)
                             in if fle cap (Fin 0) then (Fin 0, mc')
                                else (clamp01 (fdiv bitsPerSecond cap), mc'))))))"

text \<open>
  The readings of one collection round, and the metrics built from them. The average adds the round
  trip times in the order \<^verbatim>\<open>rng\<close> in which Go ranges over the map.
\<close>

record readings =
  rd_cpu :: "f64 list option"
  rd_mem :: "f64 option"
  rd_disk :: "f64 option"
  rd_net :: "(u64 \<times> u64) list option"
  rd_now :: int

definition average_link_rtt :: "(string fset \<Rightarrow> string list) \<Rightarrow> (string, f64) fmap \<Rightarrow> f64" where
  "average_link_rtt rng rtt =
     (if fmdom rtt = {||} then Fin 1
      else (let s = fold (\<lambda>k acc. fadd acc (the (fmlookup rtt k))) (rng (fmdom rtt)) (Fin 0);
                avg = fdiv s (of_go_int (int (fcard (fmdom rtt))))
            in if fle avg (Fin 0) then Fin 1 else avg))"

definition GetCurrentMetrics ::
  "(string fset \<Rightarrow> string list) \<Rightarrow> readings \<Rightarrow> MetricsCollector \<Rightarrow> NodeMetrics \<times> MetricsCollector" where
  "GetCurrentMetrics rng rd mc =
     (let (netUsage, mc') = readNetUsage (rd_net rd) (rd_now rd) mc
      in (\<lparr>nm_NodeID = mc_nodeID mc, nm_AvgRTT = average_link_rtt rng (mc_lastRTT mc), nm_CPUCores = mc_cpuCores mc,
           nm_MemGB = mc_memGB mc, nm_BandwidthMbps = mc_bandwidthMbps mc, nm_DiskGB = mc_diskGB mc,
           nm_CPUUsage = readCPUUsage (rd_cpu rd), nm_MemUsage = readUsedPercent (rd_mem rd),
           nm_NetUsage = netUsage, nm_DiskUsage = readUsedPercent (rd_disk rd)\<rparr>, mc'))"

section \<open>Gossip messages\<close>

record GossipMetricsMessage =
  gm_Type :: string
  gm_NodeID :: string
  gm_Metrics :: NodeMetrics
  gm_RTTData :: "(string, f64) fmap"
  gm_Time :: int

definition gossip_message :: "NodeMetrics \<Rightarrow> (string, f64) fmap \<Rightarrow> int \<Rightarrow> GossipMetricsMessage" where
  "gossip_message m rtt now =
     \<lparr>gm_Type = ''metrics'', gm_NodeID = nm_NodeID m, gm_Metrics = m, gm_RTTData = rtt, gm_Time = now\<rparr>"

definition EncodeGossipMetricsMessage ::
  "(GossipMetricsMessage \<Rightarrow> string + bytes) \<Rightarrow> NodeMetrics \<Rightarrow> (string, f64) fmap \<Rightarrow> int \<Rightarrow> string + bytes" where
  "EncodeGossipMetricsMessage marshal m rtt now = marshal (gossip_message m rtt now)"

datatype gossip_error = JsonError string | UnknownType string

definition DecodeGossipMetricsMessage ::
  "(bytes \<Rightarrow> string + GossipMetricsMessage) \<Rightarrow> bytes \<Rightarrow> gossip_error + GossipMetricsMessage" where
  "DecodeGossipMetricsMessage unmarshal data =
     (case unmarshal data of
        Inl e \<Rightarrow> Inl (JsonError e)
      | Inr msg \<Rightarrow> if gm_Type msg \<noteq> ''metrics'' then Inl (UnknownType (gm_Type msg)) else Inr msg)"

section \<open>Smoothing\<close>

definition clampUnit :: "f64 \<Rightarrow> f64" where
  "clampUnit v = (if flt v (Fin 0) then Fin 0 else if flt (Fin 1) v then Fin 1 else v)"

text \<open>\<^verbatim>\<open>alpha*raw + (1-alpha)*prev\<close> with the constant 0.25.\<close>

definition ema :: "f64 \<Rightarrow> f64 \<Rightarrow> f64" where
  "ema raw prev = fadd (fmul (Fin (1 / 4)) raw) (fmul (Fin (3 / 4)) prev)"

definition clamp_usages :: "NodeMetrics \<Rightarrow> NodeMetrics" where
  "clamp_usages m = m\<lparr>nm_CPUUsage := clampUnit (nm_CPUUsage m), nm_MemUsage := clampUnit (nm_MemUsage m),
     nm_NetUsage := clampUnit (nm_NetUsage m), nm_DiskUsage := clampUnit (nm_DiskUsage m)\<rparr>"

definition smooth :: "NodeMetrics \<Rightarrow> NodeMetrics \<Rightarrow> NodeMetrics" where
  "smooth prev raw = raw
     \<lparr>nm_CPUUsage := ema (nm_CPUUsage raw) (nm_CPUUsage prev),
      nm_MemUsage := ema (nm_MemUsage raw) (nm_MemUsage prev),
      nm_NetUsage := ema (nm_NetUsage raw) (nm_NetUsage prev),
      nm_DiskUsage := ema (nm_DiskUsage raw) (nm_DiskUsage prev),
      nm_AvgRTT :=
        (if flt (Fin 0) (nm_AvgRTT raw)
         then if fle (nm_AvgRTT prev) (Fin 0) then nm_AvgRTT raw else ema (nm_AvgRTT raw) (nm_AvgRTT prev)
         else nm_AvgRTT prev),
      nm_CPUCores := (if nm_CPUCores raw \<le> 0 then nm_CPUCores prev else nm_CPUCores raw),
      nm_MemGB := (if nm_MemGB raw \<le> 0 then nm_MemGB prev else nm_MemGB raw),
      nm_BandwidthMbps := (if nm_BandwidthMbps raw \<le> 0 then nm_BandwidthMbps prev else nm_BandwidthMbps raw),
      nm_DiskGB := (if nm_DiskGB raw \<le> 0 then nm_DiskGB prev else nm_DiskGB raw)\<rparr>"

definition smoothMetricsLocked :: "NodeMetrics \<Rightarrow> Replicator \<Rightarrow> NodeMetrics \<times> Replicator" where
  "smoothMetricsLocked raw0 r =
     (let raw = clamp_usages raw0;
          smoothed = (case fmlookup (rp_metricEMA r) (nm_NodeID raw) of None \<Rightarrow> raw | Some prev \<Rightarrow> smooth prev raw)
      in (smoothed, r\<lparr>rp_metricEMA := fmupd (nm_NodeID raw) smoothed (rp_metricEMA r)\<rparr>))"

fun replace_metrics :: "NodeMetrics \<Rightarrow> NodeMetrics list \<Rightarrow> NodeMetrics list" where
  "replace_metrics m [] = [m]"
| "replace_metrics m (n # ns) = (if nm_NodeID n = nm_NodeID m then m # ns else n # replace_metrics m ns)"

definition HandleMetricsMessage :: "GossipMetricsMessage option \<Rightarrow> Replicator \<Rightarrow> Replicator" where
  "HandleMetricsMessage msg r =
     (case msg of
        None \<Rightarrow> r
      | Some gm \<Rightarrow>
          if nm_NodeID (gm_Metrics gm) = [] then r
          else (let (smoothed, r') = smoothMetricsLocked (gm_Metrics gm) r;
                    row = (case fmlookup (rp_rttMatrix r') (nm_NodeID smoothed) of None \<Rightarrow> fmempty | Some x \<Rightarrow> x)
                in r'\<lparr>rp_metrics := replace_metrics smoothed (rp_metrics r'),
                      rp_rttMatrix := fmupd (nm_NodeID smoothed) (row ++\<^sub>f gm_RTTData gm) (rp_rttMatrix r')\<rparr>))"

text \<open>\<^verbatim>\<open>NotifyMsg\<close> of \<^verbatim>\<open>src/cluster/membership.go\<close>, with the handler the server installs.\<close>

definition NotifyMsg :: "(bytes \<Rightarrow> string + GossipMetricsMessage) \<Rightarrow> bytes \<Rightarrow> Replicator \<Rightarrow> Replicator" where
  "NotifyMsg unmarshal b r =
     (case DecodeGossipMetricsMessage unmarshal b of Inl _ \<Rightarrow> r | Inr msg \<Rightarrow> HandleMetricsMessage (Some msg) r)"

text \<open>The publishing of the node's own metrics: probe the peers, collect, handle, gossip.\<close>

fun probe_peers :: "(string \<Rightarrow> int option) \<Rightarrow> Member list \<Rightarrow> Replicator \<Rightarrow> MetricsCollector \<Rightarrow> Replicator \<times> MetricsCollector" where
  "probe_peers dialled [] r mc = (r, mc)"
| "probe_peers dialled (mb # ms) r mc =
     (case parseMeta (mb_Meta mb) of
        Inl _ \<Rightarrow> probe_peers dialled ms r mc
      | Inr (peerID, rpcAddr) \<Rightarrow>
          (let r' = setNodeRPCAddr peerID rpcAddr r
           in if peerID = rp_ID r then probe_peers dialled ms r' mc
              else probe_peers dialled ms r' (ProbePeerRTT (dialled rpcAddr) peerID rpcAddr mc)))"

definition publishLocalMetrics ::
  "(string fset \<Rightarrow> string list) \<Rightarrow> (GossipMetricsMessage \<Rightarrow> string + bytes) \<Rightarrow> (string \<Rightarrow> int option) \<Rightarrow> readings
   \<Rightarrow> bool \<Rightarrow> Member list option \<Rightarrow> Replicator \<Rightarrow> MetricsCollector option \<Rightarrow> bytes option \<times> Replicator \<times> MetricsCollector option"
where
  "publishLocalMetrics rng marshal dialled rd probePeers members r collector =
     (case collector of
        None \<Rightarrow> (None, r, None)
      | Some mc0 \<Rightarrow>
          (let (r1, mc1) = (case members of Some ms \<Rightarrow> if probePeers then probe_peers dialled ms r mc0 else (r, mc0)
                                          | None \<Rightarrow> (r, mc0));
               (m, mc2) = GetCurrentMetrics rng rd mc1;
               r2 = HandleMetricsMessage (Some (gossip_message m (mc_lastRTT mc2) (rd_now rd sdiv 1000000))) r1
           in (case EncodeGossipMetricsMessage marshal m (mc_lastRTT mc2) (rd_now rd sdiv 1000000) of
                 Inl _ \<Rightarrow> (None, r2, Some mc2)
               | Inr b \<Rightarrow> (Some b, r2, Some mc2))))"

section \<open>Ranges\<close>

primrec unit_val :: "f64 \<Rightarrow> bool" where
  "unit_val NaN = False"
| "unit_val (Inf s) = False"
| "unit_val (Fin x) = (0 \<le> x \<and> x \<le> 1)"

definition unit_usages :: "NodeMetrics \<Rightarrow> bool" where
  "unit_usages m \<longleftrightarrow> unit_val (nm_CPUUsage m) \<and> unit_val (nm_MemUsage m) \<and> unit_val (nm_NetUsage m) \<and> unit_val (nm_DiskUsage m)"

definition usages_defined :: "NodeMetrics \<Rightarrow> bool" where
  "usages_defined m \<longleftrightarrow> NaN \<notin> {nm_CPUUsage m, nm_MemUsage m, nm_NetUsage m, nm_DiskUsage m}"

lemma unit_clamp01: "unit_val (clamp01 v)"
  by (cases v) (auto simp: clamp01_def)

lemma unit_clampUnit: "v \<noteq> NaN \<Longrightarrow> unit_val (clampUnit v)"
  by (cases v) (auto simp: clampUnit_def)

lemma fl_dyadic:
  assumes "0 \<le> x" "x \<le> of_int k / 4" "0 < k" "k \<le> 4"
  obtains y where "fl x = Fin y" "0 \<le> y" "y \<le> of_int k / 4"
proof (rule fl_between [of x "of_int k / 4" k "-2"])
  show "of_int k / 4 = of_int k * (2 :: rat) powi - 2" by (simp add: power_int_minus)
  have "(of_int k :: rat) \<le> of_int 4" using assms(4) by (simp only: of_int_le_iff)
  then show "of_int k / 4 \<le> (2 :: rat) ^ 90" by simp
qed (use assms that in auto)

text \<open>The moving average of values in the unit interval stays there, in spite of rounding.\<close>

lemma unit_ema:
  assumes "unit_val a" "unit_val b"
  shows "unit_val (ema a b)"
proof -
  from assms obtain x y where x: "a = Fin x" "0 \<le> x" "x \<le> 1" and y: "b = Fin y" "0 \<le> y" "y \<le> 1"
    by (cases a; cases b) auto
  obtain p where p: "fl (1 / 4 * x) = Fin p" "0 \<le> p" "p \<le> of_int 1 / 4" by (rule fl_dyadic [of "1 / 4 * x" 1]) (use x in auto)
  obtain q where q: "fl (3 / 4 * y) = Fin q" "0 \<le> q" "q \<le> of_int 3 / 4" by (rule fl_dyadic [of "3 / 4 * y" 3]) (use y in auto)
  obtain s where "fl (p + q) = Fin s" "0 \<le> s" "s \<le> of_int 4 / 4" by (rule fl_dyadic [of "p + q" 4]) (use p q in auto)
  with p q x y show ?thesis by (simp add: ema_def)
qed

section \<open>The view of all nodes\<close>

text \<open>
  One entry per node, no nameless node, and usages in the unit interval, in the list and in the
  averages kept for the next message.
\<close>

definition metrics_ok :: "Replicator \<Rightarrow> bool" where
  "metrics_ok r \<longleftrightarrow> distinct (map nm_NodeID (rp_metrics r)) \<and> [] \<notin> nm_NodeID ` set (rp_metrics r)
     \<and> (\<forall>m\<in>set (rp_metrics r). unit_usages m) \<and> (\<forall>nid m. fmlookup (rp_metricEMA r) nid = Some m \<longrightarrow> unit_usages m)"

lemma replace_metrics_ids:
  "set (map nm_NodeID (replace_metrics m ms)) = insert (nm_NodeID m) (nm_NodeID ` set ms)"
  "distinct (map nm_NodeID ms) \<Longrightarrow> distinct (map nm_NodeID (replace_metrics m ms))"
proof -
  show ids: "set (map nm_NodeID (replace_metrics m ms)) = insert (nm_NodeID m) (nm_NodeID ` set ms)" for ms
    by (induction ms) auto
  show "distinct (map nm_NodeID ms) \<Longrightarrow> distinct (map nm_NodeID (replace_metrics m ms))"
    using ids by (induction ms) auto
qed

lemma replace_metrics_set: "set (replace_metrics m ms) \<subseteq> insert m (set ms)"
  by (induction ms) auto

lemma smoothMetricsLocked_unit:
  assumes "metrics_ok r" "usages_defined raw" "smoothMetricsLocked raw r = (s, r')"
  shows "unit_usages s" "nm_NodeID s = nm_NodeID raw" "rp_metrics r' = rp_metrics r"
    "rp_metricEMA r' = fmupd (nm_NodeID raw) s (rp_metricEMA r)"
proof -
  have c: "unit_usages (clamp_usages raw)"
    using assms(2) by (auto simp: unit_usages_def usages_defined_def clamp_usages_def intro!: unit_clampUnit)
  then have "unit_usages (smooth prev (clamp_usages raw))" if "unit_usages prev" for prev
    using that by (simp add: unit_usages_def smooth_def unit_ema)
  with c assms(1,3) show "unit_usages s"
    by (auto simp: smoothMetricsLocked_def Let_def metrics_ok_def split: option.splits)
  show "nm_NodeID s = nm_NodeID raw" "rp_metrics r' = rp_metrics r" "rp_metricEMA r' = fmupd (nm_NodeID raw) s (rp_metricEMA r)"
    using assms(3) by (auto simp: smoothMetricsLocked_def Let_def smooth_def clamp_usages_def split: option.splits)
qed

lemma metrics_ok_Handle:
  assumes "metrics_ok r" "usages_defined (gm_Metrics gm)"
  shows "metrics_ok (HandleMetricsMessage (Some gm) r)"
proof (cases "nm_NodeID (gm_Metrics gm) = []")
  case True
  with assms show ?thesis by (simp add: HandleMetricsMessage_def)
next
  case False
  obtain s r' where s: "smoothMetricsLocked (gm_Metrics gm) r = (s, r')" by fastforce
  note u = smoothMetricsLocked_unit [OF assms s]
  define ms where "ms = replace_metrics s (rp_metrics r)"
  have "distinct (map nm_NodeID ms)" "[] \<notin> set (map nm_NodeID ms)" "\<forall>m\<in>set ms. unit_usages m"
    using replace_metrics_ids(1) [of s "rp_metrics r"] replace_metrics_ids(2) [of "rp_metrics r" s]
      replace_metrics_set [of s "rp_metrics r"] assms(1) False u(1,2)
    by (auto simp: metrics_ok_def ms_def simp del: set_map)
  moreover have "rp_metrics (HandleMetricsMessage (Some gm) r) = ms"
    "rp_metricEMA (HandleMetricsMessage (Some gm) r) = fmupd (nm_NodeID (gm_Metrics gm)) s (rp_metricEMA r)"
    using False s u by (simp_all add: HandleMetricsMessage_def ms_def Let_def)
  ultimately show ?thesis using assms(1) u(1) by (auto simp: metrics_ok_def)
qed

lemma metrics_ok_New: "metrics_ok (NewReplicator nid rf)"
  by (simp add: metrics_ok_def NewReplicator_def)

lemma metrics_ok_fold:
  "metrics_ok r \<Longrightarrow> \<forall>gm\<in>set msgs. usages_defined (gm_Metrics gm) \<Longrightarrow> metrics_ok (fold (\<lambda>gm. HandleMetricsMessage (Some gm)) msgs r)"
  by (induction msgs arbitrary: r) (simp_all add: metrics_ok_Handle)

section \<open>Properties\<close>

text \<open>
  C24. The view a node keeps of the cluster is well formed after any number of gossip messages, for
  usages that are numbers (JSON has no others): one entry per node id, no empty id, and every smoothed
  usage between 0 and 1, whatever the messages claim and however the averages are rounded.
\<close>

theorem metrics_view_ok:
  assumes "\<forall>gm\<in>set msgs. usages_defined (gm_Metrics gm)"
  shows "metrics_ok (fold (\<lambda>gm. HandleMetricsMessage (Some gm)) msgs (NewReplicator nid rf))"
  by (rule metrics_ok_fold [OF metrics_ok_New assms])

theorem metrics_view_ok_witness:
  "metrics_ok (fold (\<lambda>gm. HandleMetricsMessage (Some gm))
     (map (\<lambda>u. gossip_message (idle_node ''b''\<lparr>nm_CPUUsage := u\<rparr>) fmempty 0) [Inf False, Fin (- 3), Fin (1 / 3)])
     (NewReplicator ''a'' 3))"
  by (rule metrics_view_ok) (simp add: usages_defined_def gossip_message_def idle_node_def)

text \<open>
  What a node reports about itself is in range for every reading of the operating system,
  failures, infinities and counters that went backwards included: all four usages lie in the unit interval,
  and a report changes of the collector only the last network sample.
\<close>

theorem GetCurrentMetrics_unit:
  "unit_usages (fst (GetCurrentMetrics rng rd mc))
   \<and> snd (GetCurrentMetrics rng rd mc) = mc\<lparr>mc_lastNetSample := mc_lastNetSample (snd (GetCurrentMetrics rng rd mc))\<rparr>"
proof -
  obtain v mc' where n: "readNetUsage (rd_net rd) (rd_now rd) mc = (v, mc')" by fastforce
  then have "unit_val v" "mc' = mc\<lparr>mc_lastNetSample := mc_lastNetSample mc'\<rparr>"
    by (auto simp: readNetUsage_def Let_def unit_clamp01 split: option.splits list.splits if_splits)
  moreover have "unit_val (readCPUUsage p)" "unit_val (readUsedPercent q)" for p q
    by (simp_all add: readCPUUsage_def readUsedPercent_def unit_clamp01 split: option.split list.split)
  ultimately show ?thesis using n by (simp add: GetCurrentMetrics_def unit_usages_def)
qed

text \<open>
  Round trips below one millisecond are never recorded: the probe truncates the time to whole
  milliseconds and \<^verbatim>\<open>RecordRTT\<close> ignores a time of zero. A round trip of one millisecond or more is
  recorded for its peer.
\<close>

theorem ProbePeerRTT_submillisecond:
  assumes "0 \<le> elapsed" "elapsed < 2 ^ 53 * 1000000" "peerID \<noteq> []" "rpcAddr \<noteq> []"
  shows "ProbePeerRTT (Some elapsed) peerID rpcAddr mc = mc \<longleftrightarrow> elapsed < 1000000"
proof -
  let ?ms = "elapsed div 1000000"
  have s: "elapsed sdiv 1000000 = ?ms" using assms(1) by (cases "elapsed = 0") (auto simp: signed_divide_int_def)
  have "0 \<le> ?ms" "?ms < 2 ^ 53" using assms(1,2) by simp_all
  then have f: "of_go_int ?ms = Fin (of_int ?ms)" by (rule of_go_int_exact)
  show ?thesis
  proof (cases "?ms = 0")
    case True
    with assms f s show ?thesis by (simp add: ProbePeerRTT_def RecordRTT_def)
  next
    case False
    with \<open>0 \<le> ?ms\<close> have pos: "0 < ?ms" by simp
    then have "mc_rttCount (ProbePeerRTT (Some elapsed) peerID rpcAddr mc)
        = fmupd peerID (get0 (mc_rttCount mc) peerID + 1) (mc_rttCount mc)"
      using assms f s by (simp add: ProbePeerRTT_def RecordRTT_def)
    moreover have "fmupd peerID (get0 (mc_rttCount mc) peerID + 1) (mc_rttCount mc) \<noteq> mc_rttCount mc"
      by (metis fmupd_lookup get0_def option.simps(5) add_cancel_left_right one_neq_zero)
    ultimately show ?thesis using pos by auto
  qed
qed

theorem ProbePeerRTT_submillisecond_witness:
  "ProbePeerRTT (Some 400000) ''n2'' ''10.0.0.2:9000'' (NewMetricsCollector None None (\<lambda>_. None) ''n1'' 100 [])
     = NewMetricsCollector None None (\<lambda>_. None) ''n1'' 100 []"
  using ProbePeerRTT_submillisecond [of 400000 "''n2''" "''10.0.0.2:9000''"] by simp

end
