(* ===== verification/Rebalance.thy ===== *)
theory Rebalance
  imports Target_Counts Node_Metrics
begin

text \<open>
  The leader's placement decisions (\<^verbatim>\<open>src/cluster/replication.go\<close>): \<^verbatim>\<open>UpdatePlacement\<close>, which
  assigns all vnodes anew, \<^verbatim>\<open>UpdatePlacementShortTerm\<close>, which swaps roles away from overloaded
  owners, and the tickers of \<^verbatim>\<open>StartMetricsReporter\<close> that run them. The Raft node is an argument:
  absent, or present with its leadership and the error its commit returns.
\<close>

section \<open>Members and drift\<close>

definition member_id :: "Member \<Rightarrow> string" where
  "member_id mb = (case parseMeta (mb_Meta mb) of Inl _ \<Rightarrow> mb_Name mb | Inr (peerID, _) \<Rightarrow> peerID)"

definition active_metrics :: "Member list \<Rightarrow> NodeMetrics list \<Rightarrow> NodeMetrics list" where
  "active_metrics members allMetrics = filter (\<lambda>m. nm_NodeID m \<in> set (map member_id members)) allMetrics"

definition sortedCopy :: "string list \<Rightarrow> string list" where
  "sortedCopy s = sort_by (<) s"

definition cloneVNodes :: "VNode list \<Rightarrow> VNode list" where
  "cloneVNodes src = map (\<lambda>v. v\<lparr>vn_Replicas := vn_Replicas v\<rparr>) src"

definition moved_primaries :: "VNode list \<Rightarrow> VNode list \<Rightarrow> int" where
  "moved_primaries new old = int (length (filter (\<lambda>(v, w). vn_Primary v \<noteq> vn_Primary w) (zip new old)))"

definition moved_replicas :: "VNode list \<Rightarrow> VNode list \<Rightarrow> int" where
  "moved_replicas new old =
     int (length (filter (\<lambda>(v, w). sortedCopy (vn_Replicas w) \<noteq> sortedCopy (vn_Replicas v)) (zip new old)))"

definition primaryThreshold :: int where "primaryThreshold = int VNodeCount * 12 sdiv 100"

definition replicaThreshold :: "int \<Rightarrow> int" where
  "replicaThreshold rf = int VNodeCount * (rf - 1) sdiv 5"

section \<open>The long-term update\<close>

definition propose_placement ::
  "(string \<Rightarrow> u64) \<Rightarrow> int \<Rightarrow> NodeMetrics list \<Rightarrow> rtt_matrix \<Rightarrow> Placement option \<Rightarrow> placement_panic + Placement option"
where
  "propose_placement hash rf activeMetrics rttMatrix prev =
     (let scores = CalculateScores activeMetrics;
          prevEpoch = (case prev of None \<Rightarrow> 0 | Some p \<Rightarrow> pl_Epoch p);
          prevVNodes = (case prev of None \<Rightarrow> [] | Some p \<Rightarrow> if length (pl_VNodes p) = VNodeCount then cloneVNodes (pl_VNodes p) else []);
          pl0 = \<lparr>pl_Epoch = prevEpoch, pl_Nodes = scores, pl_VNodes = prevVNodes\<rparr>
      in (case GetTargetVNodeCount scores of
            Inl e \<Rightarrow> Inl e
          | Inr counts \<Rightarrow>
              (case AssignVNodes hash counts pl0 of
                 Inl e \<Rightarrow> Inl e
               | Inr pl1 \<Rightarrow>
                   (let pl = AssignReplicas hash activeMetrics rttMatrix rf pl1
                    in (case prev of
                          Some p \<Rightarrow>
                            if length (pl_VNodes p) = VNodeCount
                            then if moved_primaries (pl_VNodes pl) (pl_VNodes p) < primaryThreshold
                                    \<and> moved_replicas (pl_VNodes pl) (pl_VNodes p) < replicaThreshold rf
                                 then Inr None
                                 else Inr (Some (pl\<lparr>pl_Epoch := pl_Epoch p + 1\<rparr>))
                            else Inr (Some (pl\<lparr>pl_Epoch := 1\<rparr>))
                        | None \<Rightarrow> Inr (Some (pl\<lparr>pl_Epoch := 1\<rparr>)))))))"

text \<open>
  Committing: through Raft if there is a Raft node (\<^verbatim>\<open>apply_err\<close> is the error of \<^verbatim>\<open>ApplyPlacement\<close>),
  else locally. The second component is the placement handed to Raft.
\<close>

definition commit_placement ::
  "bool option \<Rightarrow> (Placement \<Rightarrow> string option) \<Rightarrow> Placement \<Rightarrow> Replicator \<Rightarrow> Replicator \<times> Placement option" where
  "commit_placement leader apply_err pl r =
     (case leader of
        Some _ \<Rightarrow> (case apply_err pl of Some _ \<Rightarrow> (r, None) | None \<Rightarrow> (r, Some pl))
      | None \<Rightarrow> (SetPlacement (Some pl) r, None))"

definition UpdatePlacement ::
  "(string \<Rightarrow> u64) \<Rightarrow> bool option \<Rightarrow> (Placement \<Rightarrow> string option) \<Rightarrow> Member list option \<Rightarrow> Replicator
   \<Rightarrow> placement_panic + Replicator \<times> Placement option" where
  "UpdatePlacement hash leader apply_err members r =
     (if leader = Some False then Inr (r, None)
      else (case members of
              None \<Rightarrow> Inr (r, None)
            | Some ms \<Rightarrow>
                if ms = [] then Inr (r, None)
                else (let activeMetrics = active_metrics ms (rp_metrics r)
                      in if activeMetrics = [] then Inr (r, None)
                         else (case propose_placement hash (rp_ReplicationFactor r) activeMetrics (rp_rttMatrix r) (rp_placement r) of
                                 Inl e \<Rightarrow> Inl e
                               | Inr None \<Rightarrow> Inr (r, None)
                               | Inr (Some pl) \<Rightarrow> Inr (commit_placement leader apply_err pl r)))))"

section \<open>The short-term update\<close>

definition averageRTT :: "NodeMetrics list \<Rightarrow> f64" where
  "averageRTT metrics =
     (let good = filter (\<lambda>m. flt (Fin 0) (nm_AvgRTT m)) metrics
      in if good = [] then Fin 0
         else fdiv (fold (\<lambda>m tot. fadd tot (nm_AvgRTT m)) good (Fin 0)) (of_go_int (int (length good))))"

definition isSeverelyDegraded :: "NodeMetrics \<Rightarrow> f64 \<Rightarrow> bool" where
  "isSeverelyDegraded m clusterAvgRTT =
     (if fle (fl (9 / 10)) (nm_CPUUsage m) then True
      else if fle (fl (9 / 10)) (nm_DiskUsage m) then True
      else (let cand = fmul (Fin 2) clusterAvgRTT;
                rttThreshold = (if flt (Fin 0) clusterAvgRTT \<and> flt (Fin 120) cand then cand else Fin 120)
            in flt (Fin 0) (nm_AvgRTT m) \<and> fle rttThreshold (nm_AvgRTT m)))"

record degradation =
  dg_now :: "(string, bool) fmap"
  dg_sustained :: "(string, bool) fmap"
  dg_streak :: "(string, int) fmap"

definition degrade_step :: "f64 \<Rightarrow> NodeMetrics \<Rightarrow> degradation \<Rightarrow> degradation" where
  "degrade_step clusterAvgRTT m d =
     (let nid = nm_NodeID m;
          bad = isSeverelyDegraded m clusterAvgRTT;
          streak = fmupd nid (if bad then get0 (dg_streak d) nid + 1 else 0) (dg_streak d)
      in d\<lparr>dg_now := fmupd nid bad (dg_now d), dg_streak := streak,
           dg_sustained := (if 6 \<le> get0 streak nid then fmupd nid True (dg_sustained d) else dg_sustained d)\<rparr>)"

definition flag :: "(string, bool) fmap \<Rightarrow> string \<Rightarrow> bool" where
  "flag m nid \<longleftrightarrow> fmlookup m nid = Some True"

definition score_by_id :: "NodeInfo list \<Rightarrow> (string, f64) fmap" where
  "score_by_id scores = fold (\<lambda>n m. fmupd (ni_ID n) (ni_Score n) m) scores fmempty"

text \<open>The loop over the replicas of one vnode; the accumulator is \<^verbatim>\<open>bestScore\<close> and the best index with its id.\<close>

fun best_replica ::
  "(string, bool) fmap \<Rightarrow> (string, f64) fmap \<Rightarrow> nat \<Rightarrow> string list \<Rightarrow> f64 \<times> (nat \<times> string) option \<Rightarrow> f64 \<times> (nat \<times> string) option"
where
  "best_replica degradedNow scoreByID idx [] acc = acc"
| "best_replica degradedNow scoreByID idx (replicaID # rs) (bestScore, best) =
     (if flag degradedNow replicaID then best_replica degradedNow scoreByID (Suc idx) rs (bestScore, best)
      else (case fmlookup scoreByID replicaID of
              None \<Rightarrow> best_replica degradedNow scoreByID (Suc idx) rs (bestScore, best)
            | Some replicaScore \<Rightarrow>
                if flt replicaScore (fmul bestScore (fl (9 / 10)))
                then best_replica degradedNow scoreByID (Suc idx) rs (replicaScore, Some (idx, replicaID))
                else best_replica degradedNow scoreByID (Suc idx) rs (bestScore, best)))"

definition swap_vnode :: "degradation \<Rightarrow> (string, f64) fmap \<Rightarrow> VNode \<Rightarrow> VNode option" where
  "swap_vnode d scoreByID v =
     (if vn_Primary v = [] \<or> vn_Replicas v = [] then None
      else if \<not> flag (dg_sustained d) (vn_Primary v) then None
      else (case fmlookup scoreByID (vn_Primary v) of
              None \<Rightarrow> None
            | Some primaryScore \<Rightarrow>
                (case snd (best_replica (dg_now d) scoreByID 0 (vn_Replicas v) (primaryScore, None)) of
                   None \<Rightarrow> None
                 | Some (idx, bestID) \<Rightarrow>
                     if bestID \<noteq> vn_Primary v
                     then Some (v\<lparr>vn_Primary := bestID, vn_Replicas := (vn_Replicas v)[idx := vn_Primary v]\<rparr>)
                     else None)))"

definition swap_vnodes :: "degradation \<Rightarrow> (string, f64) fmap \<Rightarrow> VNode list \<Rightarrow> VNode list" where
  "swap_vnodes d scoreByID vs = map (\<lambda>v. case swap_vnode d scoreByID v of None \<Rightarrow> v | Some v' \<Rightarrow> v') vs"

definition count_swaps :: "degradation \<Rightarrow> (string, f64) fmap \<Rightarrow> VNode list \<Rightarrow> int" where
  "count_swaps d scoreByID vs = int (length (filter (\<lambda>v. swap_vnode d scoreByID v \<noteq> None) vs))"

definition shortThreshold :: int where
  "shortThreshold = (let t = (int VNodeCount * 1) sdiv 100 in if t < 1 then 1 else t)"

definition UpdatePlacementShortTerm ::
  "bool option \<Rightarrow> (Placement \<Rightarrow> string option) \<Rightarrow> Member list option \<Rightarrow> Replicator \<Rightarrow> Replicator \<times> Placement option" where
  "UpdatePlacementShortTerm leader apply_err members r =
     (if leader = Some False then (r, None)
      else (case (rp_placement r, members) of
              (Some prev, Some ms) \<Rightarrow>
                if length (pl_VNodes prev) \<noteq> VNodeCount \<or> ms = [] then (r, None)
                else (let activeMetrics = active_metrics ms (rp_metrics r)
                      in if activeMetrics = [] then (r, None)
                         else (let scores = CalculateScores activeMetrics;
                                   scoreByID = score_by_id scores;
                                   d = fold (degrade_step (averageRTT activeMetrics)) activeMetrics
                                         \<lparr>dg_now = fmempty, dg_sustained = fmempty, dg_streak = rp_degradedStreak r\<rparr>;
                                   r' = r\<lparr>rp_degradedStreak := dg_streak d\<rparr>;
                                   vs = cloneVNodes (pl_VNodes prev);
                                   swaps = count_swaps d scoreByID vs
                               in if swaps = 0 \<or> swaps < shortThreshold then (r', None)
                                  else commit_placement leader apply_err
                                         \<lparr>pl_Epoch = pl_Epoch prev + 1, pl_Nodes = scores, pl_VNodes = swap_vnodes d scoreByID vs\<rparr> r'))
            | _ \<Rightarrow> (r, None)))"

section \<open>The tickers\<close>

datatype tick = PublishTick readings | ShortTick | LongTick

record cluster_env =
  env_hash :: "string \<Rightarrow> u64"
  env_rng :: "string fset \<Rightarrow> string list"
  env_marshal :: "GossipMetricsMessage \<Rightarrow> string + bytes"
  env_dialled :: "string \<Rightarrow> int option"
  env_leader :: "bool option"
  env_apply_err :: "Placement \<Rightarrow> string option"
  env_members :: "Member list option"

record reporter =
  rs_repl :: Replicator
  rs_collector :: "MetricsCollector option"
  rs_initialPlacementDone :: bool
  rs_metricsTick :: int

definition reporter_update :: "cluster_env \<Rightarrow> reporter \<Rightarrow> placement_panic + reporter \<times> Placement option" where
  "reporter_update env s =
     (case UpdatePlacement (env_hash env) (env_leader env) (env_apply_err env) (env_members env) (rs_repl s) of
        Inl e \<Rightarrow> Inl e
      | Inr (r, q) \<Rightarrow> Inr (s\<lparr>rs_repl := r\<rparr>, q))"

definition reporter_step :: "cluster_env \<Rightarrow> tick \<Rightarrow> reporter \<Rightarrow> placement_panic + reporter \<times> Placement option" where
  "reporter_step env t s =
     (case t of
        PublishTick rd \<Rightarrow>
          (let n = rs_metricsTick s + 1;
               (_, r, mc) = publishLocalMetrics (env_rng env) (env_marshal env) (env_dialled env) rd (n smod 3 = 0)
                              (env_members env) (rs_repl s) (rs_collector s);
               s' = s\<lparr>rs_repl := r, rs_collector := mc, rs_metricsTick := n\<rparr>
           in if \<not> rs_initialPlacementDone s \<and> env_leader env \<noteq> Some False
              then reporter_update env (s'\<lparr>rs_initialPlacementDone := True\<rparr>)
              else Inr (s', None))
      | ShortTick \<Rightarrow>
          if env_leader env = Some False then Inr (s, None)
          else (let (r, q) = UpdatePlacementShortTerm (env_leader env) (env_apply_err env) (env_members env) (rs_repl s)
                in Inr (s\<lparr>rs_repl := r\<rparr>, q))
      | LongTick \<Rightarrow> if env_leader env = Some False then Inr (s, None) else reporter_update env s)"

section \<open>Assignment never panics\<close>

lemma sum_occ: "finite D \<Longrightarrow> (\<Sum>nid\<in>D. occ nid vs) = length (filter (\<lambda>v. vn_Primary v \<in> D) vs)"
  by (induction vs) (simp_all add: sum.distrib)

text \<open>
  For any scores of nodes with different, non-empty ids, the targets can be assigned, and
  then every vnode is owned by one of the nodes.
\<close>

lemma assign_total:
  assumes "ring (ring_of p)" "nodes \<noteq> []" "distinct (map ni_ID nodes)" "length nodes \<le> 2 ^ 20"
    and "'''' \<notin> ni_ID ` set nodes"
  shows "\<exists>c vs. GetTargetVNodeCount nodes = Inr c \<and> AssignVNodes hash c p = Inr (p\<lparr>pl_VNodes := vs\<rparr>)
    \<and> ring vs \<and> (\<forall>v\<in>set vs. vn_Primary v \<in> ni_ID ` set nodes)"
proof -
  from target_counts [OF assms(2-4)] obtain c where c: "GetTargetVNodeCount nodes = Inr c"
    "fm_sum (\<lambda>n. n) c = int VNodeCount" and look: "\<forall>nid k. fmlookup c nid = Some k \<longrightarrow> 0 \<le> k \<and> nid \<in> ni_ID ` set nodes"
    by blast
  have c0: "\<forall>nid k. fmlookup c nid = Some k \<longrightarrow> 0 \<le> k" "fmlookup c '''' = None"
    using look assms(5) by (blast, cases "fmlookup c ''''") auto
  from AssignVNodes_spec(2) [OF assms(1) c0 c(2), of hash] obtain vs1 vs where
    vs: "AssignVNodes hash c p = Inr (p\<lparr>pl_VNodes := vs\<rparr>)" "length vs = VNodeCount"
    "list_all2 (\<lambda>v v'. v' = v \<or> v' = v\<lparr>vn_Primary := ''''\<rparr>) (ring_of p) vs1"
    "\<forall>i<VNodeCount. (\<exists>b. vs ! i = (vs1 ! i)\<lparr>vn_Primary := b\<rparr>) \<and> (vn_Primary (vs1 ! i) \<noteq> '''' \<longrightarrow> vs ! i = vs1 ! i)"
    "\<forall>nid. nid \<noteq> '''' \<longrightarrow> int (occ nid vs1) = min (int (occ nid (ring_of p))) (get0 c nid) \<and> int (occ nid vs) = get0 c nid"
    by blast
  have "ring vs1" by (rule list_all2_ring [OF assms(1) vs(3)])
  then have "ring vs" using vs(2,4) by (auto simp: ring_def)
  let ?D = "fset (fmdom c)"
  have D: "nid \<noteq> ''''" "nid \<in> ni_ID ` set nodes" if "nid \<in> ?D" for nid
    using that look c0(2) by (auto simp: fmlookup_dom_iff)
  have "int (\<Sum>nid\<in>?D. occ nid vs) = (\<Sum>nid\<in>?D. get0 c nid)"
    unfolding of_nat_sum using vs(5) D(1) by (intro sum.cong) auto
  then have "length (filter (\<lambda>v. vn_Primary v \<in> ?D) vs) = length vs"
    using c(2) vs(2) by (simp add: sum_occ fm_sum_get0)
  then have "\<forall>v\<in>set vs. vn_Primary v \<in> ?D" by (metis (lifting) filter_True length_filter_less less_irrefl)
  with D(2) c(1) vs(1) \<open>ring vs\<close> show ?thesis by blast
qed

lemma cloneVNodes_id [simp]: "cloneVNodes vs = vs"
  by (simp add: cloneVNodes_def)

text \<open>A placement the leader may commit: a full ring of owned vnodes with proper replicas.\<close>

definition placement_ok :: "string set \<Rightarrow> int \<Rightarrow> Placement \<Rightarrow> bool" where
  "placement_ok ids rf p \<longleftrightarrow> ring (pl_VNodes p) \<and> (\<forall>v\<in>set (pl_VNodes p). replicas_ok ids rf v)"

definition next_epoch :: "Placement option \<Rightarrow> u64" where
  "next_epoch prev = (case prev of Some p \<Rightarrow> if length (pl_VNodes p) = VNodeCount then pl_Epoch p + 1 else 1 | None \<Rightarrow> 1)"

lemma propose_placement_ok:
  fixes ms :: "NodeMetrics list"
  assumes ms: "ms \<noteq> []" "distinct (map nm_NodeID ms)" "[] \<notin> nm_NodeID ` set ms" "length ms \<le> 2 ^ 20"
    and prev: "\<forall>p. prev = Some p \<and> length (pl_VNodes p) = VNodeCount \<longrightarrow> ring (pl_VNodes p)"
  shows "\<exists>q. propose_placement hash rf ms rttMatrix prev = Inr q
    \<and> (\<forall>pl. q = Some pl \<longrightarrow> placement_ok (nm_NodeID ` set ms) rf pl \<and> pl_Nodes pl = CalculateScores ms \<and> pl_Epoch pl = next_epoch prev)"
proof -
  let ?s = "CalculateScores ms" and ?e = "case prev of None \<Rightarrow> 0 | Some p \<Rightarrow> pl_Epoch p"
  define vs0 where "vs0 = (case prev of None \<Rightarrow> [] | Some p \<Rightarrow> if length (pl_VNodes p) = VNodeCount then pl_VNodes p else [])"
  define pl0 where "pl0 = \<lparr>pl_Epoch = ?e, pl_Nodes = ?s, pl_VNodes = vs0\<rparr>"
  have ids: "ni_ID ` set ?s = nm_NodeID ` set ms" by (metis CalculateScores_IDs set_map)
  have "ring (ring_of pl0)" using prev ring_Initialize
    by (auto simp: ring_of_def pl0_def vs0_def VNodeCount_def split: option.splits)
  then obtain c vs where c: "GetTargetVNodeCount ?s = Inr c" "AssignVNodes hash c pl0 = Inr (pl0\<lparr>pl_VNodes := vs\<rparr>)"
    and vs: "ring vs" "\<forall>v\<in>set vs. vn_Primary v \<in> ni_ID ` set ?s"
    using assign_total [of pl0 ?s hash] ms by (auto simp: ids)
  obtain ws where ws: "AssignReplicas hash ms rttMatrix rf (pl0\<lparr>pl_VNodes := vs\<rparr>) = pl0\<lparr>pl_VNodes := ws\<rparr>" "ring ws"
    "\<forall>v\<in>set ws. replicas_ok (nm_NodeID ` set ms) rf v"
    using AssignReplicas_ok [of "pl0\<lparr>pl_VNodes := vs\<rparr>" hash ms rttMatrix rf] vs ms(2,3) by (auto simp: pl0_def ids)
  have "propose_placement hash rf ms rttMatrix prev \<in>
      {Inr None, Inr (Some (pl0\<lparr>pl_VNodes := ws, pl_Epoch := next_epoch prev\<rparr>))}"
    using c ws(1) unfolding propose_placement_def Let_def cloneVNodes_id vs0_def [symmetric] pl0_def [symmetric]
    by (auto simp: next_epoch_def split: option.splits)
  then show ?thesis using ws(2,3) by (auto simp: placement_ok_def pl0_def)
qed

lemma active_metrics_ok:
  assumes "metrics_ok r"
  shows "distinct (map nm_NodeID (active_metrics ms (rp_metrics r)))"
    "[] \<notin> nm_NodeID ` set (active_metrics ms (rp_metrics r))"
    "length (active_metrics ms (rp_metrics r)) \<le> length (rp_metrics r)"
    "nm_NodeID ` set (active_metrics ms (rp_metrics r)) \<subseteq> member_id ` set ms"
  using assms by (auto simp: metrics_ok_def active_metrics_def distinct_map_filter)

section \<open>Properties\<close>

text \<open>
  C9. The long-term update never panics: for a well-formed view of the cluster (which
  every sequence of gossip messages gives), up to $2^{20}$ nodes, any members and any valid previous
  placement. Whatever it commits, to Raft or locally, is a full ring of 1024 vnodes, each owned by a current member, with at
  most \<^verbatim>\<open>rf - 1\<close> different members as replicas, none of them the owner, and carries the next epoch.
\<close>

theorem UpdatePlacement_safe:
  assumes "metrics_ok r" "length (rp_metrics r) \<le> 2 ^ 20"
    and "\<forall>p. rp_placement r = Some p \<and> length (pl_VNodes p) = VNodeCount \<longrightarrow> ring (pl_VNodes p)"
  shows "\<exists>r' q. UpdatePlacement hash leader apply_err (Some ms) r = Inr (r', q)
    \<and> (rp_placement r' \<noteq> rp_placement r \<longrightarrow> leader = None)
    \<and> (\<forall>pl. (q = Some pl \<or> rp_placement r' = Some pl \<and> rp_placement r' \<noteq> rp_placement r) \<longrightarrow>
        placement_ok (member_id ` set ms) (rp_ReplicationFactor r) pl \<and> pl_Epoch pl = next_epoch (rp_placement r))"
proof -
  let ?a = "active_metrics ms (rp_metrics r)"
  note a = active_metrics_ok [OF assms(1), of ms]
  show ?thesis
  proof (cases "leader = Some False \<or> ms = [] \<or> ?a = []")
    case True
    then show ?thesis by (auto simp: UpdatePlacement_def)
  next
    case False
    then have ne: "?a \<noteq> []" by simp
    have "length ?a \<le> 2 ^ 20" using a(3) assms(2) by linarith
    from propose_placement_ok [OF ne a(1,2) this assms(3), of hash "rp_ReplicationFactor r" "rp_rttMatrix r"]
    obtain q where q: "propose_placement hash (rp_ReplicationFactor r) ?a (rp_rttMatrix r) (rp_placement r) = Inr q"
      "\<forall>pl. q = Some pl \<longrightarrow> placement_ok (nm_NodeID ` set ?a) (rp_ReplicationFactor r) pl \<and> pl_Nodes pl = CalculateScores ?a
        \<and> pl_Epoch pl = next_epoch (rp_placement r)" by blast
    have mono: "placement_ok (nm_NodeID ` set ?a) rf pl \<Longrightarrow> placement_ok (member_id ` set ms) rf pl" for rf pl
      unfolding placement_ok_def replicas_ok_def using a(4) by blast
    have run: "UpdatePlacement hash leader apply_err (Some ms) r =
        (case q of None \<Rightarrow> Inr (r, None) | Some pl \<Rightarrow> Inr (commit_placement leader apply_err pl r))"
      using False q(1) by (simp add: UpdatePlacement_def)
    show ?thesis
    proof (cases q)
      case None
      then show ?thesis by (simp add: run)
    next
      case (Some pl)
      with q(2) mono have "placement_ok (member_id ` set ms) (rp_ReplicationFactor r) pl" "pl_Epoch pl = next_epoch (rp_placement r)"
        by auto
      then show ?thesis by (auto simp: run Some commit_placement_def SetPlacement_def split: option.splits)
    qed
  qed
qed

theorem UpdatePlacement_safe_witness:
  "\<exists>r' q. UpdatePlacement (\<lambda>_. 0) (Some True) (\<lambda>_. None) (Some [\<lparr>mb_Name = ''a'', mb_Meta = ''a,10.0.0.1:9000''\<rparr>])
     (HandleMetricsMessage (Some (gossip_message (idle_node ''a'') fmempty 0)) (NewReplicator ''a'' 3)) = Inr (r', q)"
proof -
  let ?r = "HandleMetricsMessage (Some (gossip_message (idle_node ''a'') fmempty 0)) (NewReplicator ''a'' 3)"
  have "metrics_ok ?r"
    by (rule metrics_ok_Handle [OF metrics_ok_New]) (simp add: usages_defined_def gossip_message_def idle_node_def)
  moreover have "rp_placement ?r = None" "length (rp_metrics ?r) = 1"
    by (simp_all add: HandleMetricsMessage_def NewReplicator_def smoothMetricsLocked_def Let_def gossip_message_def idle_node_def)
  ultimately show ?thesis
    using UpdatePlacement_safe [of ?r "\<lambda>_. 0" "Some True" "\<lambda>_. None" "[\<lparr>mb_Name = ''a'', mb_Meta = ''a,10.0.0.1:9000''\<rparr>]"]
    by auto
qed

text \<open>
  With a replication factor of one (or less) the hysteresis has no effect: the replica threshold is
  then not positive, so every long-term update commits a placement with a new epoch, also when no vnode
  moved at all.
\<close>

theorem hysteresis_rf1:
  assumes "rf \<le> 1" "propose_placement hash rf ms rttMatrix prev = Inr q"
  shows "\<exists>pl. q = Some pl \<and> pl_Epoch pl = next_epoch prev"
proof -
  have "replicaThreshold rf \<le> 0"
    using assms(1) by (cases "rf = 1") (simp_all add: replicaThreshold_def signed_divide_int_def VNodeCount_def pos_imp_zdiv_nonneg_iff)
  moreover have "0 \<le> moved_replicas new old" for new old by (simp add: moved_replicas_def)
  ultimately have "\<not> moved_replicas new old < replicaThreshold rf" for new old by (meson not_less order_trans)
  then show ?thesis using assms(2)
    by (auto simp: propose_placement_def Let_def next_epoch_def split: sum.splits option.splits if_splits)
qed

theorem hysteresis_rf1_witness:
  "\<exists>pl. propose_placement (\<lambda>_. 0) 1 [idle_node ''a''] fmempty None = Inr (Some pl) \<and> pl_Epoch pl = 1"
proof -
  obtain q where q: "propose_placement (\<lambda>_. 0) 1 [idle_node ''a''] fmempty None = Inr q"
    using propose_placement_ok [of "[idle_node ''a'']" None "\<lambda>_. 0" 1 fmempty] by (auto simp: idle_node_def)
  from hysteresis_rf1 [OF _ q] q show ?thesis by (auto simp: next_epoch_def)
qed

section \<open>Role swaps\<close>

lemma best_replica_spec:
  assumes "best_replica now score idx rs (s0, b0) = (s, Some (i, nid))"
  shows "b0 = Some (i, nid) \<or> (idx \<le> i \<and> i - idx < length rs \<and> rs ! (i - idx) = nid \<and> \<not> flag now nid)"
  using assms
proof (induction now score idx rs "(s0, b0)" arbitrary: s0 b0 rule: best_replica.induct)
  case (2 now score idx rid rs s0 b0)
  have shift: "(Suc idx \<le> i \<and> i - Suc idx < length rs \<and> rs ! (i - Suc idx) = nid \<and> \<not> flag now nid)
      \<Longrightarrow> (idx \<le> i \<and> i - idx < length (rid # rs) \<and> (rid # rs) ! (i - idx) = nid \<and> \<not> flag now nid)"
    by (auto simp: nth_Cons' le_Suc_eq Suc_diff_le)
  show ?case
  proof (cases "flag now rid")
    case True
    with 2 shift show ?thesis by auto
  next
    case False
    with 2 shift show ?thesis by (auto split: option.splits if_splits)
  qed
qed simp

lemma swap_vnode_spec:
  assumes "swap_vnode d score v = Some v'"
  shows "vn_ID v' = vn_ID v" "flag (dg_sustained d) (vn_Primary v)" "\<not> flag (dg_now d) (vn_Primary v')"
    "mset (vn_Primary v' # vn_Replicas v') = mset (vn_Primary v # vn_Replicas v)" "vn_Primary v' \<in> set (vn_Replicas v)"
proof -
  from assms obtain s0 s i nid where v: "flag (dg_sustained d) (vn_Primary v)"
    and b: "best_replica (dg_now d) score 0 (vn_Replicas v) (s0, None) = (s, Some (i, nid))"
    and v': "v' = v\<lparr>vn_Primary := nid, vn_Replicas := (vn_Replicas v)[i := vn_Primary v]\<rparr>"
    by (auto simp: swap_vnode_def split: if_splits option.splits) (metis prod.collapse)
  from best_replica_spec [OF b] have i: "i < length (vn_Replicas v)" "vn_Replicas v ! i = nid" "\<not> flag (dg_now d) nid" by auto
  show "vn_ID v' = vn_ID v" "flag (dg_sustained d) (vn_Primary v)" "\<not> flag (dg_now d) (vn_Primary v')"
    "vn_Primary v' \<in> set (vn_Replicas v)" using v v' i by auto
  have "nid \<in># mset (vn_Replicas v)" using i by auto
  then show "mset (vn_Primary v' # vn_Replicas v') = mset (vn_Primary v # vn_Replicas v)"
    using i by (simp add: v' mset_update add_mset_commute)
qed

lemma sustained_streak:
  assumes "distinct (map nm_NodeID ms)" "\<forall>m\<in>set ms. \<not> flag (dg_sustained d) (nm_NodeID m)"
    and "\<forall>nid. flag (dg_sustained d) nid \<longrightarrow> 6 \<le> get0 (dg_streak d) nid"
  shows "flag (dg_sustained (fold (degrade_step avg) ms d)) nid \<Longrightarrow> 6 \<le> get0 (dg_streak (fold (degrade_step avg) ms d)) nid"
  using assms
proof (induction ms arbitrary: d)
  case (Cons m ms)
  let ?d = "degrade_step avg m d"
  have others: "flag (dg_sustained ?d) n = flag (dg_sustained d) n" "get0 (dg_streak ?d) n = get0 (dg_streak d) n"
    if "n \<noteq> nm_NodeID m" for n using that by (auto simp: degrade_step_def Let_def flag_def go_simps)
  have "flag (dg_sustained ?d) (nm_NodeID m) \<longrightarrow> 6 \<le> get0 (dg_streak ?d) (nm_NodeID m)"
    using Cons.prems(3) by (auto simp: degrade_step_def Let_def flag_def)
  with others Cons.prems(4) have "\<forall>n. flag (dg_sustained ?d) n \<longrightarrow> 6 \<le> get0 (dg_streak ?d) n" by metis
  moreover have "\<forall>x\<in>set ms. \<not> flag (dg_sustained ?d) (nm_NodeID x)"
    using others(1) Cons.prems(2,3) by (metis distinct.simps(2) image_eqI list.simps(9) set_ConsD list.set_intros(2) set_map)
  ultimately show ?case using Cons by simp
qed simp

lemma moved_swapped: "moved_primaries (swap_vnodes d score vs) vs = count_swaps d score vs"
proof -
  have "vn_Primary (case swap_vnode d score v of None \<Rightarrow> v | Some v' \<Rightarrow> v') \<noteq> vn_Primary v \<longleftrightarrow> swap_vnode d score v \<noteq> None" for v
    by (auto simp: swap_vnode_def split: option.splits if_splits)
  then show ?thesis
    by (induction vs) (simp_all add: moved_primaries_def count_swaps_def swap_vnodes_def)
qed

lemma shortThreshold_10: "shortThreshold = 10"
  by (simp add: shortThreshold_def VNodeCount_def signed_divide_int_def)

text \<open>
  C23. Role swaps move no data. What the short-term update commits differs from the committed placement only
  in vnodes whose owner was overloaded for six evaluations in a row: there the owner and one of its
  replicas exchanged their roles, so every vnode keeps the same nodes. It commits only with at least ten swaps, under
  the next epoch, and changes nothing else of the node's state but the streak counters.
\<close>

theorem short_term_swaps:
  assumes "metrics_ok r" "rp_placement r = Some prev"
    and "UpdatePlacementShortTerm (Some True) apply_err members r = (r', Some pl)"
  shows "r' = r\<lparr>rp_degradedStreak := rp_degradedStreak r'\<rparr> \<and> pl_Epoch pl = pl_Epoch prev + 1
    \<and> length (pl_VNodes pl) = length (pl_VNodes prev) \<and> 10 \<le> moved_primaries (pl_VNodes pl) (pl_VNodes prev)
    \<and> (\<forall>i<length (pl_VNodes prev). let v = pl_VNodes prev ! i; v' = pl_VNodes pl ! i in
        v' = v \<or> vn_ID v' = vn_ID v \<and> 6 \<le> get0 (rp_degradedStreak r') (vn_Primary v) \<and> vn_Primary v' \<in> set (vn_Replicas v)
          \<and> mset (vn_Primary v' # vn_Replicas v') = mset (vn_Primary v # vn_Replicas v))"
proof -
  from assms(2,3) obtain ms where ms: "members = Some ms" by (cases members) (auto simp: UpdatePlacementShortTerm_def)
  define a where "a = active_metrics ms (rp_metrics r)"
  define score where "score = score_by_id (CalculateScores a)"
  define d where "d = fold (degrade_step (averageRTT a)) a \<lparr>dg_now = fmempty, dg_sustained = fmempty, dg_streak = rp_degradedStreak r\<rparr>"
  from assms(2,3) ms have res: "r' = r\<lparr>rp_degradedStreak := dg_streak d\<rparr>" "10 \<le> count_swaps d score (pl_VNodes prev)"
    "pl = \<lparr>pl_Epoch = pl_Epoch prev + 1, pl_Nodes = CalculateScores a, pl_VNodes = swap_vnodes d score (pl_VNodes prev)\<rparr>"
    by (auto simp: UpdatePlacementShortTerm_def commit_placement_def Let_def shortThreshold_10
        simp flip: a_def score_def d_def split: if_splits option.splits)
  have sus: "6 \<le> get0 (dg_streak d) nid" if "flag (dg_sustained d) nid" for nid
    using that unfolding d_def
    by (rule sustained_streak [rotated 3]) (use active_metrics_ok(1) [OF assms(1)] in \<open>simp_all add: a_def flag_def\<close>)
  have "let v = pl_VNodes prev ! i; v' = pl_VNodes pl ! i in
        v' = v \<or> vn_ID v' = vn_ID v \<and> 6 \<le> get0 (rp_degradedStreak r') (vn_Primary v) \<and> vn_Primary v' \<in> set (vn_Replicas v)
          \<and> mset (vn_Primary v' # vn_Replicas v') = mset (vn_Primary v # vn_Replicas v)"
    if "i < length (pl_VNodes prev)" for i
  proof (cases "swap_vnode d score (pl_VNodes prev ! i)")
    case None
    with that show ?thesis by (simp add: res swap_vnodes_def)
  next
    case (Some v')
    with that swap_vnode_spec [OF Some] sus show ?thesis by (simp add: res swap_vnodes_def)
  qed
  then show ?thesis using res moved_swapped [of d score "pl_VNodes prev"] by (simp add: swap_vnodes_def)
qed

text \<open>Two nodes of one core each, one busy and one idle, and a placement owned by the busy one.\<close>

definition busy_node :: "string \<Rightarrow> f64 \<Rightarrow> NodeMetrics" where
  "busy_node nid u = \<lparr>nm_NodeID = nid, nm_AvgRTT = Fin 1, nm_CPUCores = 1, nm_MemGB = 1, nm_BandwidthMbps = 1,
     nm_DiskGB = 1, nm_CPUUsage = u, nm_MemUsage = u, nm_NetUsage = u, nm_DiskUsage = Fin 0\<rparr>"

definition busy_placement :: Placement where
  "busy_placement = \<lparr>pl_Epoch = 3, pl_Nodes = [],
     pl_VNodes = map (\<lambda>i. \<lparr>vn_ID = of_nat i, vn_Token = 0, vn_Primary = ''a'', vn_Replicas = [''b'']\<rparr>) [0..<VNodeCount]\<rparr>"

definition busy_replicator :: Replicator where
  "busy_replicator = (NewReplicator ''a'' 2)
     \<lparr>rp_metrics := [busy_node ''a'' (Fin 1), busy_node ''b'' (Fin 0)], rp_degradedStreak := fmupd ''a'' 5 fmempty,
      rp_placement := Some busy_placement\<rparr>"

lemma busy_avgs: "cluster_avg (\<lambda>m. positive_or (Fin 1) (nm_AvgRTT m)) [busy_node ''a'' u, busy_node ''b'' w] = Fin 1"
  "cluster_avg (\<lambda>m. capacity (nm_CPUCores m)) [busy_node ''a'' u, busy_node ''b'' w] = Fin 1"
  "cluster_avg (\<lambda>m. capacity (nm_MemGB m)) [busy_node ''a'' u, busy_node ''b'' w] = Fin 1"
  "cluster_avg (\<lambda>m. capacity (nm_BandwidthMbps m)) [busy_node ''a'' u, busy_node ''b'' w] = Fin 1"
  "cluster_avg (\<lambda>m. capacity (nm_DiskGB m)) [busy_node ''a'' u, busy_node ''b'' w] = Fin 1"
  by (simp_all add: cluster_avg_def total_of_def busy_node_def positive_or_def capacity_def maxInt_def of_go_int_def fl_numerals)

lemma busy_terms:
  obtains t p where "fdiv (Fin 1) (fadd (Fin 1) f64_nano) = Fin t" "0 \<le> t" "t \<le> 1"
    "disk_penalty (Fin 0) = Fin p" "0 \<le> p" "p \<le> 1"
proof -
  obtain a where a: "fl (101 / 100) = Fin a" "\<bar>a - 101 / 100\<bar> \<le> 1 / 1000" by (rule fl_near [of "101 / 100"]) auto
  obtain b where b: "fl (99 / 100) = Fin b" "\<bar>b - 99 / 100\<bar> \<le> 1 / 1000" by (rule fl_near [of "99 / 100"]) auto
  obtain c where c: "fl a = Fin c" "\<bar>c - a\<bar> \<le> 1 / 1000" by (rule fl_near [of a]) (use a(2) in linarith)+
  have c1: "1 \<le> c" "0 < b" using a b c by linarith+
  obtain p where p: "fl (1 / c) = Fin p" "0 \<le> p" "p \<le> 1" by (rule fl_unit [of "1 / c"]) (use c1 in auto)
  have "disk_penalty (Fin 0) = Fin p"
    using a b c p c1 by (simp add: disk_penalty_def Min64_def fsub_def fneg_def)
  moreover obtain e where e: "f64_nano = Fin e" "1 / 2 ^ 30 \<le> e" by (rule f64_nano_Fin)
  obtain e' where "fl (1 / 10 ^ 9) = Fin e'" "0 \<le> e'" "e' \<le> 1" by (rule fl_unit [of "1 / 10 ^ 9"]) auto
  then have e1: "0 \<le> e" "e \<le> 1" using e by (simp_all add: f64_nano_def)
  obtain d where d: "fl (1 + e) = Fin d" "0 \<le> d" "\<bar>d - (1 + e)\<bar> \<le> 1 / 1000" by (rule fl_near [of "1 + e"]) (use e1 in auto)
  have d1: "1 \<le> d"
  proof -
    have "fl 1 = Fin 1" by (rule fl_numerals)
    then show ?thesis using rnd_mono [of 1 "1 + e"] e1 d(1) by (auto simp: fl_def fl_pos_rnd split: if_splits)
  qed
  obtain t where "fl (1 / d) = Fin t" "0 \<le> t" "t \<le> 1" by (rule fl_unit [of "1 / d"]) (use d1 in auto)
  then have "fdiv (Fin 1) (fadd (Fin 1) f64_nano) = Fin t" "0 \<le> t" "t \<le> 1" using d(1) d1 unfolding e(1) by simp_all
  ultimately show thesis using that p by blast
qed

lemma busy_score:
  assumes t: "fdiv (Fin 1) (fadd (Fin 1) f64_nano) = Fin t" "0 \<le> t" "t \<le> 1"
    and p: "disk_penalty (Fin 0) = Fin p" "0 \<le> p" "p \<le> 1" and u: "u \<in> {0, 1}"
  obtains x where "node_score (Fin 1) (Fin 1) (Fin 1) (Fin 1) (Fin 1) (busy_node nid (Fin u)) = Fin x" "0 \<le> x" "x \<le> 2"
    "\<bar>x - (31 / 100 * t + 55 / 100 * u + 14 / 100 * p)\<bar> \<le> 3 / 100"
proof -
  have u01: "0 \<le> u" "u \<le> 1" "fl u = Fin u" using u by (auto simp: fl_numerals)

  have term_near: "\<exists>y. fmul (fl w) (Fin z) = Fin y \<and> 0 \<le> y \<and> \<bar>y - w * z\<bar> \<le> 2 / 1000"
    if w: "0 \<le> w" "w \<le> 1" and z: "0 \<le> z" "z \<le> 1" for w z
  proof -
    obtain y where y: "fl w = Fin y" "0 \<le> y" "\<bar>y - w\<bar> \<le> 1 / 1000" using fl_near_ex [of w] w by auto
    have yz: "\<bar>y * z - w * z\<bar> \<le> 1 / 1000"
      using mult_mono [of "\<bar>y - w\<bar>" "1 / 1000" z 1] y(3) z by (simp add: abs_mult left_diff_distrib [symmetric])
    have "y \<le> 2" using y w by linarith
    then have "y * z \<le> 2 * 1" using y z by (intro mult_mono) auto
    then obtain v where v: "fl (y * z) = Fin v" "0 \<le> v" "\<bar>v - y * z\<bar> \<le> 1 / 1000" using fl_near_ex [of "y * z"] y(2) z(1) by auto
    have "\<bar>v - w * z\<bar> \<le> 2 / 1000" using v(3) yz by linarith
    with v(1,2) y(1) show ?thesis by simp
  qed
  obtain r where r: "fmul (fl (31 / 100)) (Fin t) = Fin r" "0 \<le> r" "\<bar>r - 31 / 100 * t\<bar> \<le> 2 / 1000" using term_near [of "31 / 100" t] t by auto
  obtain c where c: "fmul (fl (15 / 100)) (Fin u) = Fin c" "0 \<le> c" "\<bar>c - 15 / 100 * u\<bar> \<le> 2 / 1000" using term_near [of "15 / 100" u] u01 by auto
  obtain m where m: "fmul (fl (16 / 100)) (Fin u) = Fin m" "0 \<le> m" "\<bar>m - 16 / 100 * u\<bar> \<le> 2 / 1000" using term_near [of "16 / 100" u] u01 by auto
  obtain n where n: "fmul (fl (24 / 100)) (Fin u) = Fin n" "0 \<le> n" "\<bar>n - 24 / 100 * u\<bar> \<le> 2 / 1000" using term_near [of "24 / 100" u] u01 by auto
  obtain p' where p': "fl p = Fin p'" "0 \<le> p'" "p' \<le> 1" using fl_unit_ex [OF p(2,3)] by blast
  obtain k where k: "fmul (fl (14 / 100)) (Fin p') = Fin k" "0 \<le> k" "\<bar>k - 14 / 100 * p'\<bar> \<le> 2 / 1000" using term_near [of "14 / 100" p'] p' by auto
  have pp: "\<bar>p' - p\<bar> \<le> 1 / 1000" using fl_near_ex [of p] p p'(1) by auto
  note near = r(3) c(3) m(3) n(3) k(3) pp
  note bnd = near [unfolded abs_le_iff]
  obtain s1 where s1: "fl (r + c) = Fin s1" "0 \<le> s1" "\<bar>s1 - (r + c)\<bar> \<le> 1 / 1000" by (rule fl_near [of "r + c"]) (use r(2) c(2) bnd t u01 in linarith)+
  obtain s2 where s2: "fl (s1 + m) = Fin s2" "0 \<le> s2" "\<bar>s2 - (s1 + m)\<bar> \<le> 1 / 1000"
    by (rule fl_near [of "s1 + m"]) (use s1(2) s1(3) [unfolded abs_le_iff] m(2) bnd t u01 in linarith)+
  obtain s3 where s3: "fl (s2 + n) = Fin s3" "0 \<le> s3" "\<bar>s3 - (s2 + n)\<bar> \<le> 1 / 1000"
    by (rule fl_near [of "s2 + n"]) (use s2(2) s1(3) [unfolded abs_le_iff] s2(3) [unfolded abs_le_iff] n(2) bnd t u01 in linarith)+
  obtain s4 where s4: "fl (s3 + k) = Fin s4" "0 \<le> s4" "\<bar>s4 - (s3 + k)\<bar> \<le> 1 / 1000"
    by (rule fl_near [of "s3 + k"]) (use s3(2) s1(3) [unfolded abs_le_iff] s2(3) [unfolded abs_le_iff] s3(3) [unfolded abs_le_iff] k(2) bnd t u01 p' in linarith)+
  have one: "relative 1 (Fin 1) = Fin 1"
    by (simp add: relative_def capacity_def maxInt_def of_go_int_def positive_or_def fl_numerals)
  have clamp: "clampMetric (Fin u) = Fin u" "clampMetric (Fin 0) = Fin 0" "positive_or (Fin 1) (Fin 1) = Fin 1"
    using u01 by (simp_all add: clampMetric_def positive_or_def)
  have "node_score (Fin 1) (Fin 1) (Fin 1) (Fin 1) (Fin 1) (busy_node nid (Fin u)) = Fin s4"
    using t(1) p(1) r(1) c(1) m(1) n(1) p'(1) k(1) s1(1) s2(1) s3(1) s4(1) u01(3)
    by (simp add: node_score_def busy_node_def one clamp WeightRTT_def WeightCPU_def WeightMEM_def WeightNET_def WeightDisk_def)
  moreover have "\<bar>s4 - (31 / 100 * t + 55 / 100 * u + 14 / 100 * p)\<bar> \<le> 3 / 100"
    using s4(3) s3(3) s2(3) s1(3) near unfolding abs_le_iff by linarith
  moreover have "s4 \<le> 2" using calculation(2) t p u01 unfolding abs_le_iff by linarith
  ultimately show thesis using that s4(2) by blast
qed

lemma busy_gap:
  obtains x y where "CalculateScores [busy_node ''a'' (Fin 1), busy_node ''b'' (Fin 0)]
      = [\<lparr>ni_ID = ''a'', ni_Score = Fin x\<rparr>, \<lparr>ni_ID = ''b'', ni_Score = Fin y\<rparr>]" "flt (Fin y) (fmul (Fin x) (fl (9 / 10)))"
proof -
  obtain t p where tp: "fdiv (Fin 1) (fadd (Fin 1) f64_nano) = Fin t" "0 \<le> t" "t \<le> 1" "disk_penalty (Fin 0) = Fin p" "0 \<le> p" "p \<le> 1"
    by (rule busy_terms)
  obtain x where x: "node_score (Fin 1) (Fin 1) (Fin 1) (Fin 1) (Fin 1) (busy_node ''a'' (Fin 1)) = Fin x" "0 \<le> x" "x \<le> 2"
    "\<bar>x - (31 / 100 * t + 55 / 100 * 1 + 14 / 100 * p)\<bar> \<le> 3 / 100" by (rule busy_score [OF tp, of 1 "''a''"]) simp
  obtain y where y: "node_score (Fin 1) (Fin 1) (Fin 1) (Fin 1) (Fin 1) (busy_node ''b'' (Fin 0)) = Fin y" "0 \<le> y" "y \<le> 2"
    "\<bar>y - (31 / 100 * t + 55 / 100 * 0 + 14 / 100 * p)\<bar> \<le> 3 / 100" by (rule busy_score [OF tp, of 0 "''b''"]) simp
  obtain c where c: "fl (9 / 10) = Fin c" "0 \<le> c" "\<bar>c - 9 / 10\<bar> \<le> 1 / 1000" by (rule fl_near [of "9 / 10"]) auto
  have xc: "\<bar>x * c - x * (9 / 10)\<bar> \<le> 2 * (1 / 1000)"
  proof -
    have "x * c - x * (9 / 10) = x * (c - 9 / 10)" by (simp add: algebra_simps)
    then show ?thesis using mult_mono [of x 2 "\<bar>c - 9 / 10\<bar>" "1 / 1000"] x(2,3) c(3) by (simp only: abs_mult) auto
  qed
  have "0 \<le> x * c" using x c by simp
  then obtain z where z: "fl (x * c) = Fin z" "\<bar>z - x * c\<bar> \<le> 1 / 1000" by (rule fl_near) (use xc x in linarith)+
  have "y < z" using x(4) y(4) xc z(2) tp by linarith
  with z c x y that show thesis by (simp add: CalculateScores_def busy_avgs) (simp add: busy_node_def)
qed

lemma busy_degraded: "isSeverelyDegraded (busy_node nid (Fin 1)) avg" "\<not> isSeverelyDegraded (busy_node nid (Fin 0)) avg"
proof -
  obtain c where c: "fl (9 / 10) = Fin c" "0 \<le> c" "\<bar>c - 9 / 10\<bar> \<le> 1 / 1000" by (rule fl_near [of "9 / 10"]) auto
  then have "c \<le> 1" "0 < c" by linarith+
  with c show "isSeverelyDegraded (busy_node nid (Fin 1)) avg" "\<not> isSeverelyDegraded (busy_node nid (Fin 0)) avg"
    by (cases "fmul (Fin 2) avg"; auto simp: isSeverelyDegraded_def busy_node_def Let_def fle_def feq_def)+
qed

theorem short_term_swaps_witness:
  "\<exists>r' pl. UpdatePlacementShortTerm (Some True) (\<lambda>_. None)
       (Some [\<lparr>mb_Name = ''a'', mb_Meta = []\<rparr>, \<lparr>mb_Name = ''b'', mb_Meta = []\<rparr>]) busy_replicator = (r', Some pl)
     \<and> pl_Epoch pl = 4 \<and> 10 \<le> moved_primaries (pl_VNodes pl) (pl_VNodes busy_placement)"
proof -
  let ?ms = "[\<lparr>mb_Name = ''a'', mb_Meta = []\<rparr>, \<lparr>mb_Name = ''b'', mb_Meta = []\<rparr>] :: Member list"
  let ?a = "[busy_node ''a'' (Fin 1), busy_node ''b'' (Fin 0)]"
  obtain x y where s: "CalculateScores ?a = [\<lparr>ni_ID = ''a'', ni_Score = Fin x\<rparr>, \<lparr>ni_ID = ''b'', ni_Score = Fin y\<rparr>]"
    "flt (Fin y) (fmul (Fin x) (fl (9 / 10)))" by (rule busy_gap)
  have act: "active_metrics ?ms (rp_metrics busy_replicator) = ?a"
    by (simp add: active_metrics_def busy_replicator_def busy_node_def member_id_def parseMeta_def TrimSpace_def strip_runes.simps space_runes_def)
  let ?d = "fold (degrade_step (averageRTT ?a)) ?a \<lparr>dg_now = fmempty, dg_sustained = fmempty, dg_streak = fmupd ''a'' 5 fmempty\<rparr>"
  have d: "flag (dg_sustained ?d) ''a''" "\<not> flag (dg_now ?d) ''b''"
    by (simp_all add: degrade_step_def Let_def busy_degraded flag_def go_simps) (simp_all add: busy_node_def)
  have sw: "swap_vnode ?d (score_by_id (CalculateScores ?a)) v \<noteq> None" if "vn_Primary v = ''a''" "vn_Replicas v = [''b'']" for v
    using that d s(2) by (simp add: swap_vnode_def s(1) score_by_id_def)
  have pl: "rp_placement busy_replicator = Some busy_placement" "length (pl_VNodes busy_placement) = VNodeCount" "pl_Epoch busy_placement = 3"
    "rp_degradedStreak busy_replicator = fmupd ''a'' 5 fmempty"
    by (simp_all add: busy_replicator_def busy_placement_def)
  have "filter (\<lambda>v. swap_vnode ?d (score_by_id (CalculateScores ?a)) v \<noteq> None) (pl_VNodes busy_placement) = pl_VNodes busy_placement"
    using sw by (auto simp: filter_id_conv busy_placement_def)
  then have "count_swaps ?d (score_by_id (CalculateScores ?a)) (pl_VNodes busy_placement) = 1024"
    unfolding count_swaps_def using pl(2) by (simp add: VNodeCount_def)
  then have "\<exists>r' pl. UpdatePlacementShortTerm (Some True) (\<lambda>_. None) (Some ?ms) busy_replicator = (r', Some pl)"
    using act pl by (simp add: UpdatePlacementShortTerm_def commit_placement_def shortThreshold_10 Let_def)
  then obtain r' pl where run: "UpdatePlacementShortTerm (Some True) (\<lambda>_. None) (Some ?ms) busy_replicator = (r', Some pl)" by blast
  have "metrics_ok busy_replicator"
    by (simp add: metrics_ok_def busy_replicator_def NewReplicator_def unit_usages_def) (simp add: busy_node_def)
  from short_term_swaps [OF this pl(1) run] run pl(3) show ?thesis by auto
qed

end
