(* ===== verification/Summaries.thy ===== *)
theory Summaries
  imports Router Rebalance
begin

text \<open>
  The texts the program prints about its state: the three format functions of \<^verbatim>\<open>src/cluster/replication.go\<close> for the log of the placement
  updates, and \<^verbatim>\<open>StateSummary\<close> of \<^verbatim>\<open>src/cluster/router.go\<close>. They range over maps and sort, so the text does not depend on the order of the map.
\<close>

section \<open>Formats\<close>

text \<open>\<^verbatim>\<open>%.4f\<close>: the exact value rounded to four decimals, ties to even.\<close>

definition fixed4 :: "rat \<Rightarrow> string" where
  "fixed4 x = (let n = nat (round_even (x * 10000)); frac = dec (n mod 10000) in dec (n div 10000) @ ''.'' @ replicate (4 - length frac) CHR ''0'' @ frac)"

definition format_f4 :: "f64 \<Rightarrow> string" where
  "format_f4 v =
     (case v of
        NaN \<Rightarrow> ''NaN''
      | Inf neg \<Rightarrow> if neg then ''-Inf'' else ''+Inf''
      | Fin x \<Rightarrow> if x < 0 then CHR ''-'' # fixed4 (- x) else fixed4 x)"

section \<open>Summaries\<close>

definition score_before :: "NodeInfo \<Rightarrow> NodeInfo \<Rightarrow> bool" where
  "score_before a b = (if feq (ni_Score a) (ni_Score b) then ni_ID a < ni_ID b else flt (ni_Score a) (ni_Score b))"

definition formatScoreSummary :: "NodeInfo list \<Rightarrow> int \<Rightarrow> string" where
  "formatScoreSummary scores limit =
     (if scores = [] then ''none''
      else (let sorted_scores = sort_by score_before scores;
                lim = (if limit \<le> 0 \<or> int (length sorted_scores) < limit then length sorted_scores else nat limit)
            in join_with '', '' (map (\<lambda>n. ni_ID n @ ''='' @ format_f4 (ni_Score n)) (take lim sorted_scores))))"

definition formatVNodeCounts :: "(string fset \<Rightarrow> string list) \<Rightarrow> (string, int) fmap \<Rightarrow> string" where
  "formatVNodeCounts rng counts =
     (if fcard (fmdom counts) = 0 then ''none''
      else (let ids = sort_by (<) (rng (fmdom counts)) in join_with '', '' (map (\<lambda>nid. nid @ ''='' @ dec_int (get0 counts nid)) ids)))"

definition formatBoolNodeSet :: "(string fset \<Rightarrow> string list) \<Rightarrow> (string, bool) fmap \<Rightarrow> string" where
  "formatBoolNodeSet rng nodes =
     (if fcard (fmdom nodes) = 0 then ''none''
      else (let ids = filter (\<lambda>nid. fmlookup nodes nid = Some True) (rng (fmdom nodes))
            in if ids = [] then ''none'' else join_with '','' (sort_by (<) ids)))"

definition StateSummary :: "PlacementRouter \<Rightarrow> string" where
  "StateSummary rt =
     (case rt_state rt of
        None \<Rightarrow> ''<no placement>''
      | Some state \<Rightarrow>
          ''epoch='' @ dec (unat (cs_Epoch state)) @ '' nodes='' @
          join_with '','' (sort_by (<) (map (\<lambda>n. cl_Id n @ ''='' @ cl_RpcAddr n) (cs_Nodes state))))"

section \<open>The order of a map does not show\<close>

lemma sort_strings_unique:
  fixes xs ys :: "string list"
  assumes "mset xs = mset ys" "distinct xs"
  shows "sort_by (<) xs = sort_by (<) ys"
proof (rule string_order.sort_by_unique)
  show "sorted_wrt (<) (sort_by (<) xs)" using assms(2) by (intro string_order.sorted_sort_by) simp_all
  show "distinct (map (\<lambda>x. x) ys)" using assms mset_eq_imp_distinct_iff [of xs ys] by simp
qed (simp_all add: assms(1))

lemma range_mset: "map_range rng \<Longrightarrow> map_range rng' \<Longrightarrow> mset (rng S) = mset (rng' S)"
  by (simp add: map_range.range_distinct map_range.range_set set_eq_iff_mset_eq_distinct [symmetric])

lemma formatVNodeCounts_order: "map_range rng \<Longrightarrow> map_range rng' \<Longrightarrow> formatVNodeCounts rng counts = formatVNodeCounts rng' counts"
  unfolding formatVNodeCounts_def Let_def
  using sort_strings_unique [OF range_mset, of rng rng' "fmdom counts"] by (simp add: map_range.range_distinct)

lemma formatBoolNodeSet_order: "map_range rng \<Longrightarrow> map_range rng' \<Longrightarrow> formatBoolNodeSet rng nodes = formatBoolNodeSet rng' nodes"
proof -
  assume rng: "map_range rng" "map_range rng'"
  let ?P = "\<lambda>nid. fmlookup nodes nid = Some True"
  have m: "mset (filter ?P (rng (fmdom nodes))) = mset (filter ?P (rng' (fmdom nodes)))" using range_mset [OF rng] by simp
  have "distinct (filter ?P (rng (fmdom nodes)))" using rng(1) by (simp add: map_range.range_distinct)
  note same = sort_strings_unique [OF m this]
  have "filter ?P (rng (fmdom nodes)) = [] \<longleftrightarrow> filter ?P (rng' (fmdom nodes)) = []" by (simp only: mset_zero_iff [symmetric] m)
  with same show ?thesis unfolding formatBoolNodeSet_def Let_def by presburger
qed

end
