(* ===== verification/Batch_Worker.thy ===== *)
theory Batch_Worker
  imports Rpc_Server Replicator_State "HOL-Library.Multiset"
begin

text \<open>
  The batching replication workers of \<^verbatim>\<open>src/cluster/replication_batch.go\<close>: one goroutine per replica that
  gathers tasks, sends them as batches on a stream and hands the acknowledgements back. A worker is a state machine; whether a
  stream opens, a send succeeds and what a receive returns are arguments of its steps.
\<close>

section \<open>State\<close>

definition replicationBatchSize :: nat where "replicationBatchSize = 512"

definition enqueue_cap :: nat where "enqueue_cap = 16384"

datatype worker_error =
    StreamOpenFailed string | SendFailed string | StreamFailed string | AckFailed resp_error | WorkerStopped | QueueFull | NilRequest | NoWorkerClient client_error | ContextEnded

record replicationTask =
  tk_req :: ReplicationRequest
  tk_done :: nat

datatype ackResult = Ack "ReplicationBatchAck option" | RecvErr string

text \<open>
  Streams are numbered in the order they are opened. \<^verbatim>\<open>bw_readers\<close> are the goroutines that wait for an acknowledgement, by
  their stream, and \<^verbatim>\<open>bw_recvCh\<close> the results they posted. The last three fields record what
  happened: tasks accepted, batches sent and errors written to the \<^verbatim>\<open>done\<close> channels.
\<close>

record replicationBatchWorker =
  bw_enqueue :: "replicationTask list"
  bw_stopCh :: bool
  bw_running :: bool
  bw_stream :: "nat option"
  bw_opened :: nat
  bw_recvActive :: bool
  bw_readers :: "nat list"
  bw_recvCh :: "ackResult list"
  bw_pending :: "replicationTask list"
  bw_inFlight :: "replicationTask list list"
  bw_submitted :: "replicationTask list"
  bw_sent :: "(nat \<times> replicationTask list) list"
  bw_answers :: "(replicationTask \<times> worker_error option) list"

definition newReplicationBatchWorker :: replicationBatchWorker where
  "newReplicationBatchWorker =
     \<lparr>bw_enqueue = [], bw_stopCh = False, bw_running = True, bw_stream = None, bw_opened = 0, bw_recvActive = False,
      bw_readers = [], bw_recvCh = [], bw_pending = [], bw_inFlight = [], bw_submitted = [], bw_sent = [], bw_answers = []\<rparr>"

section \<open>The closures of run\<close>

definition failTasks :: "replicationTask list \<Rightarrow> worker_error option \<Rightarrow> replicationBatchWorker \<Rightarrow> replicationBatchWorker" where
  "failTasks tasks err w = w\<lparr>bw_answers := bw_answers w @ map (\<lambda>t. (t, err)) tasks\<rparr>"

definition failAll :: "worker_error \<Rightarrow> replicationBatchWorker \<Rightarrow> replicationBatchWorker" where
  "failAll err w =
     (let w1 = (if bw_pending w \<noteq> [] then failTasks (bw_pending w) (Some err) w else w)
      in fold (\<lambda>batch. failTasks batch (Some err)) (bw_inFlight w) w1)"

definition open_stream :: "string option \<Rightarrow> replicationBatchWorker \<Rightarrow> worker_error option \<times> replicationBatchWorker" where
  "open_stream open_err w =
     (if bw_stream w \<noteq> None then (None, w)
      else (case open_err of
              Some e \<Rightarrow> (Some (StreamOpenFailed e), w)
            | None \<Rightarrow> (None, w\<lparr>bw_stream := Some (bw_opened w), bw_opened := bw_opened w + 1, bw_recvActive := False\<rparr>)))"

definition closeStream :: "replicationBatchWorker \<Rightarrow> replicationBatchWorker" where
  "closeStream w = w\<lparr>bw_stream := None, bw_recvActive := False\<rparr>"

definition startRecv :: "replicationBatchWorker \<Rightarrow> replicationBatchWorker" where
  "startRecv w =
     (case bw_stream w of
        None \<Rightarrow> w
      | Some current \<Rightarrow>
          if bw_recvActive w \<or> bw_inFlight w = [] then w
          else w\<lparr>bw_recvActive := True, bw_readers := bw_readers w @ [current]\<rparr>)"

definition sendBatch ::
  "string option \<Rightarrow> string option \<Rightarrow> replicationTask list \<Rightarrow> replicationBatchWorker \<Rightarrow> worker_error option \<times> replicationBatchWorker" where
  "sendBatch open_err send_err tasks w =
     (if tasks = [] then (None, w)
      else (case open_stream open_err w of
              (Some e, w1) \<Rightarrow> (Some e, w1)
            | (None, w1) \<Rightarrow>
                (case send_err of
                   Some e \<Rightarrow> (Some (SendFailed e), w1)
                 | None \<Rightarrow>
                     (None, startRecv (w1\<lparr>bw_inFlight := bw_inFlight w1 @ [tasks], bw_sent := bw_sent w1 @ [(the (bw_stream w1), tasks)]\<rparr>)))))"

definition flush_pending :: "string option \<Rightarrow> string option \<Rightarrow> replicationBatchWorker \<Rightarrow> replicationBatchWorker" where
  "flush_pending open_err send_err w =
     (if bw_pending w = [] then w
      else (let batch = bw_pending w;
                (err, w') = sendBatch open_err send_err batch (w\<lparr>bw_pending := []\<rparr>)
            in (case err of None \<Rightarrow> w' | Some e \<Rightarrow> failTasks batch (Some e) (closeStream w'))))"

section \<open>The branches of the select\<close>

definition on_task :: "string option \<Rightarrow> string option \<Rightarrow> replicationTask \<Rightarrow> replicationBatchWorker \<Rightarrow> replicationBatchWorker" where
  "on_task open_err send_err t w =
     (let w1 = w\<lparr>bw_pending := bw_pending w @ [t]\<rparr>
      in if replicationBatchSize \<le> length (bw_pending w1) then flush_pending open_err send_err w1 else w1)"

definition on_result :: "ackResult \<Rightarrow> replicationBatchWorker \<Rightarrow> replicationBatchWorker" where
  "on_result res w =
     (let w1 = w\<lparr>bw_recvActive := False\<rparr>
      in (case bw_inFlight w1 of
            [] \<Rightarrow> closeStream w1
          | batch # rest \<Rightarrow>
              (let w2 = w1\<lparr>bw_inFlight := rest\<rparr>
               in (case res of
                     RecvErr e \<Rightarrow>
                       (failAll (StreamFailed e) (failTasks batch (Some (StreamFailed e)) (closeStream w2)))\<lparr>bw_pending := [], bw_inFlight := []\<rparr>
                   | Ack a \<Rightarrow>
                       startRecv (failTasks batch
                         (case a of None \<Rightarrow> None | Some ack \<Rightarrow> map_option AckFailed (ack_Error ack)) w2)))))"

definition on_stop :: "replicationBatchWorker \<Rightarrow> replicationBatchWorker" where
  "on_stop w = (failAll WorkerStopped (closeStream w))\<lparr>bw_pending := [], bw_inFlight := [], bw_running := False\<rparr>"

section \<open>Steps\<close>

text \<open>
  A submit that finds the queue full for half a second, or the stop channel closed, changes nothing. \<^verbatim>\<open>Posts i\<close> is the \<^verbatim>\<open>i\<close>th
  waiting goroutine posting its result.
\<close>

datatype worker_event =
    Submit replicationTask | Dequeue "string option" "string option" | Ticker "string option" "string option"
  | Posts nat ackResult | TakeResult | CloseStop | StopSeen

definition worker_step :: "worker_event \<Rightarrow> replicationBatchWorker \<Rightarrow> replicationBatchWorker option" where
  "worker_step ev w =
     (case ev of
        Submit t \<Rightarrow>
          if length (bw_enqueue w) < enqueue_cap
          then Some (w\<lparr>bw_enqueue := bw_enqueue w @ [t], bw_submitted := bw_submitted w @ [t]\<rparr>) else None
      | Dequeue oe se \<Rightarrow>
          (case bw_enqueue w of
             [] \<Rightarrow> None
           | t # ts \<Rightarrow> if bw_running w then Some (on_task oe se t (w\<lparr>bw_enqueue := ts\<rparr>)) else None)
      | Ticker oe se \<Rightarrow> if bw_running w then Some (flush_pending oe se w) else None
      | Posts i res \<Rightarrow>
          if i < length (bw_readers w)
          then Some (w\<lparr>bw_readers := take i (bw_readers w) @ drop (Suc i) (bw_readers w), bw_recvCh := bw_recvCh w @ [res]\<rparr>) else None
      | TakeResult \<Rightarrow>
          (case bw_recvCh w of
             [] \<Rightarrow> None
           | res # rs \<Rightarrow> if bw_running w then Some (on_result res (w\<lparr>bw_recvCh := rs\<rparr>)) else None)
      | CloseStop \<Rightarrow> Some (w\<lparr>bw_stopCh := True\<rparr>)
      | StopSeen \<Rightarrow> if bw_stopCh w \<and> bw_running w then Some (on_stop w) else None)"

fun worker_run :: "worker_event list \<Rightarrow> replicationBatchWorker \<Rightarrow> replicationBatchWorker option" where
  "worker_run [] w = Some w"
| "worker_run (ev # evs) w = (case worker_step ev w of None \<Rightarrow> None | Some w' \<Rightarrow> worker_run evs w')"

interpretation worker: step_machine worker_step worker_run
  by unfold_locales (simp_all split: option.splits)

section \<open>The workers of a replicator\<close>

text \<open>A worker keeps the client it was created with; \<^verbatim>\<open>ws\<close> gives the client of each worker.\<close>

type_synonym worker_table = "(string, string) fmap"

definition getOrCreateReplicationWorker ::
  "(string \<Rightarrow> string option) \<Rightarrow> Member list list option \<Rightarrow> string \<Rightarrow> Replicator \<times> worker_table
   \<Rightarrow> (client_error + string) \<times> Replicator \<times> worker_table" where
  "getOrCreateReplicationWorker dial_err views nodeID st =
     (case getOrCreateClientByNodeID dial_err views nodeID (fst st) of
        (Inl e, r) \<Rightarrow> (Inl e, r, snd st)
      | (Inr client, r) \<Rightarrow>
          (case fmlookup (snd st) nodeID of
             Some c \<Rightarrow> (Inr c, r, snd st)
           | None \<Rightarrow> (Inr client, r, fmupd nodeID client (snd st))))"

text \<open>\<^verbatim>\<open>submit_err\<close> is the outcome of the worker's \<^verbatim>\<open>submit\<close>.\<close>

definition submitReplicationTask ::
  "(string \<Rightarrow> string option) \<Rightarrow> Member list list option \<Rightarrow> (string \<Rightarrow> worker_error option) \<Rightarrow> string \<Rightarrow> ReplicationRequest option
   \<Rightarrow> Replicator \<times> worker_table \<Rightarrow> worker_error option \<times> Replicator \<times> worker_table" where
  "submitReplicationTask dial_err views submit_err nodeID req st =
     (case req of
        None \<Rightarrow> (Some NilRequest, st)
      | Some _ \<Rightarrow>
          (case getOrCreateReplicationWorker dial_err views nodeID st of
             (Inl e, st') \<Rightarrow> (Some (NoWorkerClient e), st')
           | (Inr _, st') \<Rightarrow> (submit_err nodeID, st')))"

definition stopReplicationWorkers :: "worker_table \<Rightarrow> string fset \<times> worker_table" where
  "stopReplicationWorkers ws = (fmdom ws, fmempty)"

section \<open>Every task is accounted for\<close>

definition held :: "replicationBatchWorker \<Rightarrow> replicationTask multiset" where
  "held w = mset (bw_enqueue w) + mset (bw_pending w) + mset (concat (bw_inFlight w)) + mset (map fst (bw_answers w))"

lemma failTasks_simps [simp]:
  "bw_answers (failTasks ts e w) = bw_answers w @ map (\<lambda>t. (t, e)) ts" "bw_enqueue (failTasks ts e w) = bw_enqueue w"
  "bw_pending (failTasks ts e w) = bw_pending w" "bw_inFlight (failTasks ts e w) = bw_inFlight w"
  "bw_submitted (failTasks ts e w) = bw_submitted w" "bw_sent (failTasks ts e w) = bw_sent w" "bw_running (failTasks ts e w) = bw_running w"
  "bw_stream (failTasks ts e w) = bw_stream w" "bw_readers (failTasks ts e w) = bw_readers w" "bw_recvCh (failTasks ts e w) = bw_recvCh w"
  "bw_recvActive (failTasks ts e w) = bw_recvActive w"
  by (simp_all add: failTasks_def)

lemma failAll_simps [simp]:
  "bw_answers (failAll e w) = bw_answers w @ map (\<lambda>t. (t, Some e)) (bw_pending w @ concat (bw_inFlight w))"
  "bw_enqueue (failAll e w) = bw_enqueue w" "bw_submitted (failAll e w) = bw_submitted w"
proof -
  have "bw_answers (fold (\<lambda>b. failTasks b (Some e)) bs w) = bw_answers w @ map (\<lambda>t. (t, Some e)) (concat bs)"
    "bw_enqueue (fold (\<lambda>b. failTasks b (Some e)) bs w) = bw_enqueue w"
    "bw_submitted (fold (\<lambda>b. failTasks b (Some e)) bs w) = bw_submitted w" for bs w
    by (induction bs arbitrary: w) simp_all
  then show "bw_answers (failAll e w) = bw_answers w @ map (\<lambda>t. (t, Some e)) (bw_pending w @ concat (bw_inFlight w))"
    "bw_enqueue (failAll e w) = bw_enqueue w" "bw_submitted (failAll e w) = bw_submitted w"
    by (simp_all add: failAll_def)
qed

lemma closeStream_simps [simp]:
  "bw_answers (closeStream w) = bw_answers w" "bw_enqueue (closeStream w) = bw_enqueue w" "bw_pending (closeStream w) = bw_pending w"
  "bw_inFlight (closeStream w) = bw_inFlight w" "bw_submitted (closeStream w) = bw_submitted w"
  by (simp_all add: closeStream_def)

lemma startRecv_simps [simp]:
  "bw_answers (startRecv w) = bw_answers w" "bw_enqueue (startRecv w) = bw_enqueue w" "bw_pending (startRecv w) = bw_pending w"
  "bw_inFlight (startRecv w) = bw_inFlight w" "bw_submitted (startRecv w) = bw_submitted w" "bw_sent (startRecv w) = bw_sent w"
  by (simp_all add: startRecv_def split: option.splits)

lemma held_flush [simp]: "held (flush_pending oe se w) = held w"
  by (auto simp: held_def flush_pending_def sendBatch_def open_stream_def Let_def comp_def multiset.map_comp split: option.splits prod.splits)

lemma submitted_flush [simp]: "bw_submitted (flush_pending oe se w) = bw_submitted w"
  by (auto simp: flush_pending_def sendBatch_def open_stream_def Let_def split: option.splits prod.splits)

lemma held_on_result [simp]: "held (on_result res w) = held w" "bw_submitted (on_result res w) = bw_submitted w"
  by (auto simp: held_def on_result_def Let_def comp_def multiset.map_comp split: list.splits ackResult.splits option.splits)

lemma held_on_stop [simp]: "held (on_stop w) = held w" "bw_submitted (on_stop w) = bw_submitted w"
  by (auto simp: held_def on_stop_def comp_def multiset.map_comp)

lemma held_step:
  assumes "worker_step ev w = Some w'" "mset (bw_submitted w) = held w"
  shows "mset (bw_submitted w') = held w'"
proof -
  have "held (w\<lparr>bw_enqueue := bw_enqueue w @ [t], bw_submitted := s\<rparr>) = held w + {#t#}" for t s by (simp add: held_def)
  moreover have "held (on_task oe se t (w\<lparr>bw_enqueue := ts\<rparr>)) = held w" "bw_submitted (on_task oe se t (w\<lparr>bw_enqueue := ts\<rparr>)) = bw_submitted w"
    if "bw_enqueue w = t # ts" for oe se t ts using that by (simp_all add: on_task_def Let_def) (simp_all add: held_def)
  moreover have "held (w\<lparr>bw_readers := rs, bw_recvCh := c\<rparr>) = held w" "held (w\<lparr>bw_recvCh := c\<rparr>) = held w" "held (w\<lparr>bw_stopCh := b\<rparr>) = held w" for rs c b
    by (simp_all add: held_def)
  ultimately show ?thesis using assms
    by (auto simp: worker_step_def split: worker_event.splits if_splits list.splits)
qed

text \<open>Between two events less than a full batch is pending.\<close>

lemma pending_flush: "length (bw_pending (flush_pending oe se w)) = 0"
  by (auto simp: flush_pending_def sendBatch_def open_stream_def Let_def split: option.splits prod.splits)

lemma pending_step:
  assumes "worker_step ev w = Some w'" "length (bw_pending w) < replicationBatchSize"
  shows "length (bw_pending w') < replicationBatchSize"
proof -
  have "0 < replicationBatchSize" by (simp add: replicationBatchSize_def)
  note small = this pending_flush
  have "length (bw_pending (on_task oe se t v)) < replicationBatchSize" for oe se t v
    using small by (simp add: on_task_def Let_def)
  moreover have "length (bw_pending (on_result res v)) < replicationBatchSize" if "bw_pending v = bw_pending w" for res v
    using small assms(2) that by (simp add: on_result_def Let_def split: list.splits ackResult.splits)
  moreover have "length (bw_pending (on_stop w)) < replicationBatchSize" using small by (simp add: on_stop_def)
  ultimately show ?thesis using assms small
    by (simp add: worker_step_def split: worker_event.splits if_splits list.splits) auto
qed

section \<open>Without failures\<close>

definition fine_event :: "worker_event \<Rightarrow> bool" where
  "fine_event ev =
     (case ev of
        Dequeue oe se \<Rightarrow> oe = None \<and> se = None
      | Ticker oe se \<Rightarrow> oe = None \<and> se = None
      | Posts i res \<Rightarrow> (case res of Ack _ \<Rightarrow> True | RecvErr _ \<Rightarrow> False)
      | CloseStop \<Rightarrow> False
      | _ \<Rightarrow> True)"

definition fifo :: "replicationBatchWorker \<Rightarrow> bool" where
  "fifo w \<longleftrightarrow>
     map fst (bw_answers w) @ concat (bw_inFlight w) @ bw_pending w @ bw_enqueue w = bw_submitted w
   \<and> concat (map snd (bw_sent w)) = map fst (bw_answers w) @ concat (bw_inFlight w)
   \<and> (bw_recvActive w \<longleftrightarrow> bw_inFlight w \<noteq> [])
   \<and> length (bw_readers w) + length (bw_recvCh w) = (if bw_recvActive w then 1 else 0)
   \<and> (\<forall>res\<in>set (bw_recvCh w). \<exists>a. res = Ack a)
   \<and> (bw_stream w = None \<longrightarrow> bw_inFlight w = []) \<and> \<not> bw_stopCh w"

lemma fifo_flush: "fifo w \<Longrightarrow> fifo (flush_pending None None w)"
  by (auto simp: fifo_def flush_pending_def sendBatch_def open_stream_def startRecv_def Let_def split: option.splits prod.splits)

lemma fifo_on_result:
  assumes "fifo w" "bw_recvCh w = res # rs"
  shows "fifo (on_result res (w\<lparr>bw_recvCh := rs\<rparr>))"
proof -
  obtain a where a: "res = Ack a" using assms by (auto simp: fifo_def)
  have act: "bw_recvActive w" "bw_readers w = []" "rs = []" using assms by (auto simp: fifo_def split: if_splits)
  then obtain b bs where bs: "bw_inFlight w = b # bs" using assms(1) by (auto simp: fifo_def neq_Nil_conv)
  with assms(1) obtain n where n: "bw_stream w = Some n" by (auto simp: fifo_def)
  show ?thesis using assms(1) act
    by (auto simp: fifo_def on_result_def startRecv_def a bs n comp_def failTasks_def Let_def)
qed

lemma fifo_step:
  assumes "fifo w" "worker_step ev w = Some w'" "fine_event ev"
  shows "fifo w'"
proof (cases ev)
  case (Submit t)
  then show ?thesis using assms by (auto simp: worker_step_def fifo_def split: if_splits)
next
  case (Dequeue oe se)
  with assms obtain t ts where ts: "bw_enqueue w = t # ts" "w' = on_task None None t (w\<lparr>bw_enqueue := ts\<rparr>)"
    by (auto simp: worker_step_def fine_event_def split: list.splits if_splits)
  have "fifo (w\<lparr>bw_enqueue := ts, bw_pending := bw_pending w @ [t]\<rparr>)" using assms(1) ts(1) by (simp add: fifo_def)
  then show ?thesis by (simp add: ts(2) on_task_def Let_def fifo_flush)
next
  case (Ticker oe se)
  then show ?thesis using assms by (auto simp: worker_step_def fine_event_def fifo_flush split: if_splits)
next
  case (Posts i res)
  with assms have i: "i < length (bw_readers w)" and w': "w' = w\<lparr>bw_readers := take i (bw_readers w) @ drop (Suc i) (bw_readers w), bw_recvCh := bw_recvCh w @ [res]\<rparr>"
    by (simp_all add: worker_step_def split: if_splits)
  have one: "length (bw_readers w) + length (bw_recvCh w) = (if bw_recvActive w then 1 else 0)" using assms(1) by (simp add: fifo_def)
  have "bw_recvActive w" using i one by (cases "bw_recvActive w") simp_all
  with one have one: "length (bw_readers w) + length (bw_recvCh w) = 1" by (simp only: if_True)
  have "length (bw_readers w) = 1" "length (bw_recvCh w) = 0" using i one by linarith+
  then obtain n where n: "bw_readers w = [n]" "bw_recvCh w = []" by (auto simp: length_Suc_conv)
  have "fine_event (Posts i res)" using assms(3) Posts by simp
  then obtain a where a: "res = Ack a" by (cases res) (simp_all add: fine_event_def)
  have "i = 0" using i n(1) by simp
  then show ?thesis using assms(1) unfolding w' a by (simp add: n fifo_def)
next
  case TakeResult
  then show ?thesis using assms by (auto simp: worker_step_def intro: fifo_on_result split: list.splits if_splits)
qed (use assms in \<open>auto simp: worker_step_def fine_event_def fifo_def split: if_splits\<close>)

text \<open>
  C12. Every task is answered once: whatever streams, sends and acknowledgements do, each task a worker accepted is either still queued, pending or in
  flight, or its error was written to its channel, once; fewer than a full batch are pending. As long as nothing fails the answers come in
  the order the tasks were submitted, and are given to the batches in the order they were sent.
\<close>

theorem tasks_answered_once:
  assumes "worker_run evs newReplicationBatchWorker = Some w"
  shows "mset (bw_submitted w) = mset (bw_enqueue w) + mset (bw_pending w) + mset (concat (bw_inFlight w)) + mset (map fst (bw_answers w))
    \<and> length (bw_pending w) < replicationBatchSize
    \<and> (list_all fine_event evs \<longrightarrow>
        map fst (bw_answers w) @ concat (bw_inFlight w) @ bw_pending w @ bw_enqueue w = bw_submitted w
      \<and> concat (map snd (bw_sent w)) = map fst (bw_answers w) @ concat (bw_inFlight w))"
proof -
  let ?acc = "\<lambda>w. mset (bw_submitted w) = held w \<and> length (bw_pending w) < replicationBatchSize"
  have acc: "?acc w" if "?acc newReplicationBatchWorker"
    by (rule worker.run_invariant [where P = ?acc and ok = "\<lambda>_. True", OF assms that]) (auto intro: held_step pending_step)
  have order: "fifo w" if "fifo newReplicationBatchWorker" "list_all fine_event evs"
    by (rule worker.run_invariant [where P = fifo and ok = fine_event, OF assms that(1)])
      (use that(2) in \<open>auto simp: list_all_iff intro: fifo_step\<close>)
  have "mset (bw_submitted newReplicationBatchWorker) = held newReplicationBatchWorker" "fifo newReplicationBatchWorker"
    "length (bw_pending newReplicationBatchWorker) < replicationBatchSize"
    by (simp_all add: newReplicationBatchWorker_def held_def fifo_def replicationBatchSize_def)
  with acc order show ?thesis by (simp add: held_def fifo_def)
qed

definition sample_task :: "nat \<Rightarrow> replicationTask" where
  "sample_task n = \<lparr>tk_req = \<lparr>rr_Op = PUT, rr_Key = ''k'', rr_Value = [1], rr_VnodeId = 3, rr_Version = of_nat n\<rparr>, tk_done = n\<rparr>"

theorem tasks_answered_once_witness:
  "\<exists>w. worker_run [Submit (sample_task 1), Dequeue None None, Ticker None None, Posts 0 (Ack None), TakeResult] newReplicationBatchWorker = Some w
     \<and> map fst (bw_answers w) @ concat (bw_inFlight w) @ bw_pending w @ bw_enqueue w = bw_submitted w \<and> bw_answers w = [(sample_task 1, None)]"
proof -
  let ?evs = "[Submit (sample_task 1), Dequeue None None, Ticker None None, Posts 0 (Ack None), TakeResult]"
  let ?w = "newReplicationBatchWorker\<lparr>bw_submitted := [sample_task 1], bw_sent := [(0, [sample_task 1])], bw_answers := [(sample_task 1, None)],
     bw_stream := Some 0, bw_opened := 1\<rparr>"
  have "worker_run ?evs newReplicationBatchWorker = Some ?w"
    by (simp add: worker_step_def newReplicationBatchWorker_def enqueue_cap_def on_task_def flush_pending_def sendBatch_def open_stream_def startRecv_def
        on_result_def failTasks_def replicationBatchSize_def Let_def)
  with tasks_answered_once [of ?evs ?w] show ?thesis by (simp add: fine_event_def newReplicationBatchWorker_def)
qed


end
