(* ===== verification/Migration.thy ===== *)
theory Migration
  imports Rpc_Server Replicator_State
begin

text \<open>
  Moving vnodes when a placement is committed: \<^verbatim>\<open>ApplyPlacementFromRaft\<close> and \<^verbatim>\<open>transferVNodeFrom\<close> of
  \<^verbatim>\<open>src/cluster/replication.go\<close> with the transfer callbacks of \<^verbatim>\<open>src/cmd/server/main.go\<close>. The
  streams of the source nodes and the dialling are arguments.
\<close>

section \<open>What changed\<close>

record migration_plan =
  mp_gained :: "u16 list"
  mp_lost :: "u16 list"
  mp_changed :: "u16 list"
  mp_added :: "u16 list"

definition owner_map :: "VNode list \<Rightarrow> (u16, string) fmap" where
  "owner_map vs = fold (\<lambda>v m. fmupd (vn_ID v) (vn_Primary v) m) vs fmempty"

definition replicas_at :: "VNode list \<Rightarrow> u16 \<Rightarrow> placement_panic + string list" where
  "replicas_at vs vnodeID = (if unat vnodeID < length vs then Inr (vn_Replicas (vs ! unat vnodeID)) else Inl IndexPanic)"

definition classify ::
  "string \<Rightarrow> VNode list \<Rightarrow> VNode list \<Rightarrow> u16 \<Rightarrow> migration_plan \<Rightarrow> placement_panic + migration_plan" where
  "classify me old new vnodeID mp =
     (let oldOwner = get_str (owner_map old) vnodeID;
          newOwner = get_str (owner_map new) vnodeID
      in if oldOwner = me \<and> newOwner \<noteq> me then Inr (mp\<lparr>mp_lost := mp_lost mp @ [vnodeID]\<rparr>)
         else if oldOwner \<noteq> me \<and> newOwner = me then Inr (mp\<lparr>mp_gained := mp_gained mp @ [vnodeID]\<rparr>)
         else (case replicas_at old vnodeID of
                 Inl e \<Rightarrow> Inl e
               | Inr oldReplicas \<Rightarrow>
                   (case replicas_at new vnodeID of
                      Inl e \<Rightarrow> Inl e
                    | Inr newReplicas \<Rightarrow>
                        if oldOwner = newOwner \<and> oldOwner = me
                        then Inr (if oldReplicas \<noteq> newReplicas then mp\<lparr>mp_changed := mp_changed mp @ [vnodeID]\<rparr> else mp)
                        else Inr (if me \<notin> set oldReplicas \<and> me \<in> set newReplicas
                                  then mp\<lparr>mp_added := mp_added mp @ [vnodeID]\<rparr> else mp))))"

fun classify_all ::
  "string \<Rightarrow> VNode list \<Rightarrow> VNode list \<Rightarrow> u16 list \<Rightarrow> migration_plan \<Rightarrow> placement_panic + migration_plan" where
  "classify_all me old new [] mp = Inr mp"
| "classify_all me old new (vnodeID # vs) mp =
     (case classify me old new vnodeID mp of Inl e \<Rightarrow> Inl e | Inr mp' \<Rightarrow> classify_all me old new vs mp')"

definition empty_plan :: migration_plan where
  "empty_plan = \<lparr>mp_gained = [], mp_lost = [], mp_changed = [], mp_added = []\<rparr>"

text \<open>
  The synchronous part: install the placement, and find out what the node has to move. The ids are
  visited in the order \<^verbatim>\<open>rng\<close> of Go's map. \<^verbatim>\<open>None\<close> is the first placement, which moves nothing.
\<close>

definition ApplyPlacementFromRaft ::
  "(u16 fset \<Rightarrow> u16 list) \<Rightarrow> Placement option \<Rightarrow> Replicator \<Rightarrow> placement_panic + Replicator \<times> migration_plan option" where
  "ApplyPlacementFromRaft rng p r =
     (case p of
        None \<Rightarrow> Inr (r, None)
      | Some pl \<Rightarrow>
          (let r' = SetPlacement (Some pl) r
           in (case rp_placement r of
                 None \<Rightarrow> Inr (r', None)
               | Some oldPl \<Rightarrow>
                   (case classify_all (rp_ID r) (pl_VNodes oldPl) (pl_VNodes pl) (rng (fmdom (owner_map (pl_VNodes pl)))) empty_plan of
                      Inl e \<Rightarrow> Inl e
                    | Inr mp \<Rightarrow> Inr (r', Some mp)))))"

section \<open>Transferring one vnode\<close>

datatype transfer_error =
    NoApplier | NoClient client_error | OpenFailed string | RecvFailed string | SourceError string | ApplyFailed resp_error

datatype recv = Recv VNodeTransferResp | RecvError string

definition transfer_cmd :: "VNodeTransferResp \<Rightarrow> Command" where
  "transfer_cmd resp =
     \<lparr>cmd_Op = (if tr_Tombstone resp then OpDelete else OpPut), cmd_Key = tr_Key resp, cmd_Value = tr_Value resp,
      cmd_VNodeID = ucast (tr_VnodeId resp), cmd_Version = tr_Version resp\<rparr>"

text \<open>The receive loop; the end of the list is the end of the stream.\<close>

fun receive_entries ::
  "(Command \<Rightarrow> Server \<Rightarrow> resp_error option \<times> Server) \<Rightarrow> recv list \<Rightarrow> Server \<Rightarrow> transfer_error option \<times> Server" where
  "receive_entries applyFn [] sv = (None, sv)"
| "receive_entries applyFn (RecvError e # rs) sv = (Some (RecvFailed e), sv)"
| "receive_entries applyFn (Recv resp # rs) sv =
     (if tr_Error resp \<noteq> [] then (Some (SourceError (tr_Error resp)), sv)
      else if tr_EmptyEntries resp then (None, sv)
      else (case applyFn (transfer_cmd resp) sv of
              (Some e, sv') \<Rightarrow> (Some (ApplyFailed e), sv')
            | (None, sv') \<Rightarrow> receive_entries applyFn rs sv'))"

record node_state =
  nd_repl :: Replicator
  nd_server :: Server

record transfer_env =
  te_dial_err :: "string \<Rightarrow> string option"
  te_views :: "Member list list option"
  te_applyFn :: "(Command \<Rightarrow> Server \<Rightarrow> resp_error option \<times> Server) option"
  te_dropFn :: "(u16 \<Rightarrow> Server \<Rightarrow> resp_error option \<times> Server) option"
  te_stream :: "string \<Rightarrow> u16 \<Rightarrow> u64 \<Rightarrow> string + recv list"

definition transferVNodeFrom :: "transfer_env \<Rightarrow> string \<Rightarrow> u16 \<Rightarrow> u64 \<Rightarrow> node_state \<Rightarrow> transfer_error option \<times> node_state" where
  "transferVNodeFrom te sourceNodeID vnodeID epoch nd =
     (case te_applyFn te of
        None \<Rightarrow> (Some NoApplier, nd)
      | Some applyFn \<Rightarrow>
          (case getOrCreateClientByNodeID (te_dial_err te) (te_views te) sourceNodeID (nd_repl nd) of
             (Inl e, r) \<Rightarrow> (Some (NoClient e), nd\<lparr>nd_repl := r\<rparr>)
           | (Inr client, r) \<Rightarrow>
               (case te_stream te client vnodeID epoch of
                  Inl e \<Rightarrow> (Some (OpenFailed e), nd\<lparr>nd_repl := r\<rparr>)
                | Inr rs \<Rightarrow>
                    (let (err, sv) = receive_entries applyFn rs (nd_server nd)
                     in (err, nd\<lparr>nd_repl := r, nd_server := sv\<rparr>)))))"

section \<open>The migration goroutine\<close>

definition add_candidates :: "string \<Rightarrow> string list \<Rightarrow> string list \<Rightarrow> string list" where
  "add_candidates me ns cs = fold (\<lambda>n cs. if n \<noteq> [] \<and> n \<noteq> me \<and> n \<notin> set cs then cs @ [n] else cs) ns cs"

definition gain_candidates :: "string \<Rightarrow> VNode list \<Rightarrow> VNode list \<Rightarrow> u16 \<Rightarrow> placement_panic + string list" where
  "gain_candidates me old new vnodeID =
     (case replicas_at old vnodeID of
        Inl e \<Rightarrow> Inl e
      | Inr oldReplicas \<Rightarrow>
          (case replicas_at new vnodeID of
             Inl e \<Rightarrow> Inl e
           | Inr newReplicas \<Rightarrow>
               Inr (add_candidates me newReplicas (add_candidates me oldReplicas
                 (add_candidates me [get_str (owner_map old) vnodeID] [])))))"

definition replica_candidates :: "string \<Rightarrow> VNode list \<Rightarrow> u16 \<Rightarrow> placement_panic + string list" where
  "replica_candidates me new vnodeID =
     (case replicas_at new vnodeID of
        Inl e \<Rightarrow> Inl e
      | Inr newReplicas \<Rightarrow> Inr (add_candidates me newReplicas (add_candidates me [get_str (owner_map new) vnodeID] [])))"

fun try_sources :: "transfer_env \<Rightarrow> string list \<Rightarrow> u16 \<Rightarrow> u64 \<Rightarrow> node_state \<Rightarrow> bool \<times> node_state" where
  "try_sources te [] vnodeID epoch nd = (False, nd)"
| "try_sources te (src # srcs) vnodeID epoch nd =
     (case transferVNodeFrom te src vnodeID epoch nd of
        (Some _, nd') \<Rightarrow> try_sources te srcs vnodeID epoch nd'
      | (None, nd') \<Rightarrow> (True, nd'))"

definition gain_vnode :: "transfer_env \<Rightarrow> VNode list \<Rightarrow> Placement \<Rightarrow> u16 \<Rightarrow> node_state \<Rightarrow> placement_panic + node_state" where
  "gain_vnode te old p vnodeID nd =
     (case gain_candidates (rp_ID (nd_repl nd)) old (pl_VNodes p) vnodeID of
        Inl e \<Rightarrow> Inl e
      | Inr cs \<Rightarrow>
          (let nd1 = (case cs of [] \<Rightarrow> nd | c # _ \<Rightarrow> nd\<lparr>nd_repl := setMigrationSource vnodeID c (nd_repl nd)\<rparr>);
               (success, nd2) = try_sources te cs vnodeID (pl_Epoch p) nd1
           in Inr (if success then nd2\<lparr>nd_repl := clearMigrationSource vnodeID (nd_repl nd2)\<rparr> else nd2)))"

definition catch_up_replica :: "transfer_env \<Rightarrow> Placement \<Rightarrow> u16 \<Rightarrow> node_state \<Rightarrow> placement_panic + node_state" where
  "catch_up_replica te p vnodeID nd =
     (case replica_candidates (rp_ID (nd_repl nd)) (pl_VNodes p) vnodeID of
        Inl e \<Rightarrow> Inl e
      | Inr cs \<Rightarrow> Inr (snd (try_sources te cs vnodeID (pl_Epoch p) nd)))"

definition drop_vnode :: "transfer_env \<Rightarrow> u16 \<Rightarrow> node_state \<Rightarrow> node_state" where
  "drop_vnode te vnodeID nd =
     (let nd' = (case te_dropFn te of None \<Rightarrow> nd | Some dropFn \<Rightarrow> nd\<lparr>nd_server := snd (dropFn vnodeID (nd_server nd))\<rparr>)
      in nd'\<lparr>nd_repl := clearMigrationSource vnodeID (nd_repl nd')\<rparr>)"

fun each_vnode :: "(u16 \<Rightarrow> node_state \<Rightarrow> placement_panic + node_state) \<Rightarrow> u16 list \<Rightarrow> node_state \<Rightarrow> placement_panic + node_state" where
  "each_vnode f [] nd = Inr nd"
| "each_vnode f (v # vs) nd = (case f v nd of Inl e \<Rightarrow> Inl e | Inr nd' \<Rightarrow> each_vnode f vs nd')"

definition run_migration ::
  "transfer_env \<Rightarrow> VNode list \<Rightarrow> Placement \<Rightarrow> migration_plan \<Rightarrow> node_state \<Rightarrow> placement_panic + node_state" where
  "run_migration te old p mp nd =
     (case each_vnode (gain_vnode te old p) (mp_gained mp) nd of
        Inl e \<Rightarrow> Inl e
      | Inr nd1 \<Rightarrow>
          (case each_vnode (catch_up_replica te p) (mp_added mp) nd1 of
             Inl e \<Rightarrow> Inl e
           | Inr nd2 \<Rightarrow> Inr (fold (drop_vnode te) (mp_lost mp) nd2)))"

section \<open>The callbacks of the server\<close>

definition transfer_applier :: "loop_env \<Rightarrow> Command \<Rightarrow> Server \<Rightarrow> resp_error option \<times> Server" where
  "transfer_applier le c sv =
     (let (a, sv') = send_to_loop le
            \<lparr>req_Op = cmd_Op c, req_Key = cmd_Key c, req_Value = cmd_Value c, req_VNodeID = cmd_VNodeID c,
             req_Version = cmd_Version c, req_ResponseChan = 0\<rparr> sv
      in (an_Err a, sv'))"

text \<open>Each delete reads the clock; \<^verbatim>\<open>now\<close> gives the reading for a key.\<close>

fun drop_keys :: "loop_env \<Rightarrow> (string \<Rightarrow> u64) \<Rightarrow> u16 \<Rightarrow> string list \<Rightarrow> Server \<Rightarrow> resp_error option \<times> Server" where
  "drop_keys le now vnodeID [] sv = (None, sv)"
| "drop_keys le now vnodeID (k # ks) sv =
     (let (version, sv1) = NextVersion (now k) sv;
          (a, sv2) = send_to_loop le
            \<lparr>req_Op = OpDelete, req_Key = k, req_Value = [], req_VNodeID = vnodeID, req_Version = version, req_ResponseChan = 0\<rparr> sv1
      in (case an_Err a of Some e \<Rightarrow> (Some e, sv2) | None \<Rightarrow> drop_keys le now vnodeID ks sv2))"

definition transfer_dropper ::
  "(string fset \<Rightarrow> string list) \<Rightarrow> loop_env \<Rightarrow> (string \<Rightarrow> u64) \<Rightarrow> u16 \<Rightarrow> Server \<Rightarrow> resp_error option \<times> Server" where
  "transfer_dropper rng le now vnodeID sv =
     (case drop_keys le now vnodeID (GetKeysForVNode rng (sv_Store sv) vnodeID) sv of
        (Some e, sv') \<Rightarrow> (Some e, sv')
      | (None, sv') \<Rightarrow> (None, sv'\<lparr>sv_Store := DeleteVNodeData vnodeID (sv_Store sv')\<rparr>))"

section \<open>The plan\<close>

lemma owner_map_ring:
  assumes "ring vs" "i < VNodeCount"
  shows "get_str (owner_map vs) (of_nat i) = vn_Primary (vs ! i)"
    and "fset (fmdom (owner_map vs)) = of_nat ` {..<VNodeCount}"
proof -
  have fold_upd: "fmlookup (fold (\<lambda>v m. fmupd (vn_ID v) (vn_Primary v) m) us m) (vn_ID u) = Some (vn_Primary u)"
    if "u \<in> set us" "distinct (map vn_ID us)" for us u m
    using that
  proof (induction us arbitrary: m)
    case (Cons a us)
    have keep: "fmlookup (fold (\<lambda>v m. fmupd (vn_ID v) (vn_Primary v) m) us m) k = fmlookup m k"
      if "k \<notin> vn_ID ` set us" for k m using that by (induction us arbitrary: m) auto
    from Cons show ?case by (cases "u = a") (auto simp: keep)
  qed simp
  have dom: "fset (fmdom (fold (\<lambda>v m. fmupd (vn_ID v) (vn_Primary v) m) us m)) = fset (fmdom m) \<union> vn_ID ` set us" for us m
    by (induction us arbitrary: m) auto
  have ids: "map vn_ID vs = map of_nat [0..<VNodeCount]"
    using assms(1) by (intro nth_equalityI) (auto simp: ring_def)
  have "inj_on (of_nat :: nat \<Rightarrow> u16) {..<VNodeCount}"
    by (auto simp: inj_on_def VNodeCount_def word_unat_eq_iff unat_of_nat)
  then have "distinct (map vn_ID vs)" unfolding ids by (simp add: distinct_map inj_on_def)
  moreover have "vs ! i \<in> set vs" "vn_ID (vs ! i) = of_nat i" using assms by (auto simp: ring_def)
  ultimately show "get_str (owner_map vs) (of_nat i) = vn_Primary (vs ! i)"
    using fold_upd [of "vs ! i" vs fmempty] by (simp add: get_str_def owner_map_def)
  have "vn_ID ` set vs = of_nat ` {..<VNodeCount}" using arg_cong [OF ids, of set] by (simp add: atLeast0LessThan)
  then show "fset (fmdom (owner_map vs)) = of_nat ` {..<VNodeCount}" by (simp add: owner_map_def dom)
qed

lemma replicas_at_ring:
  assumes "ring vs" "i < VNodeCount"
  shows "replicas_at vs (of_nat i) = Inr (vn_Replicas (vs ! i))"
  using assms by (simp add: replicas_at_def ring_def VNodeCount_def unat_of_nat)

lemma classify_all_ok:
  assumes "\<forall>v\<in>set vs. \<exists>a b. replicas_at old v = Inr a \<and> replicas_at new v = Inr b"
  defines "oo \<equiv> get_str (owner_map old)" and "no \<equiv> get_str (owner_map new)"
  defines "orep \<equiv> \<lambda>v. projr (replicas_at old v)" and "nrep \<equiv> \<lambda>v. projr (replicas_at new v)"
  shows "\<exists>mp'. classify_all me old new vs mp = Inr mp'
    \<and> mp_lost mp' = mp_lost mp @ filter (\<lambda>v. oo v = me \<and> no v \<noteq> me) vs
    \<and> mp_gained mp' = mp_gained mp @ filter (\<lambda>v. oo v \<noteq> me \<and> no v = me) vs
    \<and> mp_changed mp' = mp_changed mp @ filter (\<lambda>v. oo v = me \<and> no v = me \<and> orep v \<noteq> nrep v) vs
    \<and> mp_added mp' = mp_added mp @ filter (\<lambda>v. oo v \<noteq> me \<and> no v \<noteq> me \<and> me \<notin> set (orep v) \<and> me \<in> set (nrep v)) vs"
  using assms(1)
proof (induction vs arbitrary: mp)
  case (Cons v vs)
  then obtain a b where ab: "replicas_at old v = Inr a" "replicas_at new v = Inr b" by auto
  define mp1 where "mp1 = (if oo v = me \<and> no v \<noteq> me then mp\<lparr>mp_lost := mp_lost mp @ [v]\<rparr>
    else if oo v \<noteq> me \<and> no v = me then mp\<lparr>mp_gained := mp_gained mp @ [v]\<rparr>
    else if oo v = me then (if a \<noteq> b then mp\<lparr>mp_changed := mp_changed mp @ [v]\<rparr> else mp)
    else if me \<notin> set a \<and> me \<in> set b then mp\<lparr>mp_added := mp_added mp @ [v]\<rparr> else mp)"
  have "classify me old new v mp = Inr mp1"
    using ab by (simp add: classify_def Let_def mp1_def oo_def no_def)
  then have run: "classify_all me old new (v # vs) mp = classify_all me old new vs mp1" by simp
  have sel: "mp_lost mp1 = mp_lost mp @ (if oo v = me \<and> no v \<noteq> me then [v] else [])"
    "mp_gained mp1 = mp_gained mp @ (if oo v \<noteq> me \<and> no v = me then [v] else [])"
    "mp_changed mp1 = mp_changed mp @ (if oo v = me \<and> no v = me \<and> a \<noteq> b then [v] else [])"
    "mp_added mp1 = mp_added mp @ (if oo v \<noteq> me \<and> no v \<noteq> me \<and> me \<notin> set a \<and> me \<in> set b then [v] else [])"
    by (simp_all add: mp1_def)
  have reps: "orep v = a" "nrep v = b" using ab by (simp_all add: orep_def nrep_def)
  have "\<forall>v\<in>set vs. \<exists>a b. replicas_at old v = Inr a \<and> replicas_at new v = Inr b" using Cons.prems by simp
  from Cons.IH [OF this, of mp1] show ?case unfolding run by (elim ex_forward) (simp add: sel reps)
qed simp

lemma visited_ids:
  assumes "map_range rng" "ring vs"
  shows "set (rng (fmdom (owner_map vs))) = of_nat ` {..<VNodeCount}"
  using map_range.range_set [OF assms(1)] owner_map_ring(2) [OF assms(2), of 0] by (simp add: VNodeCount_def)

lemma visited_replicas:
  assumes "map_range rng" "ring old" "ring new"
  shows "\<forall>v\<in>set (rng (fmdom (owner_map new))). \<exists>a b. replicas_at old v = Inr a \<and> replicas_at new v = Inr b"
  unfolding visited_ids [OF assms(1,3)] using replicas_at_ring assms(2,3) by fastforce

text \<open>
  C30. What a committed placement makes a node move: for valid rings nothing panics, and the vnodes the node fetches as new owner, drops
  as former owner, and fetches as new replica are exactly the ones whose roles changed so. A former owner
  that stays as a replica (every role swap) is told to drop the vnode, too.
\<close>

theorem migration_plan_exact:
  assumes "map_range rng" "rp_placement r = Some old" "ring (pl_VNodes old)" "ring (pl_VNodes pl)"
  shows "\<exists>mp. ApplyPlacementFromRaft rng (Some pl) r = Inr (SetPlacement (Some pl) r, Some mp)
    \<and> (\<forall>i<VNodeCount. let v = pl_VNodes old ! i; w = pl_VNodes pl ! i; me = rp_ID r in
        (of_nat i \<in> set (mp_gained mp) \<longleftrightarrow> vn_Primary v \<noteq> me \<and> vn_Primary w = me)
      \<and> (of_nat i \<in> set (mp_lost mp) \<longleftrightarrow> vn_Primary v = me \<and> vn_Primary w \<noteq> me)
      \<and> (of_nat i \<in> set (mp_added mp) \<longleftrightarrow> vn_Primary v \<noteq> me \<and> vn_Primary w \<noteq> me \<and> me \<notin> set (vn_Replicas v) \<and> me \<in> set (vn_Replicas w)))"
proof -
  let ?vs = "rng (fmdom (owner_map (pl_VNodes pl)))" and ?o = "pl_VNodes old" and ?n = "pl_VNodes pl"
  note set = visited_ids [OF assms(1,4)]
  from visited_replicas [OF assms(1,3,4)]
  have "\<forall>v\<in>set ?vs. \<exists>a b. replicas_at ?o v = Inr a \<and> replicas_at ?n v = Inr b" .
  from classify_all_ok [OF this, of "rp_ID r" empty_plan] obtain mp where
    mp: "classify_all (rp_ID r) ?o ?n ?vs empty_plan = Inr mp"
    "mp_lost mp = filter (\<lambda>v. get_str (owner_map ?o) v = rp_ID r \<and> get_str (owner_map ?n) v \<noteq> rp_ID r) ?vs"
    "mp_gained mp = filter (\<lambda>v. get_str (owner_map ?o) v \<noteq> rp_ID r \<and> get_str (owner_map ?n) v = rp_ID r) ?vs"
    "mp_added mp = filter (\<lambda>v. get_str (owner_map ?o) v \<noteq> rp_ID r \<and> get_str (owner_map ?n) v \<noteq> rp_ID r
       \<and> rp_ID r \<notin> set (projr (replicas_at ?o v)) \<and> rp_ID r \<in> set (projr (replicas_at ?n v))) ?vs"
    by (auto simp: empty_plan_def)
  have "ApplyPlacementFromRaft rng (Some pl) r = Inr (SetPlacement (Some pl) r, Some mp)"
    using assms(2) mp(1) by (simp add: ApplyPlacementFromRaft_def)
  moreover have "(of_nat i :: u16) \<in> set ?vs" if "i < VNodeCount" for i using that by (simp add: set)
  ultimately show ?thesis
    using owner_map_ring(1) replicas_at_ring assms(3,4)
    by (intro exI [of _ mp] conjI allI impI) (simp_all add: mp(2-4) Let_def)
qed

definition uniform :: "string \<Rightarrow> string list \<Rightarrow> Placement" where
  "uniform owner reps = \<lparr>pl_Epoch = 1, pl_Nodes = [], pl_VNodes = map (\<lambda>v. v\<lparr>vn_Primary := owner, vn_Replicas := reps\<rparr>) InitializeVNodes\<rparr>"

lemma ring_uniform: "ring (pl_VNodes (uniform owner reps))"
  using ring_Initialize by (simp add: ring_def uniform_def)

theorem migration_plan_exact_witness:
  "\<exists>mp. ApplyPlacementFromRaft sorted_list_of_fset (Some (uniform ''b'' [''a'']))
       (SetPlacement (Some (uniform ''a'' [''b''])) (NewReplicator ''a'' 2))
     = Inr (SetPlacement (Some (uniform ''b'' [''a''])) (SetPlacement (Some (uniform ''a'' [''b''])) (NewReplicator ''a'' 2)), Some mp)
   \<and> 5 \<in> set (mp_lost mp) \<and> ''a'' \<in> set (vn_Replicas (pl_VNodes (uniform ''b'' [''a'']) ! 5))"
proof -
  let ?r = "SetPlacement (Some (uniform ''a'' [''b''])) (NewReplicator ''a'' 2)"
  have r: "rp_placement ?r = Some (uniform ''a'' [''b''])" "rp_ID ?r = ''a''" by (simp_all add: SetPlacement_def NewReplicator_def)
  have v: "vn_Primary (pl_VNodes (uniform o1 rs) ! 5) = o1" "vn_Replicas (pl_VNodes (uniform o1 rs) ! 5) = rs" for o1 rs
    by (simp_all add: uniform_def InitializeVNodes_def VNodeCount_def)
  obtain mp where mp: "ApplyPlacementFromRaft sorted_list_of_fset (Some (uniform ''b'' [''a''])) ?r = Inr (SetPlacement (Some (uniform ''b'' [''a''])) ?r, Some mp)"
    "\<forall>i<VNodeCount. let v = pl_VNodes (uniform ''a'' [''b'']) ! i; w = pl_VNodes (uniform ''b'' [''a'']) ! i; me = rp_ID ?r in
        (of_nat i \<in> set (mp_gained mp) \<longleftrightarrow> vn_Primary v \<noteq> me \<and> vn_Primary w = me)
      \<and> (of_nat i \<in> set (mp_lost mp) \<longleftrightarrow> vn_Primary v = me \<and> vn_Primary w \<noteq> me)
      \<and> (of_nat i \<in> set (mp_added mp) \<longleftrightarrow> vn_Primary v \<noteq> me \<and> vn_Primary w \<noteq> me \<and> me \<notin> set (vn_Replicas v) \<and> me \<in> set (vn_Replicas w))"
    using migration_plan_exact [OF sorted_range.map_range_axioms r(1) ring_uniform ring_uniform, of "''b''" "[''a'']"] by blast
  have "5 < VNodeCount" by (simp add: VNodeCount_def)
  from mp(2) [rule_format, OF this] have "(of_nat 5 :: u16) \<in> set (mp_lost mp)" by (simp add: Let_def v r(2))
  then have "(5 :: u16) \<in> set (mp_lost mp)" by simp
  with mp(1) show ?thesis by (simp add: v)
qed

section \<open>Transfers\<close>

lemma vwrite_cong: "st (cmd_Key c) = st' (cmd_Key c) \<Longrightarrow> vwrite c st (cmd_Key c) = vwrite c st' (cmd_Key c)"
  by (simp add: vwrite_def Let_def cur_version_def)

text \<open>Writes to different keys do not disturb each other.\<close>

lemma fold_vwrite_distinct:
  assumes "distinct (map cmd_Key cs)"
  shows "c \<in> set cs \<Longrightarrow> fold vwrite cs st (cmd_Key c) = vwrite c st (cmd_Key c)"
    and "k \<notin> cmd_Key ` set cs \<Longrightarrow> fold vwrite cs st k = st k"
proof -
  have other: "k \<notin> cmd_Key ` set cs \<Longrightarrow> fold vwrite cs st k = st k" for cs st k
    by (induction cs arbitrary: st) (auto simp: vwrite_other)
  then show "k \<notin> cmd_Key ` set cs \<Longrightarrow> fold vwrite cs st k = st k" .
  show "c \<in> set cs \<Longrightarrow> fold vwrite cs st (cmd_Key c) = vwrite c st (cmd_Key c)"
    using assms
  proof (induction cs arbitrary: st)
    case (Cons d cs)
    show ?case
    proof (cases "c = d")
      case True
      with Cons.prems show ?thesis by (simp add: other)
    next
      case False
      with Cons.prems have c: "c \<in> set cs" by simp_all
      moreover from this Cons.prems(2) have "cmd_Key c \<noteq> cmd_Key d" by (metis distinct.simps(2) image_eqI image_set list.simps(9))
      ultimately have c: "c \<in> set cs" "cmd_Key c \<noteq> cmd_Key d" by simp_all
      then have "fold vwrite cs (vwrite d st) (cmd_Key c) = vwrite c (vwrite d st) (cmd_Key c)" using Cons by simp
      also have "\<dots> = vwrite c st (cmd_Key c)" using c(2) by (intro vwrite_cong) (simp add: vwrite_other)
      finally show ?thesis by simp
    qed
  qed simp
qed

lemma transfer_applier_quiet:
  assumes "quiet le" "is_write c"
  shows "transfer_applier le c sv = (None, sv\<lparr>sv_Store := snd (Apply c (sv_Store sv))\<rparr>)"
proof -
  have "cmd_Op c \<noteq> OpGet" "fst (Apply c s) = None" for s
    using assms(2) by (auto simp: is_write_def op_defs Apply_def Let_def)
  moreover have eta: "\<lparr>cmd_Op = cmd_Op c, cmd_Key = cmd_Key c, cmd_Value = cmd_Value c, cmd_VNodeID = cmd_VNodeID c, cmd_Version = cmd_Version c\<rparr> = c"
    by (cases c) simp
  ultimately show ?thesis using assms(1)
    by (simp add: transfer_applier_def send_to_loop_def sendRequest_def serve_def quiet_def answer_of_def write_response_def cmd_of_def
        split_def Let_def eta)
qed

lemma receive_all:
  assumes "quiet le" "\<forall>t\<in>set ts. tr_Error t = [] \<and> \<not> tr_EmptyEntries t" "tr_Error e = []" "tr_EmptyEntries e"
  shows "receive_entries (transfer_applier le) (map Recv (ts @ [e])) sv
    = (None, sv\<lparr>sv_Store := exec (map transfer_cmd ts) (sv_Store sv)\<rparr>)"
  using assms(2)
proof (induction ts arbitrary: sv)
  case Nil
  then show ?case using assms(3,4) by (simp add: exec_def)
next
  case (Cons t ts)
  have "is_write (transfer_cmd t)" by (simp add: is_write_def transfer_cmd_def)
  with Cons show ?case by (simp add: transfer_applier_quiet [OF assms(1)] exec_def)
qed

lemma u16_u32: "ucast (ucast v :: u32) = (v :: u16)"
  by (rule bit_word_eqI) (simp add: bit_simps)

text \<open>What the server streams, as commands at the receiver.\<close>

lemma transfer_entry_cmd:
  "transfer_cmd (transfer_entry v epoch e) =
     \<lparr>cmd_Op = (if ent_Tombstone e then OpDelete else OpPut), cmd_Key = ent_Key e, cmd_Value = ent_Value e, cmd_VNodeID = v, cmd_Version = ent_Version e\<rparr>"
  by (simp add: transfer_cmd_def transfer_entry_def u16_u32)

lemma receive_snapshot:
  assumes "quiet le"
  shows "receive_entries (transfer_applier le) (map Recv (TransferVNode rng (ucast v) epoch src)) sv
    = (None, sv\<lparr>sv_Store := exec (map (\<lambda>e. transfer_cmd (transfer_entry v epoch e)) (snap_Entries (SnapshotVNode rng src v))) (sv_Store sv)\<rparr>)"
proof -
  show ?thesis
    unfolding TransferVNode_def Let_def u16_u32
    by (subst receive_all [OF assms]) (auto simp: transfer_entry_def comp_def)
qed

lemma transferred_entry:
  assumes "ent_state e = (k, the (st k))" "st k = Some (ver, val)" "ver \<noteq> 0"
  shows "vwrite (transfer_cmd (transfer_entry v epoch e)) dst k = (if cur_version dst k \<le> ver then Some (ver, val) else dst k)"
  using assms
  by (auto simp: transfer_entry_cmd ent_state_def vwrite_def Let_def is_write_def effect_def op_defs split: if_splits)

lemma receive_snapshot_abs:
  fixes epoch :: u64
  assumes ok: "index_ok vn src" and rng: "map_range rng" and known: "fmlookup (vNodeIdx src) v \<noteq> None"
    and nz: "\<forall>k\<in>vnode_keys vn src v. cur_version (store_abs src) k \<noteq> 0"
  defines "cs \<equiv> map (\<lambda>e. transfer_cmd (transfer_entry v epoch e)) (snap_Entries (SnapshotVNode rng src v))"
  shows "fold vwrite cs dst k = (if k \<in> vnode_keys vn src v \<and> cur_version dst k \<le> cur_version (store_abs src) k then store_abs src k else dst k)"
proof -
  let ?es = "snap_Entries (SnapshotVNode rng src v)"
  obtain ks where ks: "distinct ks" "set ks = vnode_keys vn src v"
    "map ent_state ?es = map (\<lambda>k. (k, the (store_abs src k))) ks"
    using snapshot_complete [OF ok rng known] by (elim exE conjE)
  have "map cmd_Key cs = map fst (map ent_state ?es)" by (simp add: cs_def transfer_entry_cmd ent_state_def)
  also have "\<dots> = ks" unfolding ks(3) by (simp add: comp_def)
  finally have keys: "map cmd_Key cs = ks" .
  then have dist: "distinct (map cmd_Key cs)" and img: "cmd_Key ` set cs = vnode_keys vn src v"
    using ks(1,2) by (simp_all add: image_set [symmetric] del: image_set set_map) (metis image_set)
  show ?thesis
  proof (cases "k \<in> vnode_keys vn src v")
    case True
    then have "(k, the (store_abs src k)) \<in> set (map ent_state ?es)" unfolding ks(3) by (simp add: ks(2))
    then obtain e where e: "e \<in> set ?es" "ent_state e = (k, the (store_abs src k))" by auto
    obtain ver val where kv: "store_abs src k = Some (ver, val)" using True by (auto simp: vnode_keys_def)
    then have ver: "cur_version (store_abs src) k = ver" by (simp add: cur_version_def del: cur_version_store_abs)
    let ?c = "transfer_cmd (transfer_entry v epoch e)"
    have "?c \<in> set cs" "cmd_Key ?c = k" using e by (auto simp: cs_def transfer_entry_cmd ent_state_def)
    with fold_vwrite_distinct(1) [OF dist, of ?c dst] have "fold vwrite cs dst k = vwrite ?c dst k" by simp
    also have "\<dots> = (if cur_version dst k \<le> ver then Some (ver, val) else dst k)"
      using nz True ver by (intro transferred_entry [where st = "store_abs src"] e(2) kv) auto
    finally show ?thesis using True by (simp add: ver kv del: cur_version_store_abs)
  next
    case False
    then show ?thesis using fold_vwrite_distinct(2) [OF dist, of k dst] img by simp
  qed
qed


definition sample_source :: Store where
  "sample_source = snd (Apply (put_cmd ''k'' [7] 3 9) NewStore)"

definition sample_env :: "loop_env \<Rightarrow> Store \<Rightarrow> transfer_env" where
  "sample_env le src = \<lparr>te_dial_err = \<lambda>_. None, te_views = None, te_applyFn = Some (transfer_applier le), te_dropFn = None,
     te_stream = \<lambda>_ v epoch. Inr (map Recv (TransferVNode sorted_list_of_fset (ucast v) epoch src))\<rparr>"

definition sample_node :: node_state where
  "sample_node = \<lparr>nd_repl = setNodeRPCAddr ''b'' ''10.0.0.2:9000'' (NewReplicator ''a'' 2), nd_server = NewServer NewStore\<rparr>"


section \<open>Dropping what moved away\<close>

lemma index_ok_Apply: "index_ok vn s \<Longrightarrow> well_tagged vn c \<Longrightarrow> index_ok vn (snd (Apply c s))"
  by (simp add: Apply_def Let_def index_ok_put index_ok_delete)

lemma loop_delete:
  "sv_Store (snd (send_to_loop le \<lparr>req_Op = OpDelete, req_Key = k, req_Value = [], req_VNodeID = v, req_Version = ver, req_ResponseChan = 0\<rparr> sv))
     \<in> {sv_Store sv, snd (Apply \<lparr>cmd_Op = OpDelete, cmd_Key = k, cmd_Value = [], cmd_VNodeID = v, cmd_Version = ver\<rparr> (sv_Store sv))}"
  by (simp add: send_to_loop_def sendRequest_def serve_def cmd_of_def write_response_def Let_def split_def op_defs split: ctx.splits)

lemma drop_keys_others:
  assumes "\<forall>k\<in>set ks. vn k = v" "index_ok vn (sv_Store sv)"
  shows "index_ok vn (sv_Store (snd (drop_keys le now v ks sv)))
    \<and> (\<forall>k. vn k \<noteq> v \<longrightarrow> store_abs (sv_Store (snd (drop_keys le now v ks sv))) k = store_abs (sv_Store sv) k)"
  using assms
proof (induction ks arbitrary: sv)
  case (Cons a ks)
  obtain version sv1 where nv: "NextVersion (now a) sv = (version, sv1)" "sv_Store sv1 = sv_Store sv"
    by (simp add: NextVersion_eq)
  let ?r = "\<lparr>req_Op = OpDelete, req_Key = a, req_Value = [], req_VNodeID = v, req_Version = version, req_ResponseChan = 0\<rparr>"
  let ?c = "\<lparr>cmd_Op = OpDelete, cmd_Key = a, cmd_Value = [], cmd_VNodeID = v, cmd_Version = version\<rparr>"
  obtain ans sv2 where sl: "send_to_loop le ?r sv1 = (ans, sv2)" by (cases "send_to_loop le ?r sv1")
  have "sv_Store sv2 = sv_Store sv \<or> sv_Store sv2 = snd (Apply ?c (sv_Store sv))"
    using loop_delete [of le a v version sv1] by (simp add: sl nv(2))
  moreover have "index_ok vn (snd (Apply ?c (sv_Store sv)))"
    using Cons.prems by (intro index_ok_Apply) (simp_all add: well_tagged_def)
  moreover have "vn k \<noteq> v \<Longrightarrow> store_abs (snd (Apply ?c (sv_Store sv))) k = store_abs (sv_Store sv) k" for k
    using Cons.prems(1) by (subst store_abs_Apply, intro vwrite_other) auto
  ultimately have sv2: "index_ok vn (sv_Store sv2)" "\<And>k. vn k \<noteq> v \<Longrightarrow> store_abs (sv_Store sv2) k = store_abs (sv_Store sv) k"
    using Cons.prems(2) by auto
  show ?case
  proof (cases "an_Err ans")
    case None
    with Cons.IH [of sv2] Cons.prems(1) sv2 show ?thesis by (simp add: nv(1) sl)
  qed (simp add: nv(1) sl sv2)
qed simp

text \<open>
  C31. A drop forgets exactly its vnode: when the dropper of the server returns without an error, the node has nothing left of
  the vnode and everything of the others, with consistent indexes. A node that asks it for the vnode from then on is told that
  the transfer is complete and receives nothing, whatever it had.
\<close>

theorem dropper_forgets:
  assumes "transfer_dropper rng le now v sv = (None, sv')" "index_ok vn (sv_Store sv)" "map_range rng"
  shows "index_ok vn (sv_Store sv')
    \<and> store_abs (sv_Store sv') = (\<lambda>k. if vn k = v then None else store_abs (sv_Store sv) k)
    \<and> receive_entries applyFn (map Recv (TransferVNode rng (ucast v) epoch (sv_Store sv'))) dst = (None, dst)"
proof -
  let ?ks = "GetKeysForVNode rng (sv_Store sv) v"
  have "\<forall>k\<in>set ?ks. k |\<in>| idx_set (vNodeIdx (sv_Store sv)) v"
    using assms(3) by (auto simp: GetKeysForVNode_def map_range_def idx_set_def split: option.splits)
  then have "\<forall>k\<in>set ?ks. vn k = v" by (auto simp: index_okD(2) [OF assms(2)])
  note rest = drop_keys_others [OF this assms(2), of le now]
  let ?s1 = "sv_Store (snd (drop_keys le now v ?ks sv))"
  have sv': "sv_Store sv' = DeleteVNodeData v ?s1"
    using assms(1) by (auto simp: transfer_dropper_def split: prod.splits option.splits)
  have abs: "store_abs (sv_Store sv') = (\<lambda>k. if vn k = v then None else store_abs (sv_Store sv) k)"
    unfolding sv' using rest by (auto simp: store_abs_DeleteVNodeData)
  have empty: "idx_set (vNodeIdx (sv_Store sv')) v = {||}" "idx_set (tombstoneIdx (sv_Store sv')) v = {||}"
    unfolding sv' by (simp_all add: index_DeleteVNodeData)
  have "rng {||} = []" using assms(3) by (metis bot_fset.rep_eq map_range_def set_empty)
  with empty have "snap_Entries (SnapshotVNode rng (sv_Store sv') v) = []"
    by (simp add: SnapshotVNode_def idx_set_def data_entries_def tombstone_entries_def map_filter_simps split: option.splits)
  then have "receive_entries applyFn (map Recv (TransferVNode rng (ucast v) epoch (sv_Store sv'))) dst = (None, dst)"
    by (simp add: TransferVNode_def u16_u32)
  with abs show ?thesis using rest by (simp add: sv' index_ok_DeleteVNodeData)
qed

theorem dropper_forgets_witness:
  "\<exists>sv'. transfer_dropper sorted_list_of_fset calm (\<lambda>_. 10) 3 (NewServer sample_source) = (None, sv')
     \<and> store_abs (sv_Store sv') ''k'' = None
     \<and> receive_entries (transfer_applier calm) (map Recv (TransferVNode sorted_list_of_fset 3 1 (sv_Store sv'))) (NewServer NewStore)
       = (None, NewServer NewStore)"
proof -
  have ok: "index_ok (\<lambda>_. 3) (sv_Store (NewServer sample_source))"
    unfolding sample_source_def NewServer_def Server.simps
    by (rule store_ok_index, rule store_ok_Apply [OF store_ok_NewStore]) (simp add: cmd_eval)
  have err: "fst (drop_keys calm now v ks sv) = None" for now v ks sv
    by (induction ks arbitrary: sv)
      (simp_all add: NextVersion_eq send_to_loop_def sendRequest_def serve_def calm_def answer_of_def write_response_def cmd_of_def
        Apply_def Let_def split_def op_defs AckAfterFlush_def AckAfterEnqueue_def)
  have "fst (transfer_dropper sorted_list_of_fset calm (\<lambda>_. 10) 3 (NewServer sample_source)) = None"
    using err [of "\<lambda>_. 10" 3] by (simp add: transfer_dropper_def split: prod.splits option.splits) (metis fst_conv option.distinct(1))
  then obtain sv' where d: "transfer_dropper sorted_list_of_fset calm (\<lambda>_. 10) 3 (NewServer sample_source) = (None, sv')"
    by (metis prod.collapse)
  have three: "ucast (3 :: u16) = (3 :: u32)" by simp
  from dropper_forgets [OF d ok sorted_range.map_range_axioms, of "transfer_applier calm" 1 "NewServer NewStore"] d
  show ?thesis by (simp add: three)
qed

end
