(* ===== verification/Raft_FSM.thy ===== *)
theory Raft_FSM
  imports Migration
begin

text \<open>
  The replicated placement: the finite state machine that raft drives and the calls into raft, from
  \<^verbatim>\<open>src/cluster/raft.go\<close>. The raft library decides which log entries are committed; what it
  delivers to a node is a list of events. The JSON codec is a parameter.
\<close>

section \<open>The state machine\<close>

record raftCommand =
  rc_Type :: string
  rc_Payload :: bytes

record installPlacementPayload =
  ip_Placement :: Placement

record placementSnapshot =
  ps_Placement :: Placement

record json_codec =
  marshal_command :: "raftCommand \<Rightarrow> string + bytes"
  unmarshal_command :: "bytes \<Rightarrow> string + raftCommand"
  marshal_payload :: "installPlacementPayload \<Rightarrow> string + bytes"
  unmarshal_payload :: "bytes \<Rightarrow> string + installPlacementPayload"
  encode_snapshot :: "placementSnapshot \<Rightarrow> string + bytes"
  decode_snapshot :: "bytes \<Rightarrow> string + placementSnapshot"

text \<open>The callback receives the placements that the operations return; \<^verbatim>\<open>fsm_onApply\<close> says whether one is set.\<close>

record placementFSM =
  fsm_placement :: "Placement option"
  fsm_onApply :: bool

definition newPlacementFSM :: "bool \<Rightarrow> placementFSM" where
  "newPlacementFSM onApply = \<lparr>fsm_placement = None, fsm_onApply = onApply\<rparr>"

datatype fsm_error = DecodeCommand string | DecodePayload string | UnknownCommand string | DecodeSnapshot string

definition call_onApply :: "Placement \<Rightarrow> placementFSM \<Rightarrow> Placement option" where
  "call_onApply p f = (if fsm_onApply f then Some p else None)"

definition FSM_Apply :: "json_codec \<Rightarrow> bytes \<Rightarrow> placementFSM \<Rightarrow> fsm_error option \<times> Placement option \<times> placementFSM" where
  "FSM_Apply codec dat f =
     (case unmarshal_command codec dat of
        Inl e \<Rightarrow> (Some (DecodeCommand e), None, f)
      | Inr cmd \<Rightarrow>
          if rc_Type cmd = ''install_placement''
          then (case unmarshal_payload codec (rc_Payload cmd) of
                  Inl e \<Rightarrow> (Some (DecodePayload e), None, f)
                | Inr payload \<Rightarrow>
                    (let next = ip_Placement payload;
                         f' = f\<lparr>fsm_placement := Some next\<rparr>
                     in (case fsm_placement f of
                           Some cur \<Rightarrow>
                             if pl_Epoch next \<le> pl_Epoch cur then (None, None, f)
                             else (None, call_onApply next f', f')
                         | None \<Rightarrow> (None, call_onApply next f', f'))))
          else (Some (UnknownCommand (rc_Type cmd)), None, f))"

definition zero_placement :: Placement where
  "zero_placement = \<lparr>pl_Epoch = 0, pl_Nodes = [], pl_VNodes = []\<rparr>"

definition FSM_Snapshot :: "placementFSM \<Rightarrow> placementSnapshot" where
  "FSM_Snapshot f = \<lparr>ps_Placement = (case fsm_placement f of None \<Rightarrow> zero_placement | Some p \<Rightarrow> p)\<rparr>"

definition Persist :: "json_codec \<Rightarrow> placementSnapshot \<Rightarrow> string + bytes" where
  "Persist codec s = encode_snapshot codec s"

definition FSM_Restore :: "json_codec \<Rightarrow> bytes \<Rightarrow> placementFSM \<Rightarrow> fsm_error option \<times> Placement option \<times> placementFSM" where
  "FSM_Restore codec dat f =
     (case decode_snapshot codec dat of
        Inl e \<Rightarrow> (Some (DecodeSnapshot e), None, f)
      | Inr s \<Rightarrow> (let f' = f\<lparr>fsm_placement := Some (ps_Placement s)\<rparr> in (None, call_onApply (ps_Placement s) f', f')))"

definition currentPlacement :: "placementFSM \<Rightarrow> Placement option" where
  "currentPlacement f = fsm_placement f"

section \<open>What raft delivers\<close>

datatype raft_event = Log bytes | InstallSnapshot bytes

definition fsm_step :: "json_codec \<Rightarrow> raft_event \<Rightarrow> placementFSM \<Rightarrow> Placement option \<times> placementFSM" where
  "fsm_step codec ev f = (case ev of Log d \<Rightarrow> snd (FSM_Apply codec d f) | InstallSnapshot d \<Rightarrow> snd (FSM_Restore codec d f))"

fun fsm_run :: "json_codec \<Rightarrow> raft_event list \<Rightarrow> placementFSM \<Rightarrow> Placement list \<times> placementFSM" where
  "fsm_run codec [] f = ([], f)"
| "fsm_run codec (ev # evs) f =
     (let (cb, f1) = fsm_step codec ev f;
          (cbs, f2) = fsm_run codec evs f1
      in (case cb of None \<Rightarrow> cbs | Some p \<Rightarrow> p # cbs, f2))"

text \<open>The server passes \<^verbatim>\<open>replicator.ApplyPlacementFromRaft\<close> as the callback.\<close>

definition node_callback ::
  "(u16 fset \<Rightarrow> u16 list) \<Rightarrow> Placement \<Rightarrow> Replicator \<Rightarrow> placement_panic + Replicator" where
  "node_callback rng p r = (case ApplyPlacementFromRaft rng (Some p) r of Inl e \<Rightarrow> Inl e | Inr (r', _) \<Rightarrow> Inr r')"

fun node_callbacks ::
  "(u16 fset \<Rightarrow> u16 list) \<Rightarrow> Placement list \<Rightarrow> Replicator \<Rightarrow> placement_panic + Replicator" where
  "node_callbacks rng [] r = Inr r"
| "node_callbacks rng (p # ps) r = (case node_callback rng p r of Inl e \<Rightarrow> Inl e | Inr r' \<Rightarrow> node_callbacks rng ps r')"

section \<open>Calls into raft\<close>

datatype raft_error = NilPlacement | MarshalError string | NotInitialized | ErrNotLeader | RaftFailed string

text \<open>
  \<^verbatim>\<open>raft\<close> is the outcome of handing a command to the raft library, if it is initialized. The second component is
  the command handed over.
\<close>

definition ApplyPlacement ::
  "json_codec \<Rightarrow> (bytes \<Rightarrow> raft_error option) option \<Rightarrow> Placement option \<Rightarrow> raft_error option \<times> bytes option" where
  "ApplyPlacement codec raft p =
     (case p of
        None \<Rightarrow> (Some NilPlacement, None)
      | Some pl \<Rightarrow>
          (case marshal_payload codec \<lparr>ip_Placement = pl\<rparr> of
             Inl e \<Rightarrow> (Some (MarshalError e), None)
           | Inr payload \<Rightarrow>
               (case marshal_command codec \<lparr>rc_Type = ''install_placement'', rc_Payload = payload\<rparr> of
                  Inl e \<Rightarrow> (Some (MarshalError e), None)
                | Inr cmd \<Rightarrow>
                    (case raft of None \<Rightarrow> (Some NotInitialized, None) | Some r \<Rightarrow> (r cmd, Some cmd)))))"

definition membership_call :: "raft_error option option \<Rightarrow> raft_error option" where
  "membership_call fut =
     (case fut of None \<Rightarrow> Some NotInitialized | Some err \<Rightarrow> if err = Some ErrNotLeader then None else err)"

definition AddVoter :: "(string \<Rightarrow> string \<Rightarrow> raft_error option) option \<Rightarrow> string \<Rightarrow> string \<Rightarrow> raft_error option" where
  "AddVoter raft i addr = membership_call (map_option (\<lambda>r. r i addr) raft)"

definition RemoveServer :: "(string \<Rightarrow> raft_error option) option \<Rightarrow> string \<Rightarrow> raft_error option" where
  "RemoveServer raft i = membership_call (map_option (\<lambda>r. r i) raft)"

definition Configuration :: "(raft_error + 'cfg) option \<Rightarrow> raft_error + 'cfg" where
  "Configuration raft = (case raft of None \<Rightarrow> Inl NotInitialized | Some fut \<Rightarrow> fut)"

section \<open>Starting and stopping raft\<close>

record TCPAddr =
  ta_IP :: bytes
  ta_Port :: int
  ta_Zone :: string

definition v4InV6Prefix :: bytes where
  "v4InV6Prefix = replicate 10 0 @ [255, 255]"

definition IP_Equal :: "bytes \<Rightarrow> bytes \<Rightarrow> bool" where
  "IP_Equal ip x =
     (if length ip = length x then ip = x
      else if length ip = 4 \<and> length x = 16 then x = v4InV6Prefix @ ip
      else if length ip = 16 \<and> length x = 4 then ip = v4InV6Prefix @ x
      else False)"

definition IsUnspecified :: "bytes \<Rightarrow> bool" where
  "IsUnspecified ip \<longleftrightarrow> IP_Equal ip (v4InV6Prefix @ [0, 0, 0, 0]) \<or> IP_Equal ip (replicate 16 0)"

definition effective_bind :: "TCPAddr \<Rightarrow> TCPAddr \<Rightarrow> TCPAddr" where
  "effective_bind bindAddr advAddr =
     (let b1 = (if ta_IP bindAddr = [] \<or> IsUnspecified (ta_IP bindAddr)
                then bindAddr\<lparr>ta_IP := ta_IP advAddr, ta_Zone := (if ta_Zone bindAddr = [] then ta_Zone advAddr else ta_Zone bindAddr)\<rparr>
                else bindAddr)
      in if ta_Port b1 = 0 then b1\<lparr>ta_Port := ta_Port advAddr\<rparr> else b1)"

datatype setup_error = BindRequired | AdvertiseRequired | DataDirRequired | SetupFailed string

datatype bootstrap_result = Bootstrapped | ErrCantBootstrap | BootstrapFailed string

text \<open>What the file system, the resolver and the raft library answer while the node starts.\<close>

record raft_setup =
  rs_mkdir :: "string option"
  rs_bolt :: "string option"
  rs_cache :: "string option"
  rs_snapshots :: "string option"
  rs_resolve :: "string \<Rightarrow> string + TCPAddr"
  rs_transport :: "TCPAddr \<Rightarrow> TCPAddr \<Rightarrow> string option"
  rs_raft :: "string option"
  rs_bootstrap :: "(string \<times> string) list \<Rightarrow> bootstrap_result"

record RaftNode =
  rn_nodeID :: string
  rn_fsm :: placementFSM
  rn_bind :: TCPAddr
  rn_advertise :: TCPAddr

fun first_error :: "string option list \<Rightarrow> string option" where
  "first_error [] = None"
| "first_error (Some e # _) = Some e"
| "first_error (None # es) = first_error es"

definition NewRaftNode ::
  "raft_setup \<Rightarrow> string \<Rightarrow> string \<Rightarrow> string \<Rightarrow> string \<Rightarrow> bool \<Rightarrow> bool \<Rightarrow> setup_error + RaftNode" where
  "NewRaftNode rs nodeID raftBindAddr raftAdvertiseAddr raftDataDir bootstrap onApply =
     (if raftBindAddr = [] then Inl BindRequired
      else if raftAdvertiseAddr = [] then Inl AdvertiseRequired
      else if raftDataDir = [] then Inl DataDirRequired
      else (case first_error [rs_mkdir rs, rs_bolt rs, rs_cache rs, rs_snapshots rs] of
              Some e \<Rightarrow> Inl (SetupFailed e)
            | None \<Rightarrow>
                (case rs_resolve rs raftBindAddr of
                   Inl e \<Rightarrow> Inl (SetupFailed e)
                 | Inr bindAddr \<Rightarrow>
                     (case rs_resolve rs raftAdvertiseAddr of
                        Inl e \<Rightarrow> Inl (SetupFailed e)
                      | Inr advAddr \<Rightarrow>
                          (let b = effective_bind bindAddr advAddr;
                               rn = \<lparr>rn_nodeID = nodeID, rn_fsm = newPlacementFSM onApply, rn_bind = b, rn_advertise = advAddr\<rparr>
                           in (case first_error [rs_transport rs b advAddr, rs_raft rs] of
                                 Some e \<Rightarrow> Inl (SetupFailed e)
                               | None \<Rightarrow>
                                   if bootstrap
                                   then (case rs_bootstrap rs [(nodeID, raftAdvertiseAddr)] of
                                           BootstrapFailed e \<Rightarrow> Inl (SetupFailed e)
                                         | _ \<Rightarrow> Inr rn)
                                   else Inr rn))))))"

datatype close_error = CloseNotInitialized | ShutdownFailed string | BoltCloseFailed string

definition CloseBoltDB :: "bool \<Rightarrow> string option \<Rightarrow> string option \<Rightarrow> close_error option" where
  "CloseBoltDB initialized shutdown_err bolt_err =
     (if \<not> initialized then Some CloseNotInitialized
      else (case shutdown_err of
              Some e \<Rightarrow> Some (ShutdownFailed e)
            | None \<Rightarrow> map_option BoltCloseFailed bolt_err))"

section \<open>Lemmas\<close>

text \<open>
  The transport is never asked to listen on an unspecified address or on port 0 if the advertised one is
  specified, and a configured bind address is left alone.
\<close>

lemma effective_bind_specified:
  "ta_IP adv \<noteq> [] \<Longrightarrow> \<not> IsUnspecified (ta_IP adv) \<Longrightarrow> ta_IP (effective_bind b adv) \<noteq> [] \<and> \<not> IsUnspecified (ta_IP (effective_bind b adv))"
  "ta_Port adv \<noteq> 0 \<Longrightarrow> ta_Port (effective_bind b adv) \<noteq> 0"
  "ta_IP b \<noteq> [] \<Longrightarrow> \<not> IsUnspecified (ta_IP b) \<Longrightarrow> ta_Port b \<noteq> 0 \<Longrightarrow> effective_bind b adv = b"
  by (auto simp: effective_bind_def Let_def)

lemma first_error_None: "first_error es = None \<longleftrightarrow> (\<forall>e\<in>set es. e = None)"
  by (induction es rule: first_error.induct) auto

lemma NewRaftNode_started:
  assumes "NewRaftNode rs nid bindA advA dir bootstrap onApply = Inr rn"
  shows "currentPlacement (rn_fsm rn) = None \<and> rs_resolve rs advA = Inr (rn_advertise rn)
    \<and> (\<exists>b. rs_resolve rs bindA = Inr b \<and> rn_bind rn = effective_bind b (rn_advertise rn) \<and> rs_transport rs (rn_bind rn) (rn_advertise rn) = None)"
  using assms
  by (auto simp: NewRaftNode_def first_error_None Let_def currentPlacement_def newPlacementFSM_def
      split: if_splits option.splits sum.splits bootstrap_result.splits)

text \<open>The codec of the source reads back what it wrote.\<close>

definition codec_ok :: "json_codec \<Rightarrow> bool" where
  "codec_ok codec \<longleftrightarrow>
     (\<forall>c d. marshal_command codec c = Inr d \<longrightarrow> unmarshal_command codec d = Inr c) \<and>
     (\<forall>p d. marshal_payload codec p = Inr d \<longrightarrow> unmarshal_payload codec d = Inr p) \<and>
     (\<forall>s d. encode_snapshot codec s = Inr d \<longrightarrow> decode_snapshot codec d = Inr s)"

lemma fsm_run_append:
  "fsm_run codec (es @ es') f =
     (fst (fsm_run codec es f) @ fst (fsm_run codec es' (snd (fsm_run codec es f))), snd (fsm_run codec es' (snd (fsm_run codec es f))))"
  by (induction es arbitrary: f) (simp_all add: split_def Let_def split: option.splits)

lemma fsm_step_log:
  "fsm_step codec (Log d) f = (cb, f') \<Longrightarrow> fsm_onApply f \<Longrightarrow>
     fsm_onApply f' \<and> (case cb of
       None \<Rightarrow> f' = f
     | Some p \<Rightarrow> fsm_placement f' = Some p \<and> (\<forall>q. fsm_placement f = Some q \<longrightarrow> pl_Epoch q < pl_Epoch p))"
  by (auto simp: fsm_step_def FSM_Apply_def call_onApply_def Let_def split: sum.splits if_splits option.splits)

text \<open>The callbacks come with growing epochs, and the state machine holds the last one.\<close>

lemma fsm_run_logs:
  assumes "fsm_run codec (map Log ds) f = (cbs, f')" "fsm_onApply f"
  shows "fsm_onApply f' \<and> fsm_placement f' = (if cbs = [] then fsm_placement f else Some (last cbs))
    \<and> sorted_wrt (\<lambda>p q. pl_Epoch p < pl_Epoch q) cbs
    \<and> (\<forall>q. fsm_placement f = Some q \<longrightarrow> (\<forall>p\<in>set cbs. pl_Epoch q < pl_Epoch p))"
  using assms
proof (induction ds arbitrary: f cbs)
  case (Cons d ds)
  obtain cb f1 where s: "fsm_step codec (Log d) f = (cb, f1)" by (cases "fsm_step codec (Log d) f")
  obtain cs where r: "fsm_run codec (map Log ds) f1 = (cs, f')" and cbs: "cbs = (case cb of None \<Rightarrow> cs | Some p \<Rightarrow> p # cs)"
    using Cons.prems(1) s by (auto split: prod.splits)
  note step = fsm_step_log [OF s Cons.prems(2)]
  then have "fsm_onApply f1" by simp
  note IH = Cons.IH [OF r this]
  show ?case
  proof (cases cb)
    case None
    then show ?thesis using IH step cbs by simp
  next
    case (Some p)
    then have "fsm_placement f1 = Some p" "\<forall>q. fsm_placement f = Some q \<longrightarrow> pl_Epoch q < pl_Epoch p" using step by simp_all
    then show ?thesis using IH cbs Some by (auto intro: less_trans)
  qed
qed simp

lemma node_callbacks_ring:
  assumes "map_range rng" "\<forall>p\<in>set ps. ring (pl_VNodes p)" "\<forall>q. rp_placement r = Some q \<longrightarrow> ring (pl_VNodes q)"
  shows "\<exists>r'. node_callbacks rng ps r = Inr r' \<and> rp_placement r' = (if ps = [] then rp_placement r else Some (last ps))"
  using assms(2,3)
proof (induction ps arbitrary: r)
  case (Cons p ps)
  have "node_callback rng p r = Inr (SetPlacement (Some p) r)"
  proof (cases "rp_placement r")
    case (Some old)
    with Cons.prems have "ring (pl_VNodes old)" "ring (pl_VNodes p)" by simp_all
    note cl = classify_all_ok [OF visited_replicas [OF assms(1) this], of "rp_ID r" empty_plan]
    obtain mp where "classify_all (rp_ID r) (pl_VNodes old) (pl_VNodes p) (rng (fmdom (owner_map (pl_VNodes p)))) empty_plan = Inr mp"
      using cl by (elim exE conjE)
    then show ?thesis by (simp add: node_callback_def ApplyPlacementFromRaft_def Some Let_def)
  qed (simp add: node_callback_def ApplyPlacementFromRaft_def Let_def)
  moreover have "rp_placement (SetPlacement (Some p) r) = Some p" by (simp add: SetPlacement_def)
  ultimately show ?case using Cons.IH [of "SetPlacement (Some p) r"] Cons.prems(1) by auto
qed simp

lemma proposal_applied:
  assumes "codec_ok codec" "snd (ApplyPlacement codec raft (Some p)) = Some d"
  shows "fsm_step codec (Log d) f =
    (case fsm_placement f of
       Some q \<Rightarrow> if pl_Epoch p \<le> pl_Epoch q then (None, f) else (call_onApply p f, f\<lparr>fsm_placement := Some p\<rparr>)
     | None \<Rightarrow> (call_onApply p f, f\<lparr>fsm_placement := Some p\<rparr>))"
proof -
  obtain pay where "marshal_payload codec \<lparr>ip_Placement = p\<rparr> = Inr pay"
    "marshal_command codec \<lparr>rc_Type = ''install_placement'', rc_Payload = pay\<rparr> = Inr d"
    using assms(2) by (auto simp: ApplyPlacement_def split: sum.splits option.splits)
  then have "unmarshal_command codec d = Inr \<lparr>rc_Type = ''install_placement'', rc_Payload = pay\<rparr>"
    "unmarshal_payload codec pay = Inr \<lparr>ip_Placement = p\<rparr>"
    using assms(1) by (simp_all add: codec_ok_def)
  then show ?thesis
    by (simp add: fsm_step_def FSM_Apply_def call_onApply_def Let_def split: option.splits)
qed

text \<open>The committed proposals leave the one with the highest epoch in place.\<close>

lemma proposals_run:
  assumes ok: "codec_ok codec" and "fsm_onApply f"
    and "list_all2 (\<lambda>p d. \<exists>raft. snd (ApplyPlacement codec raft (Some p)) = Some d) ps ds"
  shows "\<exists>cbs f'. fsm_run codec (map Log ds) f = (cbs, f') \<and> set cbs \<subseteq> set ps \<and> (\<forall>p\<in>set ps. \<exists>q. fsm_placement f' = Some q \<and> pl_Epoch p \<le> pl_Epoch q)
    \<and> (\<forall>p. fsm_placement f = Some p \<longrightarrow> (\<exists>q. fsm_placement f' = Some q \<and> pl_Epoch p \<le> pl_Epoch q))"
  using assms(3,2)
proof (induction arbitrary: f rule: list_all2_induct)
  case (Cons p ps d ds)
  then obtain raft where "snd (ApplyPlacement codec raft (Some p)) = Some d" by blast
  note step = proposal_applied [OF ok this, of f]
  obtain cb f1 where s: "fsm_step codec (Log d) f = (cb, f1)" by (cases "fsm_step codec (Log d) f")
  have f1: "fsm_onApply f1" "cb = None \<or> cb = Some p" "\<exists>q. fsm_placement f1 = Some q \<and> pl_Epoch p \<le> pl_Epoch q"
    "\<forall>p. fsm_placement f = Some p \<longrightarrow> (\<exists>q. fsm_placement f1 = Some q \<and> pl_Epoch p \<le> pl_Epoch q)"
    using step s Cons.prems by (auto simp: call_onApply_def split: option.splits if_splits)
  obtain cbs f' where run: "fsm_run codec (map Log ds) f1 = (cbs, f')" "set cbs \<subseteq> set ps"
    "\<forall>p\<in>set ps. \<exists>q. fsm_placement f' = Some q \<and> pl_Epoch p \<le> pl_Epoch q"
    "\<forall>p. fsm_placement f1 = Some p \<longrightarrow> (\<exists>q. fsm_placement f' = Some q \<and> pl_Epoch p \<le> pl_Epoch q)"
    using Cons.IH [OF f1(1)] by blast
  have le: "\<exists>q. fsm_placement f' = Some q \<and> pl_Epoch p \<le> pl_Epoch q" if "\<exists>q. fsm_placement f1 = Some q \<and> pl_Epoch p \<le> pl_Epoch q" for p
    using that run(4) order_trans by blast
  have "fsm_run codec (map Log (d # ds)) f = (case cb of None \<Rightarrow> cbs | Some p \<Rightarrow> p # cbs, f')" by (simp add: s run(1))
  moreover have "set (case cb of None \<Rightarrow> cbs | Some p \<Rightarrow> p # cbs) \<subseteq> set (p # ps)" using f1(2) run(2) by auto
  moreover have "\<forall>p'\<in>set (p # ps). \<exists>q. fsm_placement f' = Some q \<and> pl_Epoch p' \<le> pl_Epoch q"
    using le [OF f1(3)] run(3) by simp
  moreover have "\<forall>p'. fsm_placement f = Some p' \<longrightarrow> (\<exists>q. fsm_placement f' = Some q \<and> pl_Epoch p' \<le> pl_Epoch q)"
    using le f1(4) by blast
  ultimately show ?case by blast
qed simp

text \<open>
  C32. Committed placements reach every node: whatever full rings the leaders proposed with \<^verbatim>\<open>ApplyPlacement\<close>, a node that gets the committed
  entries in log order does not panic, its callbacks have growing epochs, and in the end its replicator and
  its state machine hold the same proposed placement, of the highest epoch proposed.
\<close>

theorem committed_placements_installed:
  assumes "codec_ok codec" "map_range rng" "ps \<noteq> []" "\<forall>p\<in>set ps. ring (pl_VNodes p)"
    and "list_all2 (\<lambda>p d. \<exists>raft. snd (ApplyPlacement codec raft (Some p)) = Some d) ps ds"
    and "fsm_run codec (map Log ds) (newPlacementFSM True) = (cbs, f)"
  shows "sorted_wrt (\<lambda>p q. pl_Epoch p < pl_Epoch q) cbs
    \<and> (\<exists>r p. node_callbacks rng cbs (NewReplicator me rf) = Inr r \<and> rp_placement r = Some p \<and> currentPlacement f = Some p
        \<and> p \<in> set ps \<and> (\<forall>q\<in>set ps. pl_Epoch q \<le> pl_Epoch p))"
proof -
  have on: "fsm_onApply (newPlacementFSM True)" by (simp add: newPlacementFSM_def)
  note logs = fsm_run_logs [OF assms(6) on]
  have run: "set cbs \<subseteq> set ps" "\<forall>p\<in>set ps. \<exists>q. fsm_placement f = Some q \<and> pl_Epoch p \<le> pl_Epoch q"
    using proposals_run [OF assms(1) on assms(5)] assms(6) by auto
  then have "fsm_placement f \<noteq> None" using assms(3) by (cases ps) auto
  with logs have cbs: "cbs \<noteq> []" "fsm_placement f = Some (last cbs)" by (auto simp: newPlacementFSM_def split: if_splits)
  have "\<forall>p\<in>set cbs. ring (pl_VNodes p)" using run(1) assms(4) by blast
  from node_callbacks_ring [OF assms(2) this, of "NewReplicator me rf"]
  obtain r where r: "node_callbacks rng cbs (NewReplicator me rf) = Inr r" "rp_placement r = Some (last cbs)"
    using cbs(1) by (auto simp: NewReplicator_def)
  moreover have "last cbs \<in> set ps" using run(1) cbs(1) last_in_set by blast
  moreover have "\<forall>q\<in>set ps. pl_Epoch q \<le> pl_Epoch (last cbs)" using run(2) cbs(2) by auto
  ultimately show ?thesis using logs cbs(2) by (auto simp: currentPlacement_def)
qed

text \<open>A codec for two placements, for the examples.\<close>

definition two_codec :: "Placement \<Rightarrow> Placement \<Rightarrow> json_codec" where
  "two_codec p q =
     (let enc = (\<lambda>x. if x = p then Inr [0] else if x = q then Inr [1] else Inl ''unsupported value'');
          dec = (\<lambda>d. if d = [0] then Inr p else if d = [1] then Inr q else Inl ''unexpected end of JSON input'')
      in \<lparr>marshal_command = \<lambda>c. if rc_Type c = ''install_placement'' then Inr (rc_Payload c) else Inl ''unsupported value'',
          unmarshal_command = \<lambda>d. Inr \<lparr>rc_Type = ''install_placement'', rc_Payload = d\<rparr>,
          marshal_payload = \<lambda>x. enc (ip_Placement x),
          unmarshal_payload = \<lambda>d. map_sum id (\<lambda>x. \<lparr>ip_Placement = x\<rparr>) (dec d),
          encode_snapshot = \<lambda>x. enc (ps_Placement x),
          decode_snapshot = \<lambda>d. map_sum id (\<lambda>x. \<lparr>ps_Placement = x\<rparr>) (dec d)\<rparr>)"

lemma codec_ok_two: "codec_ok (two_codec p q)"
  by (auto simp: codec_ok_def two_codec_def Let_def split: if_splits)

definition uniform2 :: Placement where
  "uniform2 = (uniform ''b'' [''a''])\<lparr>pl_Epoch := 2\<rparr>"

theorem committed_placements_installed_witness:
  "\<exists>r. node_callbacks sorted_list_of_fset
      (fst (fsm_run (two_codec (uniform ''a'' []) uniform2) (map Log [[0], [1], [0]]) (newPlacementFSM True))) (NewReplicator ''a'' 2) = Inr r
    \<and> rp_placement r = Some uniform2"
proof -
  let ?p = "uniform ''a'' []" and ?q = uniform2
  let ?c = "two_codec ?p ?q"
  let ?ps = "[?p, ?q, ?p]"
  have ne: "?p \<noteq> ?q" by (simp add: uniform_def uniform2_def)
  obtain cbs f where run: "fsm_run ?c (map Log [[0], [1], [0]]) (newPlacementFSM True) = (cbs, f)"
    by (cases "fsm_run ?c (map Log [[0], [1], [0]]) (newPlacementFSM True)")
  have sent: "snd (ApplyPlacement ?c (Some (\<lambda>_. None)) (Some ?p)) = Some [0]" "snd (ApplyPlacement ?c (Some (\<lambda>_. None)) (Some ?q)) = Some [1]"
    using ne by (auto simp: ApplyPlacement_def two_codec_def Let_def)
  then have "list_all2 (\<lambda>p d. \<exists>raft. snd (ApplyPlacement ?c raft (Some p)) = Some d) ?ps [[0], [1], [0]]"
    by auto
  moreover have "\<forall>p\<in>set ?ps. ring (pl_VNodes p)" using ring_uniform [of "''b''" "[''a'']"] ring_uniform [of "''a''" "[]"]
    by (simp add: uniform2_def)
  ultimately obtain r p where r: "node_callbacks sorted_list_of_fset cbs (NewReplicator ''a'' 2) = Inr r" "rp_placement r = Some p"
      "p \<in> set ?ps" "\<forall>q\<in>set ?ps. pl_Epoch q \<le> pl_Epoch p"
    using committed_placements_installed [OF codec_ok_two sorted_range.map_range_axioms _ _ _ run, of ?ps "''a''" 2] by auto
  moreover have "\<not> pl_Epoch ?q \<le> pl_Epoch ?p" by (simp add: uniform_def uniform2_def word_le_nat_alt)
  then have "p = ?q" using r(3,4) by auto
  ultimately show ?thesis using run by simp
qed

text \<open>
  C33. A snapshot replaces the log it covers: a node restored from the snapshot another node took after some entries, and given the remaining ones, has
  the same state machine and made the same later callbacks as a node that applied all of them, if a placement was
  installed before the snapshot.
\<close>

theorem snapshot_replaces_log:
  assumes "codec_ok codec" "fsm_onApply f0" "fsm_run codec (map Log pre) (newPlacementFSM True) = (cbs, f)" "cbs \<noteq> []"
    and "Persist codec (FSM_Snapshot f) = Inr dat"
  shows "\<exists>later f'. fsm_run codec (map Log (pre @ post)) (newPlacementFSM True) = (cbs @ later, f')
    \<and> fsm_run codec (InstallSnapshot dat # map Log post) f0 = (last cbs # later, f')"
proof -
  have on: "fsm_onApply (newPlacementFSM True)" by (simp add: newPlacementFSM_def)
  have f: "fsm_onApply f" "fsm_placement f = Some (last cbs)"
    using fsm_run_logs [OF assms(3) on] assms(4) by auto
  have dec: "decode_snapshot codec dat = Inr (FSM_Snapshot f)" using assms(1,5) by (simp add: codec_ok_def Persist_def)
  have "f0\<lparr>fsm_placement := Some (last cbs)\<rparr> = f" using f assms(2) by (cases f; cases f0) simp
  then have "fsm_step codec (InstallSnapshot dat) f0 = (Some (last cbs), f)"
    using f by (simp add: fsm_step_def FSM_Restore_def dec FSM_Snapshot_def call_onApply_def Let_def)
  then show ?thesis by (simp add: fsm_run_append assms(3) split_def Let_def)
qed

theorem snapshot_replaces_log_witness:
  "\<exists>later f'. fsm_run (two_codec (uniform ''a'' []) uniform2) (map Log ([[0]] @ [[1]])) (newPlacementFSM True) = ([uniform ''a'' []] @ later, f')
    \<and> fsm_run (two_codec (uniform ''a'' []) uniform2) (InstallSnapshot [0] # map Log [[1]]) (newPlacementFSM True) = (uniform ''a'' [] # later, f')"
proof -
  let ?c = "two_codec (uniform ''a'' []) uniform2" and ?f = "\<lparr>fsm_placement = Some (uniform ''a'' []), fsm_onApply = True\<rparr>"
  have run: "fsm_run ?c (map Log [[0]]) (newPlacementFSM True) = ([uniform ''a'' []], ?f)"
    by (simp add: fsm_step_def FSM_Apply_def two_codec_def Let_def newPlacementFSM_def call_onApply_def)
  have "Persist ?c (FSM_Snapshot ?f) = Inr [0]" by (simp add: Persist_def FSM_Snapshot_def two_codec_def Let_def)
  moreover have "fsm_onApply (newPlacementFSM True)" by (simp add: newPlacementFSM_def)
  ultimately show ?thesis
    using snapshot_replaces_log [OF codec_ok_two _ run, of "newPlacementFSM True" "[0]" "[[1]]"] by simp
qed

text \<open>
  C34. A snapshot taken before the first placement breaks the node that restores it: the snapshot holds an empty placement instead of none, and the next committed
  ring with a vnode of another primary makes \<^verbatim>\<open>ApplyPlacementFromRaft\<close> index an empty ring and panic.
\<close>

theorem empty_snapshot_panics:
  assumes "codec_ok codec" "Persist codec (FSM_Snapshot (newPlacementFSM True)) = Inr dat"
    and "snd (ApplyPlacement codec raft (Some p)) = Some d"
    and "map_range rng" "ring (pl_VNodes p)" "i < VNodeCount" "vn_Primary (pl_VNodes p ! i) \<noteq> me" "me \<noteq> []" "0 < pl_Epoch p"
  shows "node_callbacks rng (fst (fsm_run codec [InstallSnapshot dat, Log d] (newPlacementFSM True))) (NewReplicator me rf) = Inl IndexPanic"
proof -
  let ?vs = "rng (fmdom (owner_map (pl_VNodes p)))"
  have dec: "decode_snapshot codec dat = Inr (FSM_Snapshot (newPlacementFSM True))" using assms(1,2) by (simp add: codec_ok_def Persist_def)
  have s1: "fsm_step codec (InstallSnapshot dat) (newPlacementFSM True) = (Some zero_placement, \<lparr>fsm_placement = Some zero_placement, fsm_onApply = True\<rparr>)"
    by (simp add: fsm_step_def FSM_Restore_def dec FSM_Snapshot_def call_onApply_def Let_def newPlacementFSM_def)
  have s2: "fst (fsm_run codec [InstallSnapshot dat, Log d] (newPlacementFSM True)) = [zero_placement, p]"
    using assms(9) by (simp add: s1 proposal_applied [OF assms(1,3)] zero_placement_def call_onApply_def not_le)
  have none: "get_str (owner_map []) v = []" for v by (simp add: owner_map_def get_str_def)
  have panic: "classify_all me [] (pl_VNodes p) vs mp = Inl IndexPanic"
    if "v \<in> set vs" "get_str (owner_map (pl_VNodes p)) v \<noteq> me" for v vs mp
    using that
  proof (induction vs arbitrary: mp)
    case (Cons u us)
    have "classify me [] (pl_VNodes p) u mp = Inl IndexPanic \<or> (\<exists>mp'. classify me [] (pl_VNodes p) u mp = Inr mp' \<and> u \<noteq> v)"
      using assms(8) Cons.prems(2) by (auto simp: classify_def none replicas_at_def Let_def)
    then show ?case using Cons by auto
  qed simp
  have "of_nat i \<in> set ?vs" using visited_ids [OF assms(4,5)] assms(6) by auto
  moreover have "get_str (owner_map (pl_VNodes p)) (of_nat i) \<noteq> me" using owner_map_ring(1) [OF assms(5,6)] assms(7) by simp
  ultimately have "classify_all me [] (pl_VNodes p) ?vs empty_plan = Inl IndexPanic" by (rule panic)
  then show ?thesis unfolding s2
    by (simp add: node_callback_def ApplyPlacementFromRaft_def SetPlacement_def NewReplicator_def zero_placement_def)
qed

theorem empty_snapshot_panics_witness:
  "node_callbacks sorted_list_of_fset (fst (fsm_run (two_codec zero_placement (uniform ''b'' [''a''])) [InstallSnapshot [0], Log [1]] (newPlacementFSM True)))
     (NewReplicator ''a'' 2) = Inl IndexPanic"
proof -
  let ?p = "uniform ''b'' [''a'']"
  let ?c = "two_codec zero_placement ?p"
  have ne: "?p \<noteq> zero_placement" by (simp add: uniform_def zero_placement_def)
  have "Persist ?c (FSM_Snapshot (newPlacementFSM True)) = Inr [0]"
    by (simp add: Persist_def FSM_Snapshot_def newPlacementFSM_def two_codec_def Let_def)
  moreover have "snd (ApplyPlacement ?c (Some (\<lambda>_. None)) (Some ?p)) = Some [1]"
    using ne by (simp add: ApplyPlacement_def two_codec_def Let_def)
  moreover have "vn_Primary (pl_VNodes ?p ! 5) \<noteq> ''a''" "0 < pl_Epoch ?p" "5 < VNodeCount"
    by (simp_all add: uniform_def InitializeVNodes_def VNodeCount_def)
  ultimately show ?thesis
    using empty_snapshot_panics [OF codec_ok_two _ _ sorted_range.map_range_axioms ring_uniform] by blast
qed

end
