(* ===== verification/Quorum.thy ===== *)
theory Quorum
  imports Batch_Worker Raft_FSM Rebalance
begin

text \<open>
  Replicating a write: \<^verbatim>\<open>ReplicateToAll\<close> of \<^verbatim>\<open>src/cluster/replication.go\<close>. What the select in
  its waiting loop receives, in order, is an argument.
\<close>

section \<open>Targets\<close>

definition add_target :: "string \<Rightarrow> string \<Rightarrow> string list \<Rightarrow> string list" where
  "add_target me replicaID ts = (if replicaID = [] \<or> replicaID = me \<or> replicaID \<in> set ts then ts else ts @ [replicaID])"

definition resolve_targets :: "(string \<Rightarrow> u64) \<Rightarrow> string \<Rightarrow> Replicator \<Rightarrow> string list" where
  "resolve_targets hash key r =
     (case rp_placement r of
        None \<Rightarrow> []
      | Some pl \<Rightarrow>
          if length (pl_VNodes pl) \<noteq> VNodeCount then []
          else fold (add_target (rp_ID r)) (snd (GetNodesForKey hash pl key)) [])"

text \<open>
  The leader refreshes the placement when it has no targets: \<^verbatim>\<open>UpdatePlacement\<close> commits through raft, which calls back
  before \<^verbatim>\<open>ApplyPlacement\<close> returns.
\<close>

definition leader_refresh ::
  "(u16 fset \<Rightarrow> u16 list) \<Rightarrow> (string \<Rightarrow> u64) \<Rightarrow> bool option \<Rightarrow> (Placement \<Rightarrow> string option) \<Rightarrow> Member list \<Rightarrow> Replicator
   \<Rightarrow> placement_panic + Replicator" where
  "leader_refresh rng hash leader apply_err members r =
     (case UpdatePlacement hash leader apply_err (Some members) r of
        Inl e \<Rightarrow> Inl e
      | Inr (r', None) \<Rightarrow> Inr r'
      | Inr (r', Some pl) \<Rightarrow> node_callback rng pl r')"

section \<open>Waiting for acknowledgements\<close>

datatype quorum_error =
    MemberlistNil | PlacementNotReady | QuorumImpossible nat nat | QuorumNotReached nat nat "worker_error option"

text \<open>
  \<^verbatim>\<open>Result\<close> is the answer of a target, \<^verbatim>\<open>CtxDone\<close> the end of the caller's context. The loop returns
  \<^verbatim>\<open>None\<close> while it has to wait for more.
\<close>

datatype wait_event = Result string "worker_error option" | CtxDone

fun await_quorum :: "nat \<Rightarrow> nat \<Rightarrow> nat \<Rightarrow> worker_error option \<Rightarrow> wait_event list \<Rightarrow> quorum_error option option" where
  "await_quorum required acks 0 firstErr evs = Some (Some (QuorumNotReached acks required firstErr))"
| "await_quorum required acks (Suc remaining) firstErr [] = None"
| "await_quorum required acks (Suc remaining) firstErr (CtxDone # evs) = Some (Some (QuorumNotReached acks required firstErr))"
| "await_quorum required acks (Suc remaining) firstErr (Result target err # evs) =
     (let acks' = (if err = None then Suc acks else acks);
          firstErr' = (if err \<noteq> None \<and> firstErr = None then err else firstErr)
      in if err = None \<and> required \<le> acks' then Some None
         else if acks' + remaining < required then Some (Some (QuorumNotReached acks' required firstErr'))
         else await_quorum required acks' remaining firstErr' evs)"

section \<open>ReplicateToAll\<close>

record quorum_env =
  qe_hash :: "string \<Rightarrow> u64"
  qe_rng :: "u16 fset \<Rightarrow> u16 list"
  qe_members :: "Member list option"
  qe_leader :: "bool option"
  qe_apply_err :: "Placement \<Rightarrow> string option"
  qe_dial_err :: "string \<Rightarrow> string option"
  qe_views :: "Member list list option"
  qe_submit_err :: "string \<Rightarrow> worker_error option"
  qe_waits :: "wait_event list"

text \<open>Submitting to every target; the first error is kept.\<close>

fun submit_all ::
  "quorum_env \<Rightarrow> ReplicationRequest \<Rightarrow> string list \<Rightarrow> worker_error option \<Rightarrow> Replicator \<times> worker_table
   \<Rightarrow> worker_error option \<times> Replicator \<times> worker_table" where
  "submit_all env req [] firstErr st = (firstErr, st)"
| "submit_all env req (t # ts) firstErr st =
     (case submitReplicationTask (qe_dial_err env) (qe_views env) (qe_submit_err env) t (Some req) st of
        (err, st') \<Rightarrow> submit_all env req ts (if firstErr = None then err else firstErr) st')"

definition effectiveRF :: "Replicator \<Rightarrow> Member list \<Rightarrow> nat" where
  "effectiveRF r members = nat (min (max (rp_ReplicationFactor r) 1) (int (length members)))"

definition quorum :: "Replicator \<Rightarrow> Member list \<Rightarrow> nat" where
  "quorum r members = effectiveRF r members div 2 + 1"

definition find_targets ::
  "quorum_env \<Rightarrow> Member list \<Rightarrow> string \<Rightarrow> Replicator \<Rightarrow> placement_panic + string list \<times> Replicator" where
  "find_targets env members key r =
     (let ts = resolve_targets (qe_hash env) key r
      in if ts = [] \<and> qe_leader env = Some True
         then (case leader_refresh (qe_rng env) (qe_hash env) (qe_leader env) (qe_apply_err env) members r of
                 Inl e \<Rightarrow> Inl e
               | Inr r' \<Rightarrow> Inr (resolve_targets (qe_hash env) key r', r'))
         else Inr (ts, r))"

definition ReplicateToAll ::
  "quorum_env \<Rightarrow> Op \<Rightarrow> string \<Rightarrow> bytes \<Rightarrow> u16 \<Rightarrow> u64 \<Rightarrow> Replicator \<times> worker_table
   \<Rightarrow> placement_panic + quorum_error option option \<times> Replicator \<times> worker_table" where
  "ReplicateToAll env op key val vnodeID version st =
     (case qe_members env of
        None \<Rightarrow> Inr (Some (Some MemberlistNil), st)
      | Some members \<Rightarrow>
          if members = [] then Inr (Some None, st)
          else (let required = quorum (fst st) members
                in if required \<le> 1 then Inr (Some None, st)
                   else (case find_targets env members key (fst st) of
                           Inl e \<Rightarrow> Inl e
                         | Inr (targets, r) \<Rightarrow>
                             if targets = [] \<and> 1 < length members then Inr (Some (Some PlacementNotReady), r, snd st)
                             else if targets = [] then Inr (Some None, r, snd st)
                             else if 1 + length targets < required then Inr (Some (Some (QuorumImpossible required (length targets))), r, snd st)
                             else (case submit_all env \<lparr>rr_Op = op, rr_Key = key, rr_Value = val, rr_VnodeId = ucast vnodeID, rr_Version = version\<rparr>
                                          targets None (r, snd st) of
                                     (firstErr, st') \<Rightarrow>
                                       Inr (await_quorum required 1 (length targets) firstErr (qe_waits env), st')))))"

definition ReplicatePut ::
  "quorum_env \<Rightarrow> string \<Rightarrow> bytes \<Rightarrow> Replicator \<times> worker_table \<Rightarrow> placement_panic + quorum_error option option \<times> Replicator \<times> worker_table" where
  "ReplicatePut env key val st = ReplicateToAll env PUT key val (GetVNodeForKey (qe_hash env) (fst st) key) 0 st"

definition ReplicateDelete ::
  "quorum_env \<Rightarrow> string \<Rightarrow> Replicator \<times> worker_table \<Rightarrow> placement_panic + quorum_error option option \<times> Replicator \<times> worker_table" where
  "ReplicateDelete env key st = ReplicateToAll env DELETE key [] (GetVNodeForKey (qe_hash env) (fst st) key) 0 st"

section \<open>Lemmas\<close>

lemma fold_add_target:
  "distinct ts \<Longrightarrow> [] \<notin> set ts \<Longrightarrow> me \<notin> set ts \<Longrightarrow>
     distinct (fold (add_target me) rs ts) \<and> set (fold (add_target me) rs ts) = set ts \<union> (set rs - {[], me})"
proof (induction rs arbitrary: ts)
  case (Cons a rs)
  have "distinct (add_target me a ts)" "[] \<notin> set (add_target me a ts)" "me \<notin> set (add_target me a ts)"
    using Cons.prems by (auto simp: add_target_def)
  note IH = Cons.IH [OF this]
  have "set (add_target me a ts) \<union> (set rs - {[], me}) = set ts \<union> (set (a # rs) - {[], me})"
    by (auto simp: add_target_def)
  with IH show ?case by (simp only: fold_simps)
qed simp

text \<open>The targets of a key are its replicas, each once, without the node itself.\<close>

lemma resolve_targets_replicas:
  assumes "resolve_targets hash key r \<noteq> []"
  shows "\<exists>pl. rp_placement r = Some pl \<and> distinct (resolve_targets hash key r)
    \<and> set (resolve_targets hash key r) = set (snd (GetNodesForKey hash pl key)) - {[], rp_ID r}"
proof -
  obtain pl where pl: "rp_placement r = Some pl" "resolve_targets hash key r = fold (add_target (rp_ID r)) (snd (GetNodesForKey hash pl key)) []"
    using assms by (simp add: resolve_targets_def split: option.splits if_splits)
  then show ?thesis using fold_add_target [of "[]" "rp_ID r" "snd (GetNodesForKey hash pl key)"] by simp
qed

lemma quorum_members: "1 < quorum r ms \<Longrightarrow> ms \<noteq> []"
  by (cases ms) (simp_all add: quorum_def effectiveRF_def)

definition is_ack :: "wait_event \<Rightarrow> bool" where
  "is_ack e = (case e of Result _ err \<Rightarrow> err = None | CtxDone \<Rightarrow> False)"

lemma await_quorum_sound:
  "await_quorum req acks n fe evs = Some None \<Longrightarrow> req \<le> acks + length (filter is_ack evs)"
  by (induction req acks n fe evs rule: await_quorum.induct) (auto simp: is_ack_def Let_def split: if_splits)

lemma await_quorum_complete:
  "acks < req \<Longrightarrow> CtxDone \<notin> set evs \<Longrightarrow> length evs = n \<Longrightarrow>
     \<exists>res. await_quorum req acks n fe evs = Some res \<and> (res = None \<longleftrightarrow> req \<le> acks + length (filter is_ack evs))"
proof (induction req acks n fe evs rule: await_quorum.induct)
  case (4 req acks n fe t err evs)
  let ?a = "if err = None then Suc acks else acks" and ?f = "if err \<noteq> None \<and> fe = None then err else fe"
  have len: "length (filter is_ack evs) \<le> n" using "4.prems"(3) length_filter_le [of is_ack evs] by simp
  have total: "acks + length (filter is_ack (Result t err # evs)) = ?a + length (filter is_ack evs)" by (simp add: is_ack_def)
  consider (reached) "err = None" "req \<le> ?a" | (impossible) "\<not> (err = None \<and> req \<le> ?a)" "?a + n < req"
    | (wait) "\<not> (err = None \<and> req \<le> ?a)" "\<not> ?a + n < req" by blast
  then show ?case
  proof cases
    case wait
    moreover have "?a < req" using wait "4.prems"(1) by auto
    ultimately show ?thesis unfolding total using "4.IH" [of ?a ?f] "4.prems" by (auto simp: Let_def)
  next
    case reached
    then show ?thesis unfolding total by (auto simp: Let_def)
  next
    case impossible
    then show ?thesis unfolding total using len by (auto simp: Let_def)
  qed
qed simp_all

definition wait_target :: "wait_event \<Rightarrow> string list" where
  "wait_target e = (case e of Result t _ \<Rightarrow> [t] | CtxDone \<Rightarrow> [])"

lemma wait_target_simps [simp]: "wait_target (Result t err) = [t]" "wait_target CtxDone = []"
  by (simp_all add: wait_target_def)

text \<open>Each target answers at most once.\<close>

definition answers_of :: "string list \<Rightarrow> wait_event list \<Rightarrow> bool" where
  "answers_of targets evs \<longleftrightarrow> distinct (concat (map wait_target evs)) \<and> set (concat (map wait_target evs)) \<subseteq> set targets"

lemma acked_in_targets: "Result t err \<in> set evs \<Longrightarrow> t \<in> set (concat (map wait_target evs))"
  by (induction evs) auto

lemma acked_targets:
  "distinct (concat (map wait_target evs)) \<Longrightarrow> card {t. Result t None \<in> set evs} = length (filter is_ack evs)"
proof (induction evs)
  case (Cons e evs)
  let ?A = "\<lambda>evs. {t. Result t None \<in> set evs}"
  have "?A evs \<subseteq> set (concat (map wait_target evs))" by (rule subsetI) (simp only: mem_Collect_eq acked_in_targets)
  then have fin: "finite (?A evs)" by (rule finite_subset) simp
  have IH: "card (?A evs) = length (filter is_ack evs)" using Cons by simp
  show ?case
  proof (cases "is_ack e")
    case True
    then obtain t where e: "e = Result t None" by (cases e) (simp_all add: is_ack_def)
    have "t \<notin> ?A evs" using Cons.prems acked_in_targets [of t None evs] by (auto simp: e)
    moreover have "?A (e # evs) = insert t (?A evs)" by (auto simp: e)
    ultimately show ?thesis using fin IH True by simp
  next
    case False
    then have "?A (e # evs) = ?A evs" by (auto simp: is_ack_def)
    then show ?thesis using IH False by simp
  qed
qed simp

lemma ReplicateToAll_waits:
  assumes "qe_members env = Some ms" "1 < quorum (fst st) ms" "find_targets env ms key (fst st) = Inr (targets, r)"
    and "targets \<noteq> []" "quorum (fst st) ms \<le> 1 + length targets"
  shows "\<exists>fe st'. ReplicateToAll env op key val v ver st =
    Inr (await_quorum (quorum (fst st) ms) 1 (length targets) fe (qe_waits env), st')"
proof -
  show ?thesis using assms quorum_members [OF assms(2)] by (simp add: ReplicateToAll_def Let_def split: prod.splits) blast
qed


definition sample_members :: "Member list" where
  "sample_members = [\<lparr>mb_Name = ''a'', mb_Meta = ''a,a:1''\<rparr>, \<lparr>mb_Name = ''b'', mb_Meta = ''b,b:1''\<rparr>, \<lparr>mb_Name = ''c'', mb_Meta = ''c,c:1''\<rparr>]"

definition sample_quorum :: quorum_env where
  "sample_quorum =
     \<lparr>qe_hash = \<lambda>_. 0, qe_rng = sorted_list_of_fset, qe_members = Some sample_members, qe_leader = Some False, qe_apply_err = \<lambda>_. None,
      qe_dial_err = \<lambda>_. None, qe_views = Some [sample_members], qe_submit_err = \<lambda>_. None,
      qe_waits = [Result ''c'' (Some QueueFull), Result ''b'' None]\<rparr>"

definition quorum_node :: Replicator where
  "quorum_node = SetPlacement (Some (uniform ''a'' [''b'', ''c''])) (NewReplicator ''a'' 3)"

lemma quorum_nodes:
  "length (pl_VNodes (uniform ''a'' [''b'', ''c''])) = VNodeCount"
  "GetNodesForKey (qe_hash sample_quorum) (uniform ''a'' [''b'', ''c'']) ''k'' = (''a'', [''b'', ''c''])"
proof -
  show len: "length (pl_VNodes (uniform ''a'' [''b'', ''c''])) = VNodeCount"
    using ring_uniform [of "''a''" "[''b'', ''c'']"] by (simp add: ring_def)
  have "vnode_index (qe_hash sample_quorum) ''k'' < VNodeCount" by (rule vnode_index_less)
  then show "GetNodesForKey (qe_hash sample_quorum) (uniform ''a'' [''b'', ''c'']) ''k'' = (''a'', [''b'', ''c''])"
    by (simp add: GetNodesForKey_def len) (simp add: uniform_def Let_def InitializeVNodes_def)
qed

lemma sample_targets:
  "quorum quorum_node sample_members = 2"
  "find_targets sample_quorum sample_members ''k'' quorum_node = Inr ([''b'', ''c''], quorum_node)"
  "qe_members sample_quorum = Some sample_members" "answers_of [''b'', ''c''] (qe_waits sample_quorum)"
proof -
  show "quorum quorum_node sample_members = 2"
    by (simp add: quorum_def effectiveRF_def quorum_node_def SetPlacement_def NewReplicator_def sample_members_def)
  have "resolve_targets (qe_hash sample_quorum) ''k'' quorum_node = [''b'', ''c'']"
    by (simp add: resolve_targets_def quorum_node_def SetPlacement_def NewReplicator_def quorum_nodes add_target_def)
  then show "find_targets sample_quorum sample_members ''k'' quorum_node = Inr ([''b'', ''c''], quorum_node)"
    by (simp add: find_targets_def Let_def)
  show "qe_members sample_quorum = Some sample_members" by (simp add: sample_quorum_def)
  show "answers_of [''b'', ''c''] (qe_waits sample_quorum)" by (simp add: answers_of_def sample_quorum_def)
qed


end
