(* ===== verification/Reconcile.thy ===== *)
theory Reconcile
  imports Quorum
begin

text \<open>
  Keeping the raft configuration in step with the gossip membership: \<^verbatim>\<open>ReconcileRaftWithMembership\<close> of
  \<^verbatim>\<open>src/cluster/replication.go\<close>. The raft library's answers and the clock are arguments, and the calls
  made to it are returned in order.
\<close>

datatype suffrage = Voter | Nonvoter | Staging

record raft_server =
  srv_ID :: string
  srv_Address :: string
  srv_Suffrage :: suffrage

datatype raft_call = CallAddVoter string string | CallRemoveServer string

record reconcile_env =
  re_leader :: "bool option"
  re_config :: "raft_error + raft_server list"
  re_remove :: "string \<Rightarrow> raft_error option"
  re_now :: int
  re_rng :: "string fset \<Rightarrow> string list"
  re_vnodes :: "u16 fset \<Rightarrow> u16 list"
  re_hash :: "string \<Rightarrow> u64"
  re_apply_err :: "Placement \<Rightarrow> string option"
  re_members :: "Member list"

definition IsLeader :: "bool option \<Rightarrow> bool" where
  "IsLeader leader = (case leader of None \<Rightarrow> True | Some b \<Rightarrow> b)"

definition existing_in_raft :: "raft_server list \<Rightarrow> (string, raft_server) fmap" where
  "existing_in_raft servers = fold (\<lambda>s m. fmupd (srv_ID s) s m) servers fmempty"

section \<open>Members seen in gossip\<close>

fun see_members ::
  "(string, raft_server) fmap \<Rightarrow> Member list \<Rightarrow> string fset \<times> raft_call list \<times> Replicator \<Rightarrow> string fset \<times> raft_call list \<times> Replicator" where
  "see_members existing [] acc = acc"
| "see_members existing (m # ms) (seen, calls, r) =
     (case parseMetaWithRaft (mb_Meta m) of
        Inl _ \<Rightarrow> see_members existing ms (seen, calls, r)
      | Inr (nodeID, rpcAddr, raftAddr) \<Rightarrow>
          if raftAddr = [] then see_members existing ms (seen, calls, r)
          else see_members existing ms
                 (finsert nodeID seen, if fmlookup existing nodeID = None then calls @ [CallAddVoter nodeID raftAddr] else calls,
                  setNodeRPCAddr nodeID rpcAddr r))"

section \<open>Servers missing from gossip\<close>

definition time_Minute :: int where "time_Minute = 60 * time_Second"

definition grace_of :: "Replicator \<Rightarrow> raft_server \<Rightarrow> int" where
  "grace_of r server =
     (if srv_Suffrage server = Nonvoter then 1 * time_Minute
      else if rp_GracePeriod r = 0 then 5 * time_Minute else rp_GracePeriod r)"

text \<open>Forgetting a removed server: its connection and its metrics.\<close>

definition forget_server :: "string \<Rightarrow> Replicator \<Rightarrow> Replicator" where
  "forget_server i r =
     (let r1 = r\<lparr>rp_deadRow := fmdrop i (rp_deadRow r)\<rparr>;
          r2 = (if fmlookup (rp_conns r1) i \<noteq> None
                then r1\<lparr>rp_conns := fmdrop i (rp_conns r1), rp_peers := fmdrop i (rp_peers r1)\<rparr> else r1)
      in r2\<lparr>rp_metricEMA := fmdrop i (rp_metricEMA r2), rp_rttMatrix := fmdrop i (rp_rttMatrix r2)\<rparr>)"

definition check_server ::
  "reconcile_env \<Rightarrow> (string, raft_server) fmap \<Rightarrow> string fset \<Rightarrow> string \<Rightarrow> raft_call list \<times> Replicator \<Rightarrow> raft_call list \<times> Replicator" where
  "check_server env existing seen i acc =
     (case acc of (calls, r) \<Rightarrow>
        if i = rp_ID r then acc
        else if i |\<in>| seen then (calls, r\<lparr>rp_deadRow := fmdrop i (rp_deadRow r)\<rparr>)
        else (case fmlookup (rp_deadRow r) i of
                None \<Rightarrow> (calls, r\<lparr>rp_deadRow := fmupd i (re_now env) (rp_deadRow r)\<rparr>)
              | Some firstSeenMissing \<Rightarrow>
                  (case fmlookup existing i of
                     None \<Rightarrow> acc
                   | Some server \<Rightarrow>
                       if grace_of r server < re_now env - firstSeenMissing
                       then (calls @ [CallRemoveServer i],
                             case RemoveServer (Some (re_remove env)) i of Some _ \<Rightarrow> r | None \<Rightarrow> forget_server i r)
                       else acc)))"

definition ReconcileRaftWithMembership ::
  "reconcile_env \<Rightarrow> Member list \<Rightarrow> Replicator \<Rightarrow> placement_panic + raft_error option \<times> raft_call list \<times> Replicator" where
  "ReconcileRaftWithMembership env members r =
     (if re_leader env \<noteq> Some True then Inr (None, [], r)
      else (case re_config env of
              Inl e \<Rightarrow> Inr (Some e, [], r)
            | Inr servers \<Rightarrow>
                (let existing = existing_in_raft servers;
                     (seen, calls1, r1) = see_members existing members ({||}, [], r);
                     (calls, r2) = fold (check_server env existing seen) (re_rng env (fmdom existing)) (calls1, r1)
                 in (case leader_refresh (re_vnodes env) (re_hash env) (re_leader env) (re_apply_err env) (re_members env) r2 of
                       Inl e \<Rightarrow> Inl e
                     | Inr r3 \<Rightarrow> Inr (None, calls, r3)))))"

section \<open>What is added and removed\<close>

definition gossip_ids :: "Member list \<Rightarrow> string set" where
  "gossip_ids ms = {i. \<exists>m\<in>set ms. \<exists>rpc raft. parseMetaWithRaft (mb_Meta m) = Inr (i, rpc, raft) \<and> raft \<noteq> []}"

definition must_go :: "reconcile_env \<Rightarrow> (string, raft_server) fmap \<Rightarrow> string fset \<Rightarrow> Replicator \<Rightarrow> string \<Rightarrow> bool" where
  "must_go env existing seen r i \<longleftrightarrow> i \<noteq> rp_ID r \<and> i |\<notin>| seen \<and>
     (case (fmlookup existing i, fmlookup (rp_deadRow r) i) of
        (Some s, Some t) \<Rightarrow> grace_of r s < re_now env - t
      | _ \<Rightarrow> False)"

lemma setNodeRPCAddr_keeps [simp]:
  "rp_ID (setNodeRPCAddr n a r) = rp_ID r" "rp_deadRow (setNodeRPCAddr n a r) = rp_deadRow r"
  "rp_GracePeriod (setNodeRPCAddr n a r) = rp_GracePeriod r"
  by (simp_all add: setNodeRPCAddr_def)

lemma gossip_ids_Cons:
  "gossip_ids (m # ms) =
     (case parseMetaWithRaft (mb_Meta m) of Inr (i, rpc, raft) \<Rightarrow> if raft = [] then {} else {i} | Inl _ \<Rightarrow> {}) \<union> gossip_ids ms"
  by (auto simp: gossip_ids_def split: sum.splits if_splits)

lemma see_members_seen: "fset (fst (see_members existing ms (seen, calls, r))) = fset seen \<union> gossip_ids ms"
proof (induction ms arbitrary: seen calls r)
  case (Cons m ms)
  then show ?case by (simp add: gossip_ids_Cons split: sum.splits prod.splits)
qed (simp add: gossip_ids_def)

lemma see_members_keeps:
  "rp_ID (snd (snd (see_members existing ms (seen, calls, r)))) = rp_ID r"
  "rp_deadRow (snd (snd (see_members existing ms (seen, calls, r)))) = rp_deadRow r"
  "rp_GracePeriod (snd (snd (see_members existing ms (seen, calls, r)))) = rp_GracePeriod r"
  by (induction ms arbitrary: seen calls r) (simp_all split: sum.splits prod.splits)

lemma see_members_removes:
  "CallRemoveServer i \<in> set (fst (snd (see_members existing ms (seen, calls, r)))) \<longleftrightarrow> CallRemoveServer i \<in> set calls"
  by (induction ms arbitrary: seen calls r) (simp_all split: sum.splits prod.splits)

lemma see_members_adds:
  "(\<exists>a. CallAddVoter i a \<in> set (fst (snd (see_members existing ms (seen, calls, r))))) \<longleftrightarrow>
     (\<exists>a. CallAddVoter i a \<in> set calls) \<or> i \<in> gossip_ids ms \<and> fmlookup existing i = None"
proof (induction ms arbitrary: seen calls r)
  case (Cons m ms)
  have add: "(\<exists>x. CallAddVoter i x \<in> set (calls @ [CallAddVoter a b])) \<longleftrightarrow> (\<exists>x. CallAddVoter i x \<in> set calls) \<or> i = a" for a b
    by auto
  show ?case
    by (cases "parseMetaWithRaft (mb_Meta m)")
      (simp_all add: gossip_ids_Cons Cons.IH add del: set_append split: prod.splits, auto)
qed (simp add: gossip_ids_def)

lemma check_server_result:
  assumes "check_server env existing seen i (calls, r) = (calls', r')"
  shows "rp_ID r' = rp_ID r \<and> rp_GracePeriod r' = rp_GracePeriod r \<and> (\<forall>j. j \<noteq> i \<longrightarrow> fmlookup (rp_deadRow r') j = fmlookup (rp_deadRow r) j)
    \<and> calls' = calls @ (if must_go env existing seen r i then [CallRemoveServer i] else [])
    \<and> (i \<noteq> rp_ID r \<longrightarrow> (i |\<in>| seen \<longrightarrow> fmlookup (rp_deadRow r') i = None)
         \<and> (i |\<notin>| seen \<and> fmlookup (rp_deadRow r) i = None \<longrightarrow> fmlookup (rp_deadRow r') i = Some (re_now env)))"
  using assms
  by (auto simp: check_server_def must_go_def forget_server_def Let_def split: if_splits option.splits)

lemma check_servers_result:
  assumes "fold (check_server env existing seen) ids (calls, r) = (calls', r')" "distinct ids"
  shows "rp_ID r' = rp_ID r \<and> rp_GracePeriod r' = rp_GracePeriod r \<and> (\<forall>j. j \<notin> set ids \<longrightarrow> fmlookup (rp_deadRow r') j = fmlookup (rp_deadRow r) j)
    \<and> set calls' = set calls \<union> CallRemoveServer ` {i \<in> set ids. must_go env existing seen r i}
    \<and> (\<forall>i\<in>set ids. i \<noteq> rp_ID r \<longrightarrow> (i |\<in>| seen \<longrightarrow> fmlookup (rp_deadRow r') i = None)
         \<and> (i |\<notin>| seen \<and> fmlookup (rp_deadRow r) i = None \<longrightarrow> fmlookup (rp_deadRow r') i = Some (re_now env)))"
  using assms
proof (induction ids arbitrary: calls r)
  case (Cons i ids)
  obtain calls1 r1 where s: "check_server env existing seen i (calls, r) = (calls1, r1)" by (cases "check_server env existing seen i (calls, r)")
  note one = check_server_result [OF s]
  have "fold (check_server env existing seen) ids (calls1, r1) = (calls', r')" "distinct ids" using Cons.prems s by simp_all
  note rest = Cons.IH [OF this]
  have same: "must_go env existing seen r1 j = must_go env existing seen r j" if "j \<in> set ids" for j
  proof -
    have "j \<noteq> i" using that Cons.prems(2) by auto
    then show ?thesis using one by (simp add: must_go_def grace_of_def split: option.splits)
  qed
  have eq: "{j \<in> set ids. must_go env existing seen r1 j} = {j \<in> set ids. must_go env existing seen r j}"
    by (intro Collect_cong conj_cong refl same)
  have split: "CallRemoveServer ` {j \<in> set (i # ids). P j} = set (if P i then [CallRemoveServer i] else []) \<union> CallRemoveServer ` {j \<in> set ids. P j}" for P
    by auto
  have calls: "set calls' = set calls \<union> CallRemoveServer ` {j \<in> set (i # ids). must_go env existing seen r j}"
    using one rest unfolding split eq by (simp add: Un_assoc)
  have i: "i \<notin> set ids" using Cons.prems(2) by simp
  have row_i: "fmlookup (rp_deadRow r') i = fmlookup (rp_deadRow r1) i" using rest i by simp
  have row_j: "fmlookup (rp_deadRow r1) j = fmlookup (rp_deadRow r) j" if "j \<noteq> i" for j using one that by simp
  have ids: "rp_ID r1 = rp_ID r" using one by simp
  have row: "j \<noteq> rp_ID r \<longrightarrow> (j |\<in>| seen \<longrightarrow> fmlookup (rp_deadRow r') j = None)
     \<and> (j |\<notin>| seen \<and> fmlookup (rp_deadRow r) j = None \<longrightarrow> fmlookup (rp_deadRow r') j = Some (re_now env))" if "j \<in> set (i # ids)" for j
  proof (cases "j = i")
    case True
    then show ?thesis using one row_i by simp
  next
    case False
    then show ?thesis using rest that row_j [OF False] ids by simp
  qed
  have "fmlookup (rp_deadRow r') j = fmlookup (rp_deadRow r) j" if "j \<notin> set (i # ids)" for j
    using that rest row_j [of j] by simp
  then show ?case using one rest calls row by simp
qed simp

lemma leader_refresh_keeps: "leader_refresh rng hash leader apply_err ms r = Inr r' \<Longrightarrow> rp_deadRow r' = rp_deadRow r"
  by (auto simp: leader_refresh_def UpdatePlacement_def commit_placement_def node_callback_def ApplyPlacementFromRaft_def SetPlacement_def Let_def
      split: sum.splits option.splits if_splits prod.splits)

text \<open>
  C14. Reconciliation adds and removes the right servers: a leader asks raft to add exactly the members that gossip shows with a raft address and that are
  not configured, and to remove exactly the configured servers, never itself, that gossip does not show and that have been missing for longer
  than their grace period. Configured members that gossip shows leave the death row, missing ones enter it with the current time.
\<close>

theorem reconcile_calls:
  assumes "map_range (re_rng env)" "re_leader env = Some True" "re_config env = Inr servers"
    and "ReconcileRaftWithMembership env ms r = Inr (err, calls, r')"
  shows "err = None
    \<and> (\<forall>i. CallRemoveServer i \<in> set calls \<longleftrightarrow> i \<noteq> rp_ID r \<and> i \<notin> gossip_ids ms
          \<and> (\<exists>s t. fmlookup (existing_in_raft servers) i = Some s \<and> fmlookup (rp_deadRow r) i = Some t \<and> grace_of r s < re_now env - t))
    \<and> (\<forall>i. (\<exists>a. CallAddVoter i a \<in> set calls) \<longleftrightarrow> i \<in> gossip_ids ms \<and> fmlookup (existing_in_raft servers) i = None)
    \<and> (\<forall>i. fmlookup (existing_in_raft servers) i \<noteq> None \<and> i \<noteq> rp_ID r \<longrightarrow>
          (i \<in> gossip_ids ms \<longrightarrow> fmlookup (rp_deadRow r') i = None)
        \<and> (i \<notin> gossip_ids ms \<and> fmlookup (rp_deadRow r) i = None \<longrightarrow> fmlookup (rp_deadRow r') i = Some (re_now env)))"
proof -
  let ?ex = "existing_in_raft servers"
  let ?ids = "re_rng env (fmdom ?ex)"
  obtain seen calls1 r1 where see: "see_members ?ex ms ({||}, [], r) = (seen, calls1, r1)"
    by (cases "see_members ?ex ms ({||}, [], r)")
  obtain calls2 r2 where chk: "fold (check_server env ?ex seen) ?ids (calls1, r1) = (calls2, r2)"
    by (cases "fold (check_server env ?ex seen) ?ids (calls1, r1)")
  have fin: "err = None" "calls = calls2" "rp_deadRow r' = rp_deadRow r2"
    using assms(2-4) see chk leader_refresh_keeps
    by (auto simp: ReconcileRaftWithMembership_def Let_def split: sum.splits)
  have ids: "distinct ?ids" "set ?ids = {i. fmlookup ?ex i \<noteq> None}"
    using map_range.range_set [OF assms(1)] map_range.range_distinct [OF assms(1)] by (auto simp: fmlookup_dom_iff)
  have seen: "i |\<in>| seen \<longleftrightarrow> i \<in> gossip_ids ms" for i
    using see_members_seen [of ?ex ms "{||}" "[]" r] by (simp add: see)
  have r1: "rp_ID r1 = rp_ID r" "rp_deadRow r1 = rp_deadRow r" "rp_GracePeriod r1 = rp_GracePeriod r"
    using see_members_keeps [of ?ex ms "{||}" "[]" r] by (simp_all add: see)
  have c1: "CallRemoveServer i \<notin> set calls1" "(\<exists>a. CallAddVoter i a \<in> set calls1) \<longleftrightarrow> i \<in> gossip_ids ms \<and> fmlookup ?ex i = None" for i
    using see_members_removes [of i ?ex ms "{||}" "[]" r] see_members_adds [of i ?ex ms "{||}" "[]" r] by (simp_all add: see)
  note res = check_servers_result [OF chk ids(1)]
  have calls: "set calls = set calls1 \<union> CallRemoveServer ` {i \<in> set ?ids. must_go env ?ex seen r1 i}" using res fin(2) by simp
  have grace: "grace_of r1 s = grace_of r s" for s by (simp add: grace_of_def r1(3))
  have go: "must_go env ?ex seen r1 i \<longleftrightarrow> i \<noteq> rp_ID r \<and> i \<notin> gossip_ids ms
      \<and> (\<exists>s t. fmlookup ?ex i = Some s \<and> fmlookup (rp_deadRow r) i = Some t \<and> grace_of r s < re_now env - t)" for i
    using grace by (auto simp: must_go_def seen r1(1,2) split: option.splits)
  have rem: "CallRemoveServer i \<in> set calls \<longleftrightarrow> must_go env ?ex seen r1 i" for i
    using c1(1) [of i] go [of i] by (auto simp: calls ids(2))
  have add: "(\<exists>a. CallAddVoter i a \<in> set calls) \<longleftrightarrow> i \<in> gossip_ids ms \<and> fmlookup ?ex i = None" for i
    using c1(2) [of i] by (auto simp: calls)
  have row: "fmlookup ?ex i \<noteq> None \<and> i \<noteq> rp_ID r \<longrightarrow> (i \<in> gossip_ids ms \<longrightarrow> fmlookup (rp_deadRow r') i = None)
        \<and> (i \<notin> gossip_ids ms \<and> fmlookup (rp_deadRow r) i = None \<longrightarrow> fmlookup (rp_deadRow r') i = Some (re_now env))" for i
    using res ids(2) by (simp add: fin(3) seen r1)
  show ?thesis using fin(1) rem add row by (simp add: go)
qed

definition sample_reconcile :: reconcile_env where
  "sample_reconcile =
     \<lparr>re_leader = Some True, re_config = Inr [\<lparr>srv_ID = ''a'', srv_Address = ''a:2'', srv_Suffrage = Voter\<rparr>, \<lparr>srv_ID = ''b'', srv_Address = ''b:2'', srv_Suffrage = Voter\<rparr>],
      re_remove = \<lambda>_. None, re_now = 3 * time_Second, re_rng = sorted_list_of_fset, re_vnodes = sorted_list_of_fset, re_hash = \<lambda>_. 0,
      re_apply_err = \<lambda>_. None, re_members = []\<rparr>"

theorem reconcile_calls_witness:
  "\<exists>calls r'. ReconcileRaftWithMembership sample_reconcile [\<lparr>mb_Name = ''a'', mb_Meta = ''a,a:1,a:2''\<rparr>] ((NewReplicator ''a'' 2)\<lparr>rp_deadRow := fmupd ''b'' 0 fmempty\<rparr>)
      = Inr (None, calls, r') \<and> CallRemoveServer ''b'' \<in> set calls \<and> CallRemoveServer ''a'' \<notin> set calls"
proof -
  let ?r = "(NewReplicator ''a'' 2)\<lparr>rp_deadRow := fmupd ''b'' 0 fmempty\<rparr>" and ?ms = "[\<lparr>mb_Name = ''a'', mb_Meta = ''a,a:1,a:2''\<rparr>]"
  let ?servers = "[\<lparr>srv_ID = ''a'', srv_Address = ''a:2'', srv_Suffrage = Voter\<rparr>, \<lparr>srv_ID = ''b'', srv_Address = ''b:2'', srv_Suffrage = Voter\<rparr>]"
  have parse: "parseMetaWithRaft ''a,a:1,a:2'' = Inr (''a'', ''a:1'', ''a:2'')" by code_simp
  then have g: "gossip_ids ?ms = {''a''}" by (auto simp: gossip_ids_def)
  have "leader_refresh rng hash (Some True) ae [] r = Inr r" for rng hash ae r by (simp add: leader_refresh_def UpdatePlacement_def)
  then have "\<exists>calls r'. ReconcileRaftWithMembership env ms r = Inr (None, calls, r')"
    if "re_leader env = Some True" "re_config env = Inr servers" "re_members env = []" for env servers ms r
    using that by (simp add: ReconcileRaftWithMembership_def Let_def split: prod.splits)
  from this [of sample_reconcile ?servers ?ms ?r]
  obtain calls r' where run: "ReconcileRaftWithMembership sample_reconcile ?ms ?r = Inr (None, calls, r')"
    by (auto simp: sample_reconcile_def)
  have "map_range (re_rng sample_reconcile)" using sorted_range.map_range_axioms by (simp add: sample_reconcile_def)
  note calls = reconcile_calls [OF this _ _ run, of ?servers]
  have "grace_of ?r \<lparr>srv_ID = ''b'', srv_Address = ''b:2'', srv_Suffrage = Voter\<rparr> < re_now sample_reconcile - 0"
    by (simp add: grace_of_def NewReplicator_def sample_reconcile_def time_Second_def)
  then have "CallRemoveServer ''b'' \<in> set calls" "CallRemoveServer ''a'' \<notin> set calls"
    using calls g by (simp_all add: sample_reconcile_def existing_in_raft_def NewReplicator_def)
  with run show ?thesis by blast
qed

end
