(* ===== verification/Membership.thy ===== *)
theory Membership
  imports Reconcile
begin

text \<open>
  The membership goroutines of a node, from \<^verbatim>\<open>src/cluster/membership.go\<close>: gossip events enter a channel, one goroutine turns
  them into reconcile signals, another debounces the signals with a timer and reconciles. The interleaving
  and the firing of the timer are the steps of a state machine.
\<close>

section \<open>Events\<close>

datatype MembershipEventType = MembershipJoin | MembershipLeave | MembershipUpdate

record MembershipEvent =
  me_Type :: MembershipEventType
  me_NodeID :: string
  me_Addr :: string
  me_At :: int

definition events_cap :: nat where "events_cap = 100"

text \<open>The debounce timer: not created, running, fired with its value still in the channel, or expired.\<close>

datatype timer = NoTimer | Running | Fired | Expired

text \<open>\<^verbatim>\<open>cn_dirty\<close> records that gossip reported a change since the last reconcile attempt.\<close>

record control =
  cn_events :: "MembershipEvent list"
  cn_reconcileCh :: bool
  cn_timer :: timer
  cn_debounceC :: bool
  cn_stopped :: bool
  cn_dirty :: bool

definition StartControlChannels :: control where
  "StartControlChannels =
     \<lparr>cn_events = [], cn_reconcileCh = False, cn_timer = NoTimer, cn_debounceC = False, cn_stopped = False, cn_dirty = False\<rparr>"

definition EnqueueMembershipEvent :: "MembershipEvent \<Rightarrow> control \<Rightarrow> control" where
  "EnqueueMembershipEvent ev c = (if length (cn_events c) < events_cap then c\<lparr>cn_events := cn_events c @ [ev]\<rparr> else c)"

definition signalReconcile :: "control \<Rightarrow> control" where
  "signalReconcile c = c\<lparr>cn_reconcileCh := True\<rparr>"

definition Notify :: "MembershipEventType \<Rightarrow> string \<Rightarrow> string \<Rightarrow> int \<Rightarrow> control \<Rightarrow> control" where
  "Notify ty name addr now c =
     (EnqueueMembershipEvent \<lparr>me_Type = ty, me_NodeID = name, me_Addr = addr, me_At = now\<rparr> c)\<lparr>cn_dirty := True\<rparr>"

section \<open>The loops\<close>

text \<open>\<^verbatim>\<open>membershipLoop\<close> receives an event.\<close>

definition membership_step :: "control \<Rightarrow> control option" where
  "membership_step c =
     (case cn_events c of [] \<Rightarrow> None | _ # evs \<Rightarrow> Some (signalReconcile (c\<lparr>cn_events := evs\<rparr>)))"

text \<open>Stopping the timer fails when it fired or expired; then its channel is drained.\<close>

definition resetDebounce :: "control \<Rightarrow> control" where
  "resetDebounce c =
     (if cn_timer c = NoTimer then c\<lparr>cn_timer := Running, cn_debounceC := True\<rparr>
      else (let c1 = (if cn_timer c = Fired then c\<lparr>cn_timer := Expired\<rparr> else c)
            in c1\<lparr>cn_timer := Running, cn_debounceC := True\<rparr>))"

definition reconcile_recv :: "control \<Rightarrow> control option" where
  "reconcile_recv c = (if cn_reconcileCh c then Some (resetDebounce (c\<lparr>cn_reconcileCh := False\<rparr>)) else None)"

definition timer_fires :: "control \<Rightarrow> control option" where
  "timer_fires c = (if cn_timer c = Running then Some (c\<lparr>cn_timer := Fired\<rparr>) else None)"

definition timer_received :: "control \<Rightarrow> control option" where
  "timer_received c =
     (if cn_debounceC c \<and> cn_timer c = Fired
      then Some (c\<lparr>cn_timer := Expired, cn_debounceC := False, cn_dirty := False\<rparr>) else None)"

text \<open>What the reconcile goroutine does when the timer channel delivers; the boolean says whether it reconciled.\<close>

definition debounced ::
  "reconcile_env \<Rightarrow> Member list option \<Rightarrow> bool \<Rightarrow> Replicator \<times> control
   \<Rightarrow> (placement_panic + bool \<times> raft_call list \<times> Replicator \<times> control) option" where
  "debounced env members reconciler rc =
     (case rc of (r, c) \<Rightarrow>
        (case timer_received c of
           None \<Rightarrow> None
         | Some c1 \<Rightarrow>
             Some (case members of
                     None \<Rightarrow> Inr (False, [], r, c1)
                   | Some ms \<Rightarrow>
                       if \<not> reconciler \<or> \<not> IsLeader (re_leader env) then Inr (False, [], r, c1)
                       else (case ReconcileRaftWithMembership env ms r of
                               Inl e \<Rightarrow> Inl e
                             | Inr (_, calls, r') \<Rightarrow> Inr (True, calls, r', c1)))))"

text \<open>The moves of the goroutines and the timer, without the work of the reconciliation.\<close>

datatype control_event = Notified MembershipEventType string string int | EventReceived | SignalReceived | TimerFires | Debounced | StopWorkers

definition control_step :: "control_event \<Rightarrow> control \<Rightarrow> control option" where
  "control_step ev c =
     (if cn_stopped c then None
      else (case ev of
              Notified ty name addr now \<Rightarrow> Some (Notify ty name addr now c)
            | EventReceived \<Rightarrow> membership_step c
            | SignalReceived \<Rightarrow> reconcile_recv c
            | TimerFires \<Rightarrow> timer_fires c
            | Debounced \<Rightarrow> timer_received c
            | StopWorkers \<Rightarrow> Some (c\<lparr>cn_stopped := True\<rparr>)))"

fun control_run :: "control_event list \<Rightarrow> control \<Rightarrow> control option" where
  "control_run [] c = Some c"
| "control_run (ev # evs) c = (case control_step ev c of None \<Rightarrow> None | Some c' \<Rightarrow> control_run evs c')"

interpretation control_machine: step_machine control_step control_run
  by unfold_locales (simp_all split: option.splits)

section \<open>Broadcasts and configuration\<close>

datatype broadcast_error = EmptyBroadcast | NoBroadcastQueue

text \<open>The queue is memberlist's; \<^verbatim>\<open>add\<close> is its \<^verbatim>\<open>QueueBroadcast\<close>.\<close>

definition QueueBroadcastMessage :: "(bytes \<Rightarrow> 'q \<Rightarrow> 'q) \<Rightarrow> bytes \<Rightarrow> 'q option \<Rightarrow> broadcast_error option \<times> 'q option" where
  "QueueBroadcastMessage add msg queue =
     (if msg = [] then (Some EmptyBroadcast, queue)
      else (case queue of
              None \<Rightarrow> (Some NoBroadcastQueue, queue)
            | Some q \<Rightarrow> (None, Some (add msg q))))"

text \<open>\<^verbatim>\<open>None\<close> is a broadcast of another type.\<close>

definition Invalidates :: "bytes \<Rightarrow> bytes option \<Rightarrow> bool" where
  "Invalidates msg other = (case other of None \<Rightarrow> False | Some m \<Rightarrow> msg = m)"

text \<open>The arguments of \<^verbatim>\<open>memberlist.Create\<close> that \<^verbatim>\<open>CreateCluster\<close> chooses.\<close>

record gossip_config =
  gc_Name :: string
  gc_BindAddr :: string
  gc_AdvertiseAddr :: string
  gc_BindPort :: int
  gc_AdvertisePort :: int
  gc_ProbeTimeout :: int
  gc_ProbeInterval :: int
  gc_GossipInterval :: int

definition or_local :: "string \<Rightarrow> string" where
  "or_local addr = (if addr = [] then ''127.0.0.1'' else addr)"

definition CreateCluster_config :: "string \<Rightarrow> string \<Rightarrow> int \<Rightarrow> string \<Rightarrow> gossip_config" where
  "CreateCluster_config nodeID bindAddr bindPort advertiseIP =
     \<lparr>gc_Name = nodeID, gc_BindAddr = or_local bindAddr, gc_AdvertiseAddr = or_local advertiseIP, gc_BindPort = bindPort,
      gc_AdvertisePort = bindPort, gc_ProbeTimeout = 2 * time_Second, gc_ProbeInterval = 2 * time_Second,
      gc_GossipInterval = time_Second div 2\<rparr>"

definition queue_size :: "int option \<Rightarrow> int" where
  "queue_size members = (case members of None \<Rightarrow> 1 | Some n \<Rightarrow> n)"

datatype join_error = JoinNoMemberlist | SeedRequired | JoinFailed string

definition JoinCluster :: "(string list \<Rightarrow> string option) option \<Rightarrow> string \<Rightarrow> join_error option" where
  "JoinCluster ml seedNodeAddr =
     (case ml of
        None \<Rightarrow> Some JoinNoMemberlist
      | Some join \<Rightarrow> if seedNodeAddr = [] then Some SeedRequired else map_option JoinFailed (join [seedNodeAddr]))"

definition LeaveCluster :: "string option option \<Rightarrow> join_error option" where
  "LeaveCluster ml = (case ml of None \<Rightarrow> Some JoinNoMemberlist | Some err \<Rightarrow> map_option JoinFailed err)"

section \<open>No change is lost\<close>

definition control_ok :: "control \<Rightarrow> bool" where
  "control_ok c \<longleftrightarrow>
     (cn_debounceC c \<longleftrightarrow> cn_timer c = Running \<or> cn_timer c = Fired)
   \<and> (cn_dirty c \<longrightarrow> cn_events c \<noteq> [] \<or> cn_reconcileCh c \<or> cn_debounceC c)"

lemma control_ok_step:
  assumes "control_ok c" "control_step ev c = Some c'"
  shows "control_ok c'"
  using assms
  by (cases ev)
    (auto simp: control_step_def control_ok_def Notify_def EnqueueMembershipEvent_def events_cap_def membership_step_def signalReconcile_def
      reconcile_recv_def resetDebounce_def timer_fires_def timer_received_def Let_def split: if_splits list.splits)

text \<open>From a state with something pending the goroutines reach a reconcile attempt by themselves.\<close>

lemma debounce_settles:
  assumes "control_ok c" "\<not> cn_stopped c" "cn_events c \<noteq> [] \<or> cn_reconcileCh c \<or> cn_debounceC c"
  shows "\<exists>evs c'. control_run (evs @ [Debounced]) c = Some c' \<and> set evs \<subseteq> {EventReceived, SignalReceived, TimerFires}"
proof -
  have armed: "\<exists>evs c'. control_run (evs @ [Debounced]) c = Some c' \<and> set evs \<subseteq> {EventReceived, SignalReceived, TimerFires}"
    if c: "control_ok c" "\<not> cn_stopped c" "cn_debounceC c" for c
  proof (cases "cn_timer c = Fired")
    case True
    then show ?thesis using c by (intro exI [of _ "[]"]) (simp add: control_step_def timer_received_def)
  next
    case False
    then have "cn_timer c = Running" using c by (simp add: control_ok_def)
    then show ?thesis using c by (intro exI [of _ "[TimerFires]"]) (simp add: control_step_def timer_received_def timer_fires_def)
  qed
  have signalled: "\<exists>evs c'. control_run (evs @ [Debounced]) c = Some c' \<and> set evs \<subseteq> {EventReceived, SignalReceived, TimerFires}"
    if c: "control_ok c" "\<not> cn_stopped c" "cn_reconcileCh c" for c
  proof -
    obtain c1 where c1: "control_step SignalReceived c = Some c1" "cn_debounceC c1" "\<not> cn_stopped c1"
      using c by (simp add: control_step_def reconcile_recv_def resetDebounce_def Let_def)
    obtain evs c' where "control_run (evs @ [Debounced]) c1 = Some c'" "set evs \<subseteq> {EventReceived, SignalReceived, TimerFires}"
      using armed [OF control_ok_step [OF c(1) c1(1)] c1(3,2)] by blast
    then show ?thesis using c1(1) by (intro exI [of _ "SignalReceived # evs"] exI [of _ c']) simp
  qed
  have received: "\<exists>evs c'. control_run (evs @ [Debounced]) c = Some c' \<and> set evs \<subseteq> {EventReceived, SignalReceived, TimerFires}"
    if c: "control_ok c" "\<not> cn_stopped c" "cn_events c \<noteq> []" for c
  proof -
    obtain c1 where c1: "control_step EventReceived c = Some c1" "cn_reconcileCh c1" "\<not> cn_stopped c1"
      using c by (auto simp: control_step_def membership_step_def signalReconcile_def neq_Nil_conv)
    obtain evs c' where "control_run (evs @ [Debounced]) c1 = Some c'" "set evs \<subseteq> {EventReceived, SignalReceived, TimerFires}"
      using signalled [OF control_ok_step [OF c(1) c1(1)] c1(3,2)] by blast
    then show ?thesis using c1(1) by (intro exI [of _ "EventReceived # evs"] exI [of _ c']) simp
  qed
  show ?thesis using assms(3) armed [OF assms(1,2)] signalled [OF assms(1,2)] received [OF assms(1,2)] by (elim disjE) simp_all
qed

text \<open>
  C36. No membership change is lost, and nothing else triggers a reconciliation: whatever the interleaving, and even when the event channel overflows, as long as the workers run a change that
  gossip reported can always be followed by a reconcile attempt without further events. Once none is pending the goroutines do
  nothing until gossip reports something, so a server put on the death row stays in the configuration until then.
\<close>

theorem reconcile_triggered:
  assumes "control_run evs StartControlChannels = Some c" "\<not> cn_stopped c"
  shows "(cn_dirty c \<longrightarrow> (\<exists>more c'. control_run (more @ [Debounced]) c = Some c' \<and> set more \<subseteq> {EventReceived, SignalReceived, TimerFires}))
    \<and> (cn_events c = [] \<and> \<not> cn_reconcileCh c \<and> \<not> cn_debounceC c \<longrightarrow>
         (\<forall>ev\<in>{EventReceived, SignalReceived, TimerFires, Debounced}. control_step ev c = None))"
proof -
  have "control_ok StartControlChannels" by (simp add: control_ok_def StartControlChannels_def)
  then have ok: "control_ok c"
    by (rule control_machine.run_invariant [where P = control_ok and ok = "\<lambda>_. True", OF assms(1)]) (auto intro: control_ok_step)
  have "cn_dirty c \<Longrightarrow> cn_events c \<noteq> [] \<or> cn_reconcileCh c \<or> cn_debounceC c" using ok by (auto simp: control_ok_def)
  moreover have "cn_events c = [] \<and> \<not> cn_reconcileCh c \<and> \<not> cn_debounceC c \<Longrightarrow>
      (\<forall>ev\<in>{EventReceived, SignalReceived, TimerFires, Debounced}. control_step ev c = None)"
    using ok by (auto simp: control_step_def membership_step_def reconcile_recv_def timer_fires_def timer_received_def control_ok_def)
  ultimately show ?thesis using debounce_settles [OF ok assms(2)] by blast
qed

theorem reconcile_triggered_witness:
  "\<exists>c. control_run [Notified MembershipLeave ''b'' ''b:1'' 0, EventReceived] StartControlChannels = Some c \<and> cn_dirty c
     \<and> (\<exists>more c'. control_run (more @ [Debounced]) c = Some c' \<and> set more \<subseteq> {EventReceived, SignalReceived, TimerFires})"
proof -
  let ?evs = "[Notified MembershipLeave ''b'' ''b:1'' 0, EventReceived]"
  let ?c = "StartControlChannels\<lparr>cn_reconcileCh := True, cn_dirty := True\<rparr>"
  have run: "control_run ?evs StartControlChannels = Some ?c"
    by (simp add: control_step_def StartControlChannels_def Notify_def EnqueueMembershipEvent_def events_cap_def membership_step_def signalReconcile_def)
  have "\<not> cn_stopped ?c" "cn_dirty ?c" by (simp_all add: StartControlChannels_def)
  with reconcile_triggered [OF run] run show ?thesis by blast
qed

end
