(* ===== verification/Node_Wiring.thy ===== *)
theory Node_Wiring
  imports Membership Cluster_State Transport
begin

text \<open>
  The callbacks and switches that \<^verbatim>\<open>main\<close> installs: the function-valued fields of the replicator (\<^verbatim>\<open>src/cluster/replication.go\<close>), of the gossip
  node (\<^verbatim>\<open>src/cluster/membership.go\<close>) and of the server (\<^verbatim>\<open>src/core/rpc.go\<close>) with their setters and getters, and the small accessors of
  \<^verbatim>\<open>src/cluster/raft.go\<close> and \<^verbatim>\<open>src/cluster/metrics.go\<close>.
\<close>

section \<open>Replicator\<close>

record replicator_hooks =
  rh_Rf :: "RaftNode option"
  rh_verbose :: bool
  rh_transferApplyFn :: "(Command \<Rightarrow> Server \<Rightarrow> resp_error option \<times> Server) option"
  rh_transferDropFn :: "(u16 \<Rightarrow> Server \<Rightarrow> resp_error option \<times> Server) option"
  rh_collector :: "MetricsCollector option"
  rh_gossipFn :: "(bytes \<Rightarrow> broadcast_error option) option"
  rh_transportCreds :: credentials
  rh_stopped :: bool

definition new_hooks :: replicator_hooks where
  "new_hooks = \<lparr>rh_Rf = None, rh_verbose = False, rh_transferApplyFn = None, rh_transferDropFn = None, rh_collector = None, rh_gossipFn = None,
     rh_transportCreds = Insecure, rh_stopped = False\<rparr>"

definition SetRaft :: "RaftNode \<Rightarrow> replicator_hooks \<Rightarrow> replicator_hooks" where
  "SetRaft rfNode h = h\<lparr>rh_Rf := Some rfNode\<rparr>"

definition SetVerbose :: "bool \<Rightarrow> replicator_hooks \<Rightarrow> replicator_hooks" where
  "SetVerbose enabled h = h\<lparr>rh_verbose := enabled\<rparr>"

definition SetTransferApplier :: "(Command \<Rightarrow> Server \<Rightarrow> resp_error option \<times> Server) \<Rightarrow> replicator_hooks \<Rightarrow> replicator_hooks" where
  "SetTransferApplier fn h = h\<lparr>rh_transferApplyFn := Some fn\<rparr>"

definition getTransferApplier :: "replicator_hooks \<Rightarrow> (Command \<Rightarrow> Server \<Rightarrow> resp_error option \<times> Server) option" where
  "getTransferApplier h = rh_transferApplyFn h"

definition SetTransferDropper :: "(u16 \<Rightarrow> Server \<Rightarrow> resp_error option \<times> Server) \<Rightarrow> replicator_hooks \<Rightarrow> replicator_hooks" where
  "SetTransferDropper fn h = h\<lparr>rh_transferDropFn := Some fn\<rparr>"

definition getTransferDropper :: "replicator_hooks \<Rightarrow> (u16 \<Rightarrow> Server \<Rightarrow> resp_error option \<times> Server) option" where
  "getTransferDropper h = rh_transferDropFn h"

definition SetMetricsCollector :: "MetricsCollector \<Rightarrow> replicator_hooks \<Rightarrow> replicator_hooks" where
  "SetMetricsCollector c h = h\<lparr>rh_collector := Some c\<rparr>"

definition SetGossipBroadcaster :: "(bytes \<Rightarrow> broadcast_error option) \<Rightarrow> replicator_hooks \<Rightarrow> replicator_hooks" where
  "SetGossipBroadcaster fn h = h\<lparr>rh_gossipFn := Some fn\<rparr>"

definition dialCreds :: "replicator_hooks \<Rightarrow> credentials" where
  "dialCreds h = rh_transportCreds h"

text \<open>Closing the channel a second time would panic.\<close>

definition StopMetricsReporter :: "replicator_hooks \<Rightarrow> replicator_hooks" where
  "StopMetricsReporter h = (if rh_stopped h then h else h\<lparr>rh_stopped := True\<rparr>)"

lemmas hook_defs = new_hooks_def SetRaft_def SetVerbose_def SetTransferApplier_def getTransferApplier_def SetTransferDropper_def
  getTransferDropper_def SetMetricsCollector_def SetGossipBroadcaster_def dialCreds_def StopMetricsReporter_def

section \<open>Gossip node\<close>

text \<open>
  Before \<^verbatim>\<open>StartMembershipWorkers\<close> the channels of a node are nil, and a send that does not wait is dropped; \<^verbatim>\<open>None\<close> stands for that.
\<close>

definition node_notify :: "MembershipEventType \<Rightarrow> string \<Rightarrow> string \<Rightarrow> int \<Rightarrow> control option \<Rightarrow> control option" where
  "node_notify ty name addr now ctl = map_option (Notify ty name addr now) ctl"

definition StartMembershipWorkers :: "control option \<Rightarrow> control" where
  "StartMembershipWorkers ctl = (case ctl of None \<Rightarrow> StartControlChannels | Some c \<Rightarrow> c)"

text \<open>The delegate of memberlist; \<^verbatim>\<open>pending\<close> are the broadcasts memberlist's queue gives out.\<close>

definition GetBroadcasts :: "(int \<Rightarrow> int \<Rightarrow> bytes list) option \<Rightarrow> int \<Rightarrow> int \<Rightarrow> bytes list" where
  "GetBroadcasts pending overhead limit = (case pending of None \<Rightarrow> [] | Some q \<Rightarrow> q overhead limit)"

definition LocalState :: "bool \<Rightarrow> bytes" where
  "LocalState join = []"

section \<open>Server\<close>

record server_switches =
  sw_rpcVerbose :: bool
  sw_tlsCertFile :: string
  sw_tlsKeyFile :: string

definition SetRPCVerbose :: "bool \<Rightarrow> server_switches \<Rightarrow> server_switches" where
  "SetRPCVerbose enabled sw = sw\<lparr>sw_rpcVerbose := enabled\<rparr>"

definition SetTLS :: "string \<Rightarrow> string \<Rightarrow> server_switches \<Rightarrow> server_switches" where
  "SetTLS certFile keyFile sw = sw\<lparr>sw_tlsCertFile := certFile, sw_tlsKeyFile := keyFile\<rparr>"

definition GetClusterState :: "Replicator option \<Rightarrow> ClusterState" where
  "GetClusterState replicator =
     (case replicator of None \<Rightarrow> \<lparr>cs_Epoch = 0, cs_Vnodes = [], cs_Nodes = []\<rparr> | Some r \<Rightarrow> SnapshotClusterState r)"

section \<open>Raft node and collector\<close>

text \<open>The raft library's state and leader, if there is a raft instance.\<close>

definition raft_IsLeader :: "bool option \<Rightarrow> bool" where
  "raft_IsLeader leader = (leader = Some True)"

definition LeaderAddr :: "string option \<Rightarrow> string" where
  "LeaderAddr leader = (case leader of None \<Rightarrow> [] | Some a \<Rightarrow> a)"

definition SnapshotRTT :: "MetricsCollector \<Rightarrow> (string, f64) fmap" where
  "SnapshotRTT mc = mc_lastRTT mc"

section \<open>Events before the workers start\<close>

text \<open>
  Whatever is reported before the workers start leaves no trace: they start without anything to do, and no goroutine moves until the next event.
\<close>

lemma early_events_lost:
  "StartMembershipWorkers (fold (\<lambda>(ty, name, addr, now). node_notify ty name addr now) evs None) = StartControlChannels"
proof -
  have "fold (\<lambda>(ty, name, addr, now). node_notify ty name addr now) evs None = None"
    by (induction evs) (simp_all add: node_notify_def split: prod.splits)
  then show ?thesis by (simp add: StartMembershipWorkers_def)
qed

lemma fresh_workers_idle: "ev \<in> {EventReceived, SignalReceived, TimerFires, Debounced} \<Longrightarrow> control_step ev StartControlChannels = None"
  by (auto simp: control_step_def StartControlChannels_def membership_step_def reconcile_recv_def timer_fires_def timer_received_def)

end
