(* ===== verification/Server_Main.thy ===== *)
theory Server_Main
  imports Node_Wiring
begin

text \<open>
  Starting a node: the flags and the start sequence of \<^verbatim>\<open>src/cmd/server/main.go\<close>, and \<^verbatim>\<open>Server.Start\<close> of \<^verbatim>\<open>src/core/rpc.go\<close>. What the file system and the libraries answer
  is an argument. The goroutines that are started on the way are the machines of the other theories; here is what the main
  goroutine itself does. Ports are far from the ends of \<^verbatim>\<open>int\<close>.
\<close>

section \<open>Paths\<close>

text \<open>\<^verbatim>\<open>filepath.Join\<close> and \<^verbatim>\<open>filepath.Clean\<close> on Unix: the elements on the stack are kept in reverse.\<close>

fun split_slash :: "string \<Rightarrow> string list" where
  "split_slash [] = [[]]"
| "split_slash (c # cs) =
     (if c = CHR ''/'' then [] # split_slash cs
      else (case split_slash cs of [] \<Rightarrow> [[c]] | w # ws \<Rightarrow> (c # w) # ws))"

definition clean_step :: "bool \<Rightarrow> string \<Rightarrow> string list \<Rightarrow> string list" where
  "clean_step rooted w out =
     (if w = [] \<or> w = ''.'' then out
      else if w = ''..''
      then (case out of
              [] \<Rightarrow> if rooted then [] else [''..'']
            | w1 # rest \<Rightarrow> if w1 = ''..'' then ''..'' # out else rest)
      else w # out)"

definition filepath_Clean :: "string \<Rightarrow> string" where
  "filepath_Clean path =
     (if path = [] then ''.''
      else (let rooted = (hd path = CHR ''/'');
                s = join_with ''/'' (rev (fold (clean_step rooted) (split_slash path) []))
            in if rooted then CHR ''/'' # s else if s = [] then ''.'' else s))"

definition filepath_Join :: "string list \<Rightarrow> string" where
  "filepath_Join elems =
     (case dropWhile (\<lambda>e. e = []) elems of [] \<Rightarrow> [] | es \<Rightarrow> filepath_Clean (join_with ''/'' es))"

section \<open>Serving\<close>

datatype start_error = ListenFailed string | CertOrKeyMissing | LoadKeyPair string

text \<open>
  \<^verbatim>\<open>Server.Start\<close> up to \<^verbatim>\<open>Serve\<close>: \<^verbatim>\<open>listen_err\<close> and \<^verbatim>\<open>load_err\<close> are the answers of \<^verbatim>\<open>net.Listen\<close> and
  \<^verbatim>\<open>NewServerTLSFromFile\<close>; the result says whether the server uses TLS.
\<close>

definition Server_Start ::
  "(int \<Rightarrow> string option) \<Rightarrow> (string \<Rightarrow> string \<Rightarrow> string option) \<Rightarrow> string \<Rightarrow> string \<Rightarrow> int \<Rightarrow> start_error + bool" where
  "Server_Start listen_err load_err certFile keyFile port =
     (case listen_err port of
        Some e \<Rightarrow> Inl (ListenFailed e)
      | None \<Rightarrow>
          if certFile \<noteq> [] \<or> keyFile \<noteq> []
          then (if certFile = [] \<or> keyFile = [] then Inl CertOrKeyMissing
                else (case load_err certFile keyFile of Some e \<Rightarrow> Inl (LoadKeyPair e) | None \<Rightarrow> Inr True))
          else Inr False)"

section \<open>Flags\<close>

text \<open>\<^verbatim>\<open>metrics-bind-addr\<close> only matters for the export of metrics.\<close>

record server_flags =
  sf_rpcPort :: int
  sf_rpcHost :: string
  sf_raftPort :: int
  sf_raftBindAddr :: string
  sf_raftAdvertiseIP :: string
  sf_ack :: int
  sf_batchSize :: int
  sf_gossipBindAddr :: string
  sf_gossipPort :: int
  sf_gossipAdvertiseIP :: string
  sf_seedGossipAddr :: string
  sf_bandwidthMbps :: int
  sf_diskPath :: string
  sf_metricsInterval :: int
  sf_walDir :: string
  sf_replicationFactor :: int
  sf_rpcVerbose :: bool
  sf_metricsPort :: int
  sf_tlsEnable :: bool
  sf_tlsCertFile :: string
  sf_tlsKeyFile :: string
  sf_tlsCACertFile :: string
  sf_tlsServerName :: string
  sf_tlsInsecureSkipVerify :: bool

definition default_flags :: server_flags where
  "default_flags =
     \<lparr>sf_rpcPort = 9999, sf_rpcHost = ''127.0.0.1'', sf_raftPort = 0, sf_raftBindAddr = ''0.0.0.0'', sf_raftAdvertiseIP = [],
      sf_ack = 1, sf_batchSize = 512, sf_gossipBindAddr = ''0.0.0.0'', sf_gossipPort = 0, sf_gossipAdvertiseIP = ''127.0.0.1'',
      sf_seedGossipAddr = ''127.0.0.1:7946'', sf_bandwidthMbps = 50, sf_diskPath = ''/'', sf_metricsInterval = 10 * time_Second,
      sf_walDir = [], sf_replicationFactor = 3, sf_rpcVerbose = False, sf_metricsPort = 0, sf_tlsEnable = False, sf_tlsCertFile = [], sf_tlsKeyFile = [],
      sf_tlsCACertFile = [], sf_tlsServerName = [], sf_tlsInsecureSkipVerify = False\<rparr>"

definition host_port :: "string \<Rightarrow> int \<Rightarrow> string" where
  "host_port host p = host @ '':'' @ dec_int p"

definition node_name :: "int \<Rightarrow> string" where
  "node_name rpc_port = ''node-'' @ dec_int rpc_port"

record server_plan =
  pn_nodeID :: string
  pn_rpcAddr :: string
  pn_raftAddr :: string
  pn_raftBind :: string
  pn_dataDir :: string
  pn_walPath :: string
  pn_raftDataDir :: string
  pn_metricsPort :: int
  pn_gossipPort :: int
  pn_seed :: bool

text \<open>\<^verbatim>\<open>config_dir\<close> is the answer of \<^verbatim>\<open>os.UserConfigDir\<close>, \<^verbatim>\<open>None\<close> an error.\<close>

definition resolve_flags :: "string option \<Rightarrow> server_flags \<Rightarrow> server_plan" where
  "resolve_flags config_dir fs =
     (let raftAdvertiseIP = (if sf_raftAdvertiseIP fs = [] then sf_rpcHost fs else sf_raftAdvertiseIP fs);
          resolvedWalDir = (if sf_walDir fs = [] then filepath_Join [''kvst'', node_name (sf_rpcPort fs)] else sf_walDir fs);
          baseDir = (case config_dir of None \<Rightarrow> ''.'' | Some d \<Rightarrow> d);
          resolvedRaftPort = (if sf_raftPort fs = 0 then sf_rpcPort fs + 1000 else sf_raftPort fs)
      in \<lparr>pn_nodeID = node_name (sf_rpcPort fs),
          pn_rpcAddr = host_port (sf_rpcHost fs) (sf_rpcPort fs),
          pn_raftAddr = host_port raftAdvertiseIP resolvedRaftPort,
          pn_raftBind = host_port (sf_raftBindAddr fs) resolvedRaftPort,
          pn_dataDir = filepath_Join [baseDir, resolvedWalDir],
          pn_walPath = filepath_Join [baseDir, resolvedWalDir, ''ops.wal''],
          pn_raftDataDir = filepath_Join [baseDir, resolvedWalDir, ''raft''],
          pn_metricsPort = (if sf_metricsPort fs = 0 then sf_rpcPort fs + 2000 else sf_metricsPort fs),
          pn_gossipPort = (if sf_gossipPort fs = 0 \<and> sf_rpcPort fs = 9999 then 7946 else sf_gossipPort fs),
          pn_seed = (sf_rpcPort fs = 9999)\<rparr>)"

definition DetectDiskPath :: "string \<Rightarrow> string" where
  "DetectDiskPath path = (if path = [] then ''/'' else if hd path = CHR ''/'' then path else ''/'')"

section \<open>The start sequence\<close>

text \<open>The log file as \<^verbatim>\<open>os.Stat\<close> and \<^verbatim>\<open>os.Open\<close> find it.\<close>

datatype wal_file = NoFile | Unreadable string | Contents bytes

datatype replay_failure = OpenFailed string | ReplayFailed wal_error

definition recover_store :: "nat \<Rightarrow> wal_file \<Rightarrow> replay_failure + Store" where
  "recover_store maxAlloc f =
     (case f of
        NoFile \<Rightarrow> Inr NewStore
      | Unreadable e \<Rightarrow> Inl (OpenFailed e)
      | Contents img \<Rightarrow>
          (case ReplayWal maxAlloc Apply img NewStore of (Some e, _) \<Rightarrow> Inl (ReplayFailed e) | (None, s) \<Rightarrow> Inr s))"

fun file_bytes :: "wal_file \<Rightarrow> bytes" where
  "file_bytes (Contents img) = img"
| "file_bytes _ = []"

text \<open>The ways in which \<^verbatim>\<open>main\<close> ends before it serves, in the order of the code.\<close>

datatype boot_failure =
    MkdirPanic string | ReplayPanic replay_failure | WalPanic string | CertKeyFatal | ClusterPanic string
  | ClientTLSFatal tls_error | RaftPanic setup_error | JoinPanic join_error | UpdatePanic placement_panic | ServePanic start_error

record boot_env =
  be_config_dir :: "string option"
  be_mkdir :: "string \<Rightarrow> string option"
  be_file :: "string \<Rightarrow> wal_file"
  be_maxAlloc :: nat
  be_newWal :: "string \<Rightarrow> string option"
  be_create :: "gossip_config \<Rightarrow> string option"
  be_read_file :: "string \<Rightarrow> string + bytes"
  be_has_certs :: "bytes \<Rightarrow> bool"
  be_raft :: raft_setup
  be_cpus :: "int option"
  be_mem :: "u64 option"
  be_disk :: "string \<Rightarrow> u64 option"
  be_join :: "string list \<Rightarrow> string option"
  be_rng :: "u16 fset \<Rightarrow> u16 list"
  be_hash :: "string \<Rightarrow> u64"
  be_leader :: bool
  be_apply_err :: "Placement \<Rightarrow> string option"
  be_members :: "Member list"
  be_listen :: "int \<Rightarrow> string option"
  be_load :: "string \<Rightarrow> string \<Rightarrow> string option"
  be_loop :: loop_env
  be_clock :: "string \<Rightarrow> u64"
  be_keys :: "string fset \<Rightarrow> string list"
  be_queue :: "bytes \<Rightarrow> broadcast_error option"

record booted =
  bt_loop :: EventLoop
  bt_ackMode :: AckMode
  bt_gossip :: gossip_config
  bt_replicator :: Replicator
  bt_hooks :: replicator_hooks
  bt_switches :: server_switches
  bt_control :: control
  bt_tls :: bool

text \<open>Go on unless there was an error.\<close>

definition unless :: "('e \<Rightarrow> 'f) \<Rightarrow> 'e option \<Rightarrow> 'f + 'a \<Rightarrow> 'f + 'a" where
  "unless bad err k = (case err of Some e \<Rightarrow> Inl (bad e) | None \<Rightarrow> k)"

definition needs :: "('e \<Rightarrow> 'f) \<Rightarrow> 'e + 'x \<Rightarrow> ('x \<Rightarrow> 'f + 'a) \<Rightarrow> 'f + 'a" where
  "needs bad res k = (case res of Inl e \<Rightarrow> Inl (bad e) | Inr x \<Rightarrow> k x)"

lemma unless_Inr [simp]: "unless bad err k = Inr y \<longleftrightarrow> err = None \<and> k = Inr y"
  by (simp add: unless_def split: option.splits)

lemma needs_Inr [simp]: "needs bad res k = Inr y \<longleftrightarrow> (\<exists>x. res = Inr x \<and> k x = Inr y)"
  by (simp add: needs_def split: sum.splits)

definition tls_config :: "server_flags \<Rightarrow> ClientTLSConfig" where
  "tls_config fs =
     \<lparr>tc_Enabled = sf_tlsEnable fs, tc_CACertFile = sf_tlsCACertFile fs, tc_ServerName = sf_tlsServerName fs,
      tc_InsecureSkipVerify = sf_tlsInsecureSkipVerify fs\<rparr>"

text \<open>The callbacks that are installed before the raft node is created, which may call them at once, and those that come after it.\<close>

definition hooks_before_raft :: "boot_env \<Rightarrow> server_flags \<Rightarrow> credentials \<Rightarrow> replicator_hooks" where
  "hooks_before_raft be fs creds =
     SetTransferDropper (transfer_dropper (be_keys be) (be_loop be) (be_clock be))
       (SetTransferApplier (transfer_applier (be_loop be)) (SetVerbose (sf_rpcVerbose fs) (new_hooks\<lparr>rh_transportCreds := creds\<rparr>)))"

definition hooks_after_raft :: "boot_env \<Rightarrow> server_flags \<Rightarrow> string \<Rightarrow> RaftNode \<Rightarrow> replicator_hooks \<Rightarrow> replicator_hooks" where
  "hooks_after_raft be fs nodeID rn h =
     SetGossipBroadcaster (be_queue be)
       (SetMetricsCollector (NewMetricsCollector (be_cpus be) (be_mem be) (be_disk be) nodeID (sf_bandwidthMbps fs) (DetectDiskPath (sf_diskPath fs)))
         (SetRaft rn h))"

definition switches :: "server_flags \<Rightarrow> server_switches" where
  "switches fs =
     (let sw = SetRPCVerbose (sf_rpcVerbose fs) \<lparr>sw_rpcVerbose = False, sw_tlsCertFile = [], sw_tlsKeyFile = []\<rparr>
      in if sf_tlsEnable fs then SetTLS (sf_tlsCertFile fs) (sf_tlsKeyFile fs) sw else sw)"

text \<open>From \<^verbatim>\<open>CreateCluster\<close> on, with the event loop running.\<close>

definition start_cluster :: "boot_env \<Rightarrow> server_flags \<Rightarrow> server_plan \<Rightarrow> EventLoop \<Rightarrow> boot_failure + booted" where
  "start_cluster be fs pn el =
     (let gc = CreateCluster_config (pn_nodeID pn) (sf_gossipBindAddr fs) (pn_gossipPort pn) (sf_gossipAdvertiseIP fs);
          (tls_err, creds) = ConfigureClientTLS (be_read_file be) (be_has_certs be) (tls_config fs) Insecure
      in unless ClusterPanic (be_create be gc)
         (unless ClientTLSFatal tls_err
         (needs RaftPanic (NewRaftNode (be_raft be) (pn_nodeID pn) (pn_raftBind pn) (pn_raftAddr pn) (pn_raftDataDir pn) (pn_seed pn) True) (\<lambda>rn.
          unless JoinPanic (if pn_seed pn then None else JoinCluster (Some (be_join be)) (sf_seedGossipAddr fs))
         (needs UpdatePanic (leader_refresh (be_rng be) (be_hash be) (Some (be_leader be)) (be_apply_err be) (be_members be)
                               (NewReplicator (pn_nodeID pn) (sf_replicationFactor fs))) (\<lambda>r.
          needs ServePanic (Server_Start (be_listen be) (be_load be) (sw_tlsCertFile (switches fs)) (sw_tlsKeyFile (switches fs)) (sf_rpcPort fs)) (\<lambda>tls.
          Inr \<lparr>bt_loop = el, bt_ackMode = word_of_int (sf_ack fs), bt_gossip = gc, bt_replicator = r,
               bt_hooks = hooks_after_raft be fs (pn_nodeID pn) rn (hooks_before_raft be fs creds), bt_switches = switches fs,
               bt_control = StartMembershipWorkers None, bt_tls = tls\<rparr>)))))))"

definition writerBufferSize :: nat where "writerBufferSize = 72 * 1024"

definition start_server :: "boot_env \<Rightarrow> server_flags \<Rightarrow> boot_failure + booted" where
  "start_server be fs =
     (let pn = resolve_flags (be_config_dir be) fs;
          f = be_file be (pn_walPath pn)
      in unless MkdirPanic (be_mkdir be (pn_dataDir pn))
         (needs ReplayPanic (recover_store (be_maxAlloc be) f) (\<lambda>store.
          unless WalPanic (be_newWal be (pn_walPath pn))
         (if sf_tlsEnable fs \<and> (sf_tlsCertFile fs = [] \<or> sf_tlsKeyFile fs = []) then Inl CertKeyFatal
          else start_cluster be fs pn (el_start store (file_bytes f) writerBufferSize (sf_batchSize fs))))))"

section \<open>What a start recovers\<close>

text \<open>Nothing is known of the cluster at the first placement update, which therefore changes nothing and does not panic.\<close>

lemma initial_update: "leader_refresh rng hash (Some l) apply_err ms (NewReplicator nid rf) = Inr (NewReplicator nid rf)"
  by (simp add: leader_refresh_def UpdatePlacement_def active_metrics_def NewReplicator_def Let_def)

lemma start_server_Inr:
  assumes "start_server be fs = Inr b"
  defines "f \<equiv> be_file be (pn_walPath (resolve_flags (be_config_dir be) fs))"
  shows "\<exists>store. recover_store (be_maxAlloc be) f = Inr store
      \<and> bt_loop b = el_start store (file_bytes f) writerBufferSize (sf_batchSize fs)"
    and "bt_replicator b = NewReplicator (node_name (sf_rpcPort fs)) (sf_replicationFactor fs)"
    and "bt_tls b \<longleftrightarrow> sf_tlsEnable fs"
    and "dialCreds (bt_hooks b) = Insecure \<longleftrightarrow> \<not> sf_tlsEnable fs"
proof -
  note start = assms(1) [unfolded start_server_def start_cluster_def Let_def case_prod_beta]
  show "\<exists>store. recover_store (be_maxAlloc be) f = Inr store
      \<and> bt_loop b = el_start store (file_bytes f) writerBufferSize (sf_batchSize fs)"
    using start by (auto simp: f_def split: if_splits)
  show "bt_replicator b = NewReplicator (node_name (sf_rpcPort fs)) (sf_replicationFactor fs)"
    using start by (auto simp: initial_update resolve_flags_def Let_def split: if_splits)
  show "bt_tls b \<longleftrightarrow> sf_tlsEnable fs"
    using start by (auto simp: Server_Start_def switches_def SetTLS_def SetRPCVerbose_def Let_def split: if_splits option.splits)
  show "dialCreds (bt_hooks b) = Insecure \<longleftrightarrow> \<not> sf_tlsEnable fs"
    using start by (auto simp: hooks_before_raft_def hooks_after_raft_def hook_defs ConfigureClientTLS_def BuildClientTransportCredentials_def tls_config_def split: if_splits sum.splits)
qed

text \<open>
  Migrations can apply and drop from the first committed placement on: the callbacks are there before the raft node, and a started node has them all.
\<close>

lemma transfers_before_raft:
  "getTransferApplier (hooks_before_raft be fs creds) = Some (transfer_applier (be_loop be))"
  "getTransferDropper (hooks_before_raft be fs creds) = Some (transfer_dropper (be_keys be) (be_loop be) (be_clock be))"
  by (simp_all add: hooks_before_raft_def hook_defs)

lemma start_wired:
  assumes "start_server be fs = Inr b"
  shows "getTransferApplier (bt_hooks b) = Some (transfer_applier (be_loop be)) \<and> rh_Rf (bt_hooks b) \<noteq> None
    \<and> rh_collector (bt_hooks b) \<noteq> None \<and> rh_gossipFn (bt_hooks b) = Some (be_queue be) \<and> bt_control b = StartControlChannels"
proof -
  from assms obtain creds rn where "bt_hooks b = hooks_after_raft be fs (pn_nodeID (resolve_flags (be_config_dir be) fs)) rn (hooks_before_raft be fs creds)"
    "bt_control b = StartMembershipWorkers None"
    by (auto simp: start_server_def start_cluster_def Let_def case_prod_beta split: if_splits)
  then show ?thesis by (simp add: hooks_after_raft_def hooks_before_raft_def hook_defs StartMembershipWorkers_def)
qed

lemma recover_cut:
  assumes "\<forall>c\<in>set cs. fits m c \<and> is_write c" "prefix img (encode_all cs)"
  shows "recover_store m (Contents img) = Inr s \<longleftrightarrow> (\<exists>k\<le>length cs. img = encode_all (take k cs) \<and> s = exec (take k cs) NewStore)"
proof
  assume r: "recover_store m (Contents img) = Inr s"
  obtain k where "k \<le> length cs" "snd (ReplayWal m Apply img NewStore) = exec (take k cs) NewStore"
    "fst (ReplayWal m Apply img NewStore) = None \<longleftrightarrow> img = encode_all (take k cs)"
    using ReplayWal_cut [of cs m img Apply 0 NewStore] assms by (auto simp: Apply_write exec_def)
  with r show "\<exists>k\<le>length cs. img = encode_all (take k cs) \<and> s = exec (take k cs) NewStore"
    by (auto simp: recover_store_def split: prod.splits option.splits)
next
  assume "\<exists>k\<le>length cs. img = encode_all (take k cs) \<and> s = exec (take k cs) NewStore"
  then obtain k where k: "img = encode_all (take k cs)" "s = exec (take k cs) NewStore" by blast
  have "\<forall>c\<in>set (take k cs). fits m c" "\<forall>c\<in>set (take k cs). \<forall>s. fst (Apply c s) = None"
    using assms(1) by (auto simp: Apply_write dest: in_set_takeD)
  then show "recover_store m (Contents img) = Inr s"
    using ReplayWal_log [of "take k cs" m Apply "[]" NewStore]
    by (simp add: k recover_store_def apply_cmds_total exec_def ReplayWal.simps [of m Apply "[]"])
qed

section \<open>Properties\<close>

text \<open>
  C4. A node whose log file was cut at any byte by a crash. If it starts, the file ends with a whole record and its event loop
  begins with exactly the store of the records in the file. If the file ends inside a record the node does not start: the
  replay error is a panic, although everything before that record could be recovered.
\<close>

theorem restart_after_crash:
  assumes "\<forall>c\<in>set cs. fits (be_maxAlloc be) c \<and> is_write c" "prefix img (encode_all cs)"
    and "be_file be (pn_walPath (resolve_flags (be_config_dir be) fs)) = Contents img"
    and "be_mkdir be (pn_dataDir (resolve_flags (be_config_dir be) fs)) = None"
  shows "(\<forall>b. start_server be fs = Inr b \<longrightarrow>
      (\<exists>k\<le>length cs. img = encode_all (take k cs) \<and> el_Store (bt_loop b) = exec (take k cs) NewStore))
    \<and> ((\<forall>k\<le>length cs. img \<noteq> encode_all (take k cs)) \<longrightarrow> (\<exists>e. start_server be fs = Inl (ReplayPanic (ReplayFailed e))))"
proof (intro conjI allI impI)
  fix b
  assume "start_server be fs = Inr b"
  from start_server_Inr(1) [OF this]
  show "\<exists>k\<le>length cs. img = encode_all (take k cs) \<and> el_Store (bt_loop b) = exec (take k cs) NewStore"
    using recover_cut [OF assms(1,2)] assms(3) by (auto simp: el_start_def)
next
  assume "\<forall>k\<le>length cs. img \<noteq> encode_all (take k cs)"
  then have "recover_store (be_maxAlloc be) (Contents img) \<noteq> Inr s" for s using recover_cut [OF assms(1,2)] by blast
  then obtain e where "recover_store (be_maxAlloc be) (Contents img) = Inl (ReplayFailed e)"
    by (cases "ReplayWal (be_maxAlloc be) Apply img NewStore"; cases "fst (ReplayWal (be_maxAlloc be) Apply img NewStore)")
      (auto simp: recover_store_def)
  then show "\<exists>e. start_server be fs = Inl (ReplayPanic (ReplayFailed e))"
    using assms(3,4) by (simp add: start_server_def Let_def unless_def needs_def)
qed

text \<open>A seed node with the default flags in an environment without errors, and its log.\<close>

definition calm_raft :: raft_setup where
  "calm_raft = \<lparr>rs_mkdir = None, rs_bolt = None, rs_cache = None, rs_snapshots = None,
     rs_resolve = (\<lambda>_. Inr \<lparr>ta_IP = [127, 0, 0, 1], ta_Port = 10999, ta_Zone = []\<rparr>), rs_transport = (\<lambda>_ _. None), rs_raft = None,
     rs_bootstrap = (\<lambda>_. Bootstrapped)\<rparr>"

definition calm_boot :: "bytes \<Rightarrow> boot_env" where
  "calm_boot img = \<lparr>be_config_dir = Some ''/etc'', be_mkdir = (\<lambda>_. None),
     be_file = (\<lambda>p. if p = ''/etc/kvst/node-9999/ops.wal'' then Contents img else NoFile), be_maxAlloc = 100, be_newWal = (\<lambda>_. None),
     be_create = (\<lambda>_. None), be_read_file = (\<lambda>_. Inl []), be_has_certs = (\<lambda>_. False), be_raft = calm_raft, be_cpus = None,
     be_mem = None, be_disk = (\<lambda>_. None), be_join = (\<lambda>_. None), be_rng = sorted_list_of_fset, be_hash = (\<lambda>_. 0), be_leader = True,
     be_apply_err = (\<lambda>_. None), be_members = [], be_listen = (\<lambda>_. None), be_load = (\<lambda>_ _. None),
     be_loop = calm, be_clock = (\<lambda>_. 0), be_keys = sorted_list_of_fset, be_queue = (\<lambda>_. None)\<rparr>"

lemma dec_ports: "dec_int 9999 = ''9999''" "dec_int 10999 = ''10999''"
  by (simp_all add: dec_int_def dec.simps char_of_def bit_Suc_0_iff)

lemma calm_join:
  "filepath_Join [''kvst'', ''node-9999''] = ''kvst/node-9999''"
  "filepath_Join [''/etc'', ''kvst/node-9999'', ''ops.wal''] = ''/etc/kvst/node-9999/ops.wal''"
  "filepath_Join [''/etc'', ''kvst/node-9999'', ''raft''] = ''/etc/kvst/node-9999/raft''"
  by code_simp+

lemma calm_paths:
  "pn_walPath (resolve_flags (Some ''/etc'') default_flags) = ''/etc/kvst/node-9999/ops.wal''"
  by (simp add: resolve_flags_def default_flags_def Let_def node_name_def dec_ports calm_join)

lemma calm_raft_starts:
  "bindA \<noteq> [] \<Longrightarrow> advA \<noteq> [] \<Longrightarrow> dir \<noteq> [] \<Longrightarrow> \<exists>rn. NewRaftNode calm_raft nid bindA advA dir bs True = Inr rn"
  by (simp add: NewRaftNode_def calm_raft_def Let_def)

lemma calm_plan:
  "pn_raftDataDir (resolve_flags (Some ''/etc'') default_flags) = ''/etc/kvst/node-9999/raft''"
  "pn_raftBind (resolve_flags (Some ''/etc'') default_flags) = ''0.0.0.0:10999''"
  "pn_raftAddr (resolve_flags (Some ''/etc'') default_flags) = ''127.0.0.1:10999''"
  "pn_seed (resolve_flags (Some ''/etc'') default_flags)"
  by (simp_all add: resolve_flags_def default_flags_def Let_def node_name_def host_port_def dec_ports calm_join)

lemma calm_cluster_starts: "\<exists>b. start_cluster (calm_boot img) default_flags (resolve_flags (Some ''/etc'') default_flags) el = Inr b"
proof -
  obtain rn where "NewRaftNode calm_raft (pn_nodeID (resolve_flags (Some ''/etc'') default_flags)) ''0.0.0.0:10999'' ''127.0.0.1:10999''
      ''/etc/kvst/node-9999/raft'' True True = Inr rn"
    using calm_raft_starts [of "''0.0.0.0:10999''" "''127.0.0.1:10999''" "''/etc/kvst/node-9999/raft''"] by auto
  then show ?thesis
    by (simp add: start_cluster_def calm_boot_def Let_def calm_plan ConfigureClientTLS_def BuildClientTransportCredentials_def
        tls_config_def initial_update Server_Start_def switches_def SetRPCVerbose_def default_flags_def [THEN arg_cong [where f = sf_tlsEnable]])
      blast
qed

lemma calm_boot_starts:
  assumes "recover_store 100 (Contents img) = Inr s"
  shows "\<exists>b. start_server (calm_boot img) default_flags = Inr b"
proof -
  have be: "be_config_dir (calm_boot img) = Some ''/etc''" "be_mkdir (calm_boot img) = (\<lambda>_. None)" "be_newWal (calm_boot img) = (\<lambda>_. None)"
    "be_maxAlloc (calm_boot img) = 100" "be_file (calm_boot img) ''/etc/kvst/node-9999/ops.wal'' = Contents img"
    by (simp_all add: calm_boot_def)
  have tls: "\<not> sf_tlsEnable default_flags" by (simp add: default_flags_def)
  show ?thesis using calm_cluster_starts assms by (simp add: start_server_def Let_def be calm_paths tls)
qed

theorem restart_after_crash_witness:
  "(\<exists>b. start_server (calm_boot (encode_cmd (put_cmd ''k'' [7] 3 9))) default_flags = Inr b
      \<and> el_Store (bt_loop b) = exec [put_cmd ''k'' [7] 3 9] NewStore)
    \<and> (\<exists>e. start_server (calm_boot (encode_cmd (put_cmd ''k'' [7] 3 9) @ [0, 0])) default_flags = Inl (ReplayPanic (ReplayFailed e)))"
proof -
  let ?c = "put_cmd ''k'' [7] 3 9"
  let ?e = "[0, 0, 3, 0, 0, 0, 0, 0, 0, 0, 9, 1, 107, 1, 7] :: bytes"
  have enc: "encode_cmd ?c = ?e" by code_simp
  have ok: "\<forall>c\<in>set [?c, ?c]. fits 100 c \<and> is_write c" by (simp add: fits_def put_cmd_def is_write_def op_defs)
  have env: "be_maxAlloc (calm_boot img) = 100" "be_config_dir (calm_boot img) = Some ''/etc''"
    "be_file (calm_boot img) ''/etc/kvst/node-9999/ops.wal'' = Contents img" "be_mkdir (calm_boot img) d = None" for img d
    by (simp_all add: calm_boot_def)
  have paths: "pn_walPath (resolve_flags (be_config_dir (calm_boot img)) default_flags) = ''/etc/kvst/node-9999/ops.wal''" for img
    by (simp add: env calm_paths)
  note crash = restart_after_crash [of "[?c, ?c]" "calm_boot img" img default_flags for img, unfolded env(1,4) paths env(3), OF ok _ refl refl]
  have whole: "recover_store 100 (Contents (encode_cmd ?c)) = Inr (exec [?c] NewStore)"
    by (rule iffD2 [OF recover_cut [of "[?c]"]]) (use ok in \<open>simp_all add: exI [of _ 1]\<close>)
  then obtain b where b: "start_server (calm_boot (encode_cmd ?c)) default_flags = Inr b" using calm_boot_starts by blast
  have len: "length (encode_all (take k [?c, ?c])) = 15 * k" if "k \<le> 2" for k
  proof -
    from that consider "k = 0" | "k = 1" | "k = 2" by linarith
    then show ?thesis by cases (simp_all add: enc)
  qed
  have "prefix (encode_cmd ?c) (encode_all [?c, ?c])" by simp
  from conjunct1 [OF crash [OF this], THEN spec, THEN mp, OF b] obtain k where
    k: "k \<le> length [?c, ?c]" "encode_cmd ?c = encode_all (take k [?c, ?c])" "el_Store (bt_loop b) = exec (take k [?c, ?c]) NewStore"
    by (elim exE conjE)
  have "k = 1" using len [of k] k(1) arg_cong [OF k(2), of length] by (simp add: enc)
  with k(3) b have one: "\<exists>b. start_server (calm_boot (encode_cmd ?c)) default_flags = Inr b \<and> el_Store (bt_loop b) = exec [?c] NewStore" by simp
  have "prefix (encode_cmd ?c @ [0, 0]) (encode_all [?c, ?c])" by (simp add: enc)
  note cut = conjunct2 [OF crash [OF this], THEN mp]
  have "\<forall>k\<le>length [?c, ?c]. encode_cmd ?c @ [0, 0] \<noteq> encode_all (take k [?c, ?c])"
  proof (intro allI impI notI)
    fix k
    assume k: "k \<le> length [?c, ?c]" and eq: "encode_cmd ?c @ [0, 0] = encode_all (take k [?c, ?c])"
    from k have "k \<le> 2" by simp
    from arg_cong [OF eq, of length] have "17 = 15 * k" unfolding len [OF \<open>k \<le> 2\<close>] by (simp add: enc)
    then show False by presburger
  qed
  from one cut [OF this] show ?thesis by (rule conjI)
qed

end
