(* ===== verification/Stream_KV.thy ===== *)
theory Stream_KV
  imports Rpc_Server
begin

text \<open>
  The goroutines of \<^verbatim>\<open>StreamKV\<close> in \<^verbatim>\<open>src/core/rpc.go\<close>: the handler that reads requests from the client and hands them to the event
  loop, the goroutine that sends the responses back, and the one that waits for the drain. They interleave with the event loop, which
  sends responses on a channel of the stream. What the loop answers is the matter of \<^verbatim>\<open>Event_Loop\<close>; here it may answer any
  request it has, because reads overtake writes that wait for the log.
\<close>

section \<open>State\<close>

datatype stream_fault = SendErr string | RecvErr string | CtxErr

text \<open>\<^verbatim>\<open>Submitting\<close> is the handler at its blocking send to the event loop, \<^verbatim>\<open>Returned\<close> its end.\<close>

datatype stream_phase = CheckErr | Receiving | Submitting Request | Draining | Returned "stream_fault option"

text \<open>
  \<open>ss_queue\<close> are the requests the loop has not answered, \<open>ss_sending\<close> the response the second goroutine is sending. The last three
  fields are histories: the requests read from the client, the responses of the loop, and what was sent to the client.
\<close>

record stream_state =
  ss_phase :: stream_phase
  ss_inFlight :: int
  ss_queue :: "Request list"
  ss_respCh :: "Response list"
  ss_receiver :: bool
  ss_sending :: "Response option"
  ss_sendErr :: "string option"
  ss_ctxDone :: bool
  ss_server :: Server
  ss_received :: "StreamReq list"
  ss_answers :: "Response list"
  ss_sent :: "StreamResp list"

definition respCh_cap :: nat where "respCh_cap = 10000"

definition stream_start :: "Server \<Rightarrow> stream_state" where
  "stream_start sv =
     \<lparr>ss_phase = CheckErr, ss_inFlight = 0, ss_queue = [], ss_respCh = [], ss_receiver = True, ss_sending = None, ss_sendErr = None,
      ss_ctxDone = False, ss_server = sv, ss_received = [], ss_answers = [], ss_sent = []\<rparr>"

section \<open>Steps\<close>

text \<open>The outcome of a step of \<^verbatim>\<open>select\<close> that looks for a send error first.\<close>

definition or_sendErr :: "stream_fault option \<Rightarrow> stream_state \<Rightarrow> stream_state" where
  "or_sendErr res st =
     (case ss_sendErr st of
        Some e \<Rightarrow> st\<lparr>ss_phase := Returned (Some (SendErr e)), ss_sendErr := None\<rparr>
      | None \<Rightarrow> st\<lparr>ss_phase := Returned res\<rparr>)"

datatype stream_action =
    Check | RecvMsg u64 StreamReq | RecvEOF | RecvFails string | Submit | DrainErr | Drained | DrainCtx
  | LoopAnswers nat Response
  | Take | SendOk | SendFails string | ReceiverQuits
  | ContextDone | OtherCalls Server

definition handler_check :: "stream_state \<Rightarrow> stream_state option" where
  "handler_check st =
     (if ss_phase st \<noteq> CheckErr then None
      else (case ss_sendErr st of
              Some e \<Rightarrow> Some (st\<lparr>ss_phase := Returned (Some (SendErr e)), ss_sendErr := None\<rparr>)
            | None \<Rightarrow> Some (st\<lparr>ss_phase := Receiving\<rparr>)))"

definition handler_recv :: "ReplicatorIface \<Rightarrow> u64 \<Rightarrow> StreamReq \<Rightarrow> stream_state \<Rightarrow> stream_state option" where
  "handler_recv ri now sr st =
     (if ss_phase st \<noteq> Receiving then None
      else (let (r, sv) = stream_request ri now sr (ss_server st)
            in Some (st\<lparr>ss_phase := Submitting r, ss_inFlight := ss_inFlight st + 1, ss_server := sv,
                        ss_received := ss_received st @ [sr]\<rparr>)))"

definition handler_submit :: "stream_state \<Rightarrow> stream_state option" where
  "handler_submit st =
     (case ss_phase st of
        Submitting r \<Rightarrow> Some (st\<lparr>ss_phase := CheckErr, ss_queue := ss_queue st @ [r]\<rparr>)
      | _ \<Rightarrow> None)"

definition handler_drain :: "bool \<Rightarrow> stream_fault option \<Rightarrow> stream_state \<Rightarrow> stream_state option" where
  "handler_drain ready res st = (if ss_phase st = Draining \<and> ready then Some (or_sendErr res st) else None)"

text \<open>The loop sends with a blocking send, so it needs room in the channel.\<close>

definition loop_answers :: "nat \<Rightarrow> Response \<Rightarrow> stream_state \<Rightarrow> stream_state option" where
  "loop_answers i resp st =
     (if i < length (ss_queue st) \<and> resp_Op resp = req_Op (ss_queue st ! i) \<and> length (ss_respCh st) < respCh_cap
      then Some (st\<lparr>ss_queue := take i (ss_queue st) @ drop (Suc i) (ss_queue st), ss_respCh := ss_respCh st @ [resp],
                    ss_answers := ss_answers st @ [resp]\<rparr>)
      else None)"

text \<open>\<^verbatim>\<open>inFlight.Done()\<close> comes before the send.\<close>

definition receiver_take :: "stream_state \<Rightarrow> stream_state option" where
  "receiver_take st =
     (if ss_receiver st \<and> ss_sending st = None
      then (case ss_respCh st of
              [] \<Rightarrow> None
            | r # rs \<Rightarrow> Some (st\<lparr>ss_respCh := rs, ss_inFlight := ss_inFlight st - 1, ss_sending := Some r\<rparr>))
      else None)"

definition receiver_send :: "string option \<Rightarrow> stream_state \<Rightarrow> stream_state option" where
  "receiver_send err st =
     (case ss_sending st of
        None \<Rightarrow> None
      | Some r \<Rightarrow>
          (case err of
             None \<Rightarrow> Some (st\<lparr>ss_sending := None, ss_sent := ss_sent st @ [stream_resp r]\<rparr>)
           | Some e \<Rightarrow> Some (st\<lparr>ss_sending := None, ss_receiver := False,
                              ss_sendErr := (if ss_sendErr st = None then Some e else ss_sendErr st)\<rparr>)))"

definition receiver_quits :: "stream_state \<Rightarrow> stream_state option" where
  "receiver_quits st =
     (if ss_receiver st \<and> ss_sending st = None \<and> ss_ctxDone st then Some (st\<lparr>ss_receiver := False\<rparr>) else None)"

fun stream_step :: "ReplicatorIface \<Rightarrow> stream_action \<Rightarrow> stream_state \<Rightarrow> stream_state option" where
  "stream_step ri Check st = handler_check st"
| "stream_step ri (RecvMsg now sr) st = handler_recv ri now sr st"
| "stream_step ri RecvEOF st = (if ss_phase st = Receiving then Some (st\<lparr>ss_phase := Draining\<rparr>) else None)"
| "stream_step ri (RecvFails e) st =
     (if ss_phase st = Receiving then Some (st\<lparr>ss_phase := Returned (Some (RecvErr e))\<rparr>) else None)"
| "stream_step ri Submit st = handler_submit st"
| "stream_step ri DrainErr st = handler_drain (ss_sendErr st \<noteq> None) None st"
| "stream_step ri Drained st = handler_drain (ss_inFlight st = 0) None st"
| "stream_step ri DrainCtx st = handler_drain (ss_ctxDone st) (Some CtxErr) st"
| "stream_step ri (LoopAnswers i resp) st = loop_answers i resp st"
| "stream_step ri Take st = receiver_take st"
| "stream_step ri SendOk st = receiver_send None st"
| "stream_step ri (SendFails e) st = receiver_send (Some e) st"
| "stream_step ri ReceiverQuits st = receiver_quits st"
| "stream_step ri ContextDone st = Some (st\<lparr>ss_ctxDone := True\<rparr>)"
| "stream_step ri (OtherCalls sv) st = Some (st\<lparr>ss_server := sv\<rparr>)"

fun stream_run :: "ReplicatorIface \<Rightarrow> stream_action list \<Rightarrow> stream_state \<Rightarrow> stream_state option" where
  "stream_run ri [] st = Some st"
| "stream_run ri (ev # evs) st = (case stream_step ri ev st of None \<Rightarrow> None | Some st' \<Rightarrow> stream_run ri evs st')"

interpretation stream_machine: step_machine "stream_step ri" "stream_run ri" for ri
  by unfold_locales (simp_all split: option.splits)

lemmas stream_defs = handler_check_def handler_recv_def handler_submit_def handler_drain_def loop_answers_def receiver_take_def
  receiver_send_def receiver_quits_def or_sendErr_def

section \<open>Invariant\<close>

fun submitting :: "stream_phase \<Rightarrow> Request list" where
  "submitting (Submitting r) = [r]"
| "submitting _ = []"

definition stream_counts :: "stream_state \<Rightarrow> bool" where
  "stream_counts st \<longleftrightarrow>
     ss_inFlight st = int (length (submitting (ss_phase st)) + length (ss_queue st) + length (ss_respCh st))
     \<and> image_mset req_Op (mset (submitting (ss_phase st)) + mset (ss_queue st)) + image_mset resp_Op (mset (ss_answers st))
       = image_mset (\<lambda>sr. stream_op (sr_Op sr)) (mset (ss_received st))
     \<and> (ss_phase st = Returned None \<longrightarrow> ss_queue st = [] \<and> ss_respCh st = [])"

definition stream_sends :: "stream_state \<Rightarrow> bool" where
  "stream_sends st \<longleftrightarrow>
     (\<exists>sent cur. ss_answers st = sent @ cur @ ss_respCh st \<and> ss_sent st = map stream_resp sent \<and> length cur \<le> 1
        \<and> (\<forall>r. ss_sending st = Some r \<longrightarrow> cur = [r]) \<and> (ss_receiver st \<and> ss_sending st = None \<longrightarrow> cur = []))
     \<and> (ss_sending st \<noteq> None \<longrightarrow> ss_receiver st)"

lemma stream_request_op: "req_Op (fst (stream_request ri now sr sv)) = stream_op (sr_Op sr)"
  by (simp add: stream_request_def Let_def split: prod.splits)

lemma stream_counts_start: "stream_counts (stream_start sv)"
  by (simp add: stream_counts_def stream_start_def)

lemma stream_sends_start: "stream_sends (stream_start sv)"
  by (simp add: stream_sends_def stream_start_def)

lemma mset_remove_nth: "i < length xs \<Longrightarrow> mset xs = add_mset (xs ! i) (mset (take i xs) + mset (drop (Suc i) xs))"
  by (subst id_take_nth_drop [of i xs]) simp_all

lemma lengths_zero: "int (length xs) + int (length ys) = 0 \<longleftrightarrow> xs = [] \<and> ys = []"
  by (cases xs; cases ys) auto

lemma stream_counts_step:
  assumes "stream_counts st" "stream_step ri ev st = Some st'"
  shows "stream_counts st'"
proof (cases ev)
  case (RecvMsg now sr)
  then show ?thesis using assms stream_request_op [of ri now sr "ss_server st"]
    by (auto simp: stream_counts_def stream_defs Let_def split: if_splits prod.splits)
next
  case (LoopAnswers i resp)
  then show ?thesis using assms mset_remove_nth [of i "ss_queue st"]
    by (auto simp: stream_counts_def stream_defs split: if_splits)
next
  case Drained
  then show ?thesis using assms by (auto simp: stream_counts_def stream_defs lengths_zero split: if_splits option.splits)
qed (use assms in \<open>auto simp: stream_counts_def stream_defs split: if_splits option.splits stream_phase.splits list.splits\<close>)

lemma stream_sends_step:
  assumes "stream_sends st" "stream_step ri ev st = Some st'"
  shows "stream_sends st'"
proof -
  obtain sent cur where inv: "ss_answers st = sent @ cur @ ss_respCh st" "ss_sent st = map stream_resp sent" "length cur \<le> 1"
    "\<forall>r. ss_sending st = Some r \<longrightarrow> cur = [r]" "ss_receiver st \<and> ss_sending st = None \<longrightarrow> cur = []" "ss_sending st \<noteq> None \<longrightarrow> ss_receiver st"
    using assms(1) unfolding stream_sends_def by blast
  have keep: "stream_sends st'" if "ss_answers st' = ss_answers st" "ss_respCh st' = ss_respCh st" "ss_sent st' = ss_sent st"
    "ss_sending st' = ss_sending st" "ss_receiver st' = ss_receiver st" for st'
    using assms(1) that by (simp add: stream_sends_def)
  show ?thesis
  proof (cases ev)
    case (LoopAnswers i resp)
    then have "ss_answers st' = sent @ cur @ ss_respCh st'" "ss_sent st' = ss_sent st" "ss_sending st' = ss_sending st" "ss_receiver st' = ss_receiver st"
      using assms(2) inv(1) by (auto simp: loop_answers_def split: if_splits)
    then show ?thesis unfolding stream_sends_def using inv by metis
  next
    case Take
    then obtain r where "ss_receiver st" "cur = []" "ss_respCh st = r # ss_respCh st'" "ss_answers st' = ss_answers st" "ss_sent st' = ss_sent st"
      "ss_sending st' = Some r" "ss_receiver st'"
      using assms(2) inv(5) by (auto simp: receiver_take_def split: if_splits list.splits)
    then show ?thesis unfolding stream_sends_def using inv(1,2) by (intro conjI exI [of _ sent] exI [of _ "[r]"]) auto
  next
    case SendOk
    then obtain r where "ss_sending st = Some r" "ss_answers st' = ss_answers st" "ss_sent st' = ss_sent st @ [stream_resp r]"
      "ss_sending st' = None" "ss_respCh st' = ss_respCh st"
      using assms(2) by (auto simp: receiver_send_def split: option.splits)
    then show ?thesis unfolding stream_sends_def using inv(1,2,4) by (intro conjI exI [of _ "sent @ [r]"] exI [of _ "[]"]) auto
  next
    case (SendFails e)
    then have "ss_answers st' = ss_answers st" "ss_sent st' = ss_sent st" "ss_sending st' = None" "ss_respCh st' = ss_respCh st" "\<not> ss_receiver st'"
      using assms(2) by (auto simp: receiver_send_def split: option.splits)
    then show ?thesis unfolding stream_sends_def using inv(1-3) by (intro conjI exI [of _ sent] exI [of _ cur]) auto
  next
    case ReceiverQuits
    then have "ss_answers st' = ss_answers st" "ss_sent st' = ss_sent st" "ss_sending st' = None" "ss_respCh st' = ss_respCh st" "\<not> ss_receiver st'"
      using assms(2) by (auto simp: receiver_quits_def split: if_splits)
    then show ?thesis unfolding stream_sends_def using inv(1-3) by (intro conjI exI [of _ sent] exI [of _ cur]) auto
  qed (use assms(2) in \<open>auto intro!: keep simp: stream_defs Let_def split: if_splits option.splits stream_phase.splits prod.splits\<close>)
qed

lemma stream_reach:
  assumes "stream_run ri evs (stream_start sv) = Some st"
  shows "stream_counts st" "stream_sends st"
proof -
  show "stream_counts st"
    by (rule stream_machine.run_invariant [where P = stream_counts and ok = "\<lambda>_. True", OF assms])
      (auto intro: stream_counts_step stream_counts_start)
  show "stream_sends st"
    by (rule stream_machine.run_invariant [where P = stream_sends and ok = "\<lambda>_. True", OF assms])
      (auto intro: stream_sends_step stream_sends_start)
qed

section \<open>Runs\<close>

text \<open>\<^verbatim>\<open>StreamKV\<close> of \<^verbatim>\<open>Rpc_Server\<close>, which answers each request before it reads the next, is a run of the machine.\<close>

definition one_answer :: "u64 \<Rightarrow> StreamReq \<Rightarrow> Response \<Rightarrow> Server \<Rightarrow> stream_action list" where
  "one_answer now sr resp sv = [Check, RecvMsg now sr, Submit, LoopAnswers 0 resp, OtherCalls sv, Take, SendOk]"

definition stream_idle :: "Server \<Rightarrow> StreamReq list \<Rightarrow> Response list \<Rightarrow> stream_state" where
  "stream_idle sv received answers = (stream_start sv)\<lparr>ss_received := received, ss_answers := answers, ss_sent := map stream_resp answers\<rparr>"

lemma run_one_answer:
  "resp_Op resp = stream_op (sr_Op sr) \<Longrightarrow>
   stream_run ri (one_answer now sr resp sv') (stream_idle sv received answers) = Some (stream_idle sv' (received @ [sr]) (answers @ [resp]))"
  using stream_request_op [of ri now sr sv]
  by (cases "stream_request ri now sr sv")
    (simp add: one_answer_def stream_idle_def stream_start_def stream_defs respCh_cap_def)

lemma serve_op: "resp_Op (fst (serve mode fine r s)) = req_Op r"
  by (simp add: serve_def get_response_def write_response_def Let_def split: prod.splits sum.splits)

lemma StreamKV_is_run:
  "\<exists>evs answers. stream_run ri evs (stream_idle sv received sofar)
     = Some (stream_idle (snd (StreamKV ri mode fine reqs sv)) (received @ map snd reqs) (sofar @ answers))
     \<and> map stream_resp answers = fst (StreamKV ri mode fine reqs sv)"
proof (induction reqs arbitrary: sv received sofar)
  case Nil
  show ?case by (intro exI [of _ "[]"]) simp
next
  case (Cons q reqs)
  obtain now sr where q: "q = (now, sr)" by fastforce
  obtain r sv1 where r: "stream_request ri now sr sv = (r, sv1)" by fastforce
  obtain resp s' where resp: "serve mode fine r (sv_Store sv1) = (resp, s')" by fastforce
  let ?sv = "sv1\<lparr>sv_Store := s'\<rparr>"
  have op: "resp_Op resp = stream_op (sr_Op sr)"
    using serve_op [of mode fine r "sv_Store sv1"] stream_request_op [of ri now sr sv] r resp by simp
  from Cons.IH [of ?sv "received @ [sr]" "sofar @ [resp]"] obtain evs answers where
    IH: "stream_run ri evs (stream_idle ?sv (received @ [sr]) (sofar @ [resp]))
      = Some (stream_idle (snd (StreamKV ri mode fine reqs ?sv)) (received @ [sr] @ map snd reqs) (sofar @ resp # answers))"
    "map stream_resp answers = fst (StreamKV ri mode fine reqs ?sv)" by auto
  have "stream_run ri (one_answer now sr resp ?sv @ evs) (stream_idle sv received sofar)
      = Some (stream_idle (snd (StreamKV ri mode fine reqs ?sv)) (received @ [sr] @ map snd reqs) (sofar @ resp # answers))"
    by (simp only: stream_machine.run_append run_one_answer [OF op] Option.bind.simps IH(1))
  then show ?case using IH(2)
    by (intro exI [of _ "one_answer now sr resp ?sv @ evs"] exI [of _ "resp # answers"]) (simp add: q r resp split_beta)
qed

text \<open>A stream that is not read: \<open>n\<close> requests wait in the loop, then the loop answers as many as fit.\<close>

definition unread :: "Request \<Rightarrow> StreamReq \<Rightarrow> Server \<Rightarrow> nat \<Rightarrow> stream_state" where
  "unread r sr sv n = (stream_start sv)\<lparr>ss_inFlight := int n, ss_queue := replicate n r, ss_received := replicate n sr\<rparr>"

definition answer_n :: "Response \<Rightarrow> nat \<Rightarrow> stream_state \<Rightarrow> stream_state" where
  "answer_n resp m st =
     st\<lparr>ss_queue := drop m (ss_queue st), ss_respCh := replicate m resp, ss_answers := replicate m resp\<rparr>"

lemma run_unread:
  assumes "stream_request ri 0 sr sv = (r, sv)"
  shows "\<exists>evs. stream_run ri evs (stream_start sv) = Some (unread r sr sv n)"
proof (induction n)
  case 0
  show ?case by (intro exI [of _ "[]"]) (simp add: unread_def stream_start_def)
next
  case (Suc n)
  then obtain evs where "stream_run ri evs (stream_start sv) = Some (unread r sr sv n)" by blast
  moreover have "stream_run ri [Check, RecvMsg 0 sr, Submit] (unread r sr sv n) = Some (unread r sr sv (Suc n))"
    using assms by (simp add: unread_def stream_start_def stream_defs replicate_append_same)
  ultimately show ?case by (intro exI [of _ "evs @ [Check, RecvMsg 0 sr, Submit]"]) (simp only: stream_machine.run_append Option.bind.simps)
qed

lemma run_answer_n:
  assumes "resp_Op resp = req_Op r" "m \<le> n" "m \<le> respCh_cap"
  shows "stream_run ri (replicate m (LoopAnswers 0 resp)) (unread r sr sv n) = Some (answer_n resp m (unread r sr sv n))"
  using assms(2,3)
proof (induction m)
  case 0
  show ?case by (simp add: answer_n_def unread_def stream_start_def)
next
  case (Suc m)
  have "stream_step ri (LoopAnswers 0 resp) (answer_n resp m (unread r sr sv n)) = Some (answer_n resp (Suc m) (unread r sr sv n))"
    using Suc.prems assms(1) by (simp add: answer_n_def unread_def stream_start_def loop_answers_def replicate_append_same)
  moreover have "replicate (Suc m) (LoopAnswers 0 resp) = replicate m (LoopAnswers 0 resp) @ [LoopAnswers 0 resp]"
    by (simp add: replicate_append_same)
  ultimately show ?case using Suc by (simp add: stream_machine.run_append del: replicate_Suc stream_step.simps)
qed

text \<open>Nobody reads a full channel any more.\<close>

definition abandoned :: "stream_state \<Rightarrow> bool" where
  "abandoned st \<longleftrightarrow> \<not> ss_receiver st \<and> ss_sending st = None \<and> length (ss_respCh st) = respCh_cap"

lemma abandoned_step:
  assumes "abandoned st" "stream_step ri ev st = Some st'"
  shows "abandoned st' \<and> ss_answers st' = ss_answers st"
  using assms
  by (cases ev) (auto simp: abandoned_def stream_defs Let_def split: if_splits option.splits stream_phase.splits prod.splits list.splits)

lemma abandoned_run: "abandoned st \<Longrightarrow> stream_run ri evs st = Some st' \<Longrightarrow> ss_answers st' = ss_answers st"
  by (induction evs arbitrary: st) (auto split: option.splits dest: abandoned_step)

text \<open>Without its goroutine a stream sends nothing.\<close>

lemma silent_run:
  "\<not> ss_receiver st \<Longrightarrow> ss_sending st = None \<Longrightarrow> stream_run ri evs st = Some st' \<Longrightarrow> ss_sent st' = ss_sent st"
proof (induction evs arbitrary: st)
  case (Cons ev evs)
  then obtain s1 where s1: "stream_step ri ev st = Some s1" "stream_run ri evs s1 = Some st'" by (auto split: option.splits)
  have "\<not> ss_receiver s1 \<and> ss_sending s1 = None \<and> ss_sent s1 = ss_sent st"
    using Cons.prems(1,2) s1(1)
    by (cases ev) (auto simp: stream_defs Let_def split: if_splits option.splits stream_phase.splits prod.splits list.splits)
  with Cons.IH [of s1] s1(2) show ?case by simp
qed simp

section \<open>Properties\<close>

text \<open>
  C13. When \<^verbatim>\<open>StreamKV\<close> returns without an error, in every interleaving of its goroutines with the event loop, the loop has answered every request
  read from the client, each kind of operation as often as it was requested, and the answers were sent to the client in the order in which the
  loop gave them, all of them or all but the last.
\<close>

theorem stream_drain:
  assumes "stream_run ri evs (stream_start sv) = Some st" "ss_phase st = Returned None"
  shows "image_mset resp_Op (mset (ss_answers st)) = image_mset (\<lambda>sr. stream_op (sr_Op sr)) (mset (ss_received st))
    \<and> (ss_sent st = map stream_resp (ss_answers st)
       \<or> ss_sent st = map stream_resp (butlast (ss_answers st)) \<and> (ss_sending st = None \<longrightarrow> \<not> ss_receiver st))"
proof
  note inv = stream_reach [OF assms(1)]
  then show "image_mset resp_Op (mset (ss_answers st)) = image_mset (\<lambda>sr. stream_op (sr_Op sr)) (mset (ss_received st))"
    using assms(2) by (auto simp: stream_counts_def)
  have "ss_respCh st = []" using inv(1) assms(2) by (simp add: stream_counts_def)
  with inv(2) obtain sent cur where "ss_answers st = sent @ cur" "ss_sent st = map stream_resp sent" "length cur \<le> 1"
    "ss_receiver st \<and> ss_sending st = None \<longrightarrow> cur = []" by (auto simp: stream_sends_def)
  then show "ss_sent st = map stream_resp (ss_answers st)
      \<or> ss_sent st = map stream_resp (butlast (ss_answers st)) \<and> (ss_sending st = None \<longrightarrow> \<not> ss_receiver st)"
    by (cases cur) auto
qed

theorem stream_drain_witness:
  "\<exists>evs st. stream_run bystander evs (stream_start (NewServer NewStore)) = Some st \<and> ss_phase st = Returned None
     \<and> ss_received st = [\<lparr>sr_Op = GET, sr_Key = ''k'', sr_Value = []\<rparr>] \<and> length (ss_answers st) = 1"
proof -
  let ?sr = "\<lparr>sr_Op = GET, sr_Key = ''k'', sr_Value = []\<rparr>" and ?resp = "write_response OpGet None"
  let ?sv = "NewServer NewStore"
  have op: "resp_Op ?resp = stream_op (sr_Op ?sr)" by (simp add: write_response_def stream_op_def)
  have idle: "stream_start ?sv = stream_idle ?sv [] []" by (simp add: stream_idle_def stream_start_def)
  let ?evs = "one_answer 0 ?sr ?resp ?sv @ [Check, RecvEOF, Drained]"
  let ?st = "(stream_idle ?sv [?sr] [?resp])\<lparr>ss_phase := Returned None\<rparr>"
  have run: "stream_run bystander ?evs (stream_start ?sv) = Some ?st"
    unfolding stream_machine.run_append idle run_one_answer [OF op] by (simp add: stream_idle_def stream_start_def stream_defs)
  have ret: "ss_phase ?st = Returned None" and rec: "ss_received ?st = [?sr]" by (simp_all add: stream_idle_def)
  from stream_drain [OF run ret] have "image_mset resp_Op (mset (ss_answers ?st)) = image_mset (\<lambda>sr. stream_op (sr_Op sr)) (mset [?sr])"
    unfolding rec by (rule conjunct1)
  then have "size (image_mset resp_Op (mset (ss_answers ?st))) = 1" by simp
  then have "length (ss_answers ?st) = 1" by simp
  with run ret rec show ?thesis by blast
qed

text \<open>
  The last answer can get lost: \<^verbatim>\<open>inFlight.Done()\<close> comes before \<^verbatim>\<open>stream.Send\<close>, so the handler may see an empty stream and return nil while the
  answer of the last request is not sent yet; the send on the closed stream then fails and its error is read by nobody.
\<close>

lemma StreamKV_drops_last:
  "\<exists>evs st. stream_run ri evs (stream_start sv) = Some st \<and> ss_phase st = Returned None \<and> ss_received st = [sr] \<and> ss_sent st = []
     \<and> (\<forall>more st'. stream_run ri more st = Some st' \<longrightarrow> ss_sent st' = [])"
proof -
  obtain r sv' where r: "stream_request ri 0 sr sv = (r, sv')" by fastforce
  let ?evs = "[Check, RecvMsg 0 sr, Submit, Check, RecvEOF, LoopAnswers 0 (write_response (req_Op r) None), Take, Drained, SendFails ''closed'']"
  obtain st where st: "stream_run ri ?evs (stream_start sv) = Some st" "ss_phase st = Returned None" "ss_received st = [sr]" "ss_sent st = []"
    "\<not> ss_receiver st" "ss_sending st = None"
    using r by (simp add: stream_start_def stream_defs respCh_cap_def write_response_def)
  with silent_run [of st ri] show ?thesis by (intro exI [of _ ?evs] exI [of _ st]) auto
qed


end
