(* ===== verification/Observability.thy ===== *)
theory Observability
  imports Rpc_Server Float_Order
begin

text \<open>
  The metrics of \<^verbatim>\<open>src/observability/metrics.go\<close> and the places in \<^verbatim>\<open>src/core/store.go\<close> and \<^verbatim>\<open>src/core/rpc.go\<close> that
  feed them. The collectors belong to the Prometheus client library: here is which collectors are declared and which of their methods each
  function calls, in order.
\<close>

section \<open>Collectors\<close>

datatype metric =
    placementEpochCurrent | placementApplyTotal | placementApplyDurationSeconds | migrationVNodesGainedTotal
  | migrationVNodesLostTotal | migrationVNodesReplicaAddedTotal | migrationVNodesReplicaChangedTotal
  | migrationActiveVNodes | transferAttemptsTotal | transferDurationSeconds | transferEntriesTotal
  | transferBytesTotal | getMigrationFallbackTotal | staleWriteIgnoredTotal | storeApplyTotal | storeGetTotal
  | storeGetDurationSeconds | storeSnapshotEntries | storeKeys | storeTombstones | storeValueBytes
  | storeVnodesWithData | storeVnodesWithTombstones | rpcRequestsTotal | clientRequestsTotal
  | rpcDurationSeconds | replicationQuorumTotal | replicationAcks | replicationTargets | localNodeCPUUsage
  | localNodeMemUsage | localNodeNetUsage | localNodeDiskUsage | localNodeAvgRTTMs | localNodeCPUCores
  | localNodeMemGB | localNodeBandwidthMbps | localNodeDiskGB | clusterMembers

datatype metric_kind = Gauge | Counter | Histogram

record metric_desc =
  md_Name :: string
  md_Kind :: metric_kind
  md_Labels :: "string list"
  md_Buckets :: "rat list"

definition desc :: "string \<Rightarrow> metric_kind \<Rightarrow> string list \<Rightarrow> rat list \<Rightarrow> metric_desc" where
  "desc name kind labels buckets = \<lparr>md_Name = name, md_Kind = kind, md_Labels = labels, md_Buckets = buckets\<rparr>"

text \<open>\<^verbatim>\<open>prometheus.DefBuckets\<close> is a parameter.\<close>

primrec collector :: "rat list \<Rightarrow> metric \<Rightarrow> metric_desc" where
  "collector DefBuckets placementEpochCurrent = desc ''nawst_placement_epoch_current'' Gauge [] []"
| "collector DefBuckets placementApplyTotal = desc ''nawst_placement_apply_total'' Counter [] []"
| "collector DefBuckets placementApplyDurationSeconds = desc ''nawst_placement_apply_duration_seconds'' Histogram [] DefBuckets"
| "collector DefBuckets migrationVNodesGainedTotal = desc ''nawst_migration_vnodes_gained_total'' Counter [] []"
| "collector DefBuckets migrationVNodesLostTotal = desc ''nawst_migration_vnodes_lost_total'' Counter [] []"
| "collector DefBuckets migrationVNodesReplicaAddedTotal = desc ''nawst_migration_vnodes_replica_added_total'' Counter [] []"
| "collector DefBuckets migrationVNodesReplicaChangedTotal = desc ''nawst_migration_vnodes_replica_changed_total'' Counter [] []"
| "collector DefBuckets migrationActiveVNodes = desc ''nawst_migration_active_vnodes'' Gauge [] []"
| "collector DefBuckets transferAttemptsTotal = desc ''nawst_transfer_attempts_total'' Counter [''result''] []"
| "collector DefBuckets transferDurationSeconds = desc ''nawst_transfer_duration_seconds'' Histogram [] DefBuckets"
| "collector DefBuckets transferEntriesTotal = desc ''nawst_transfer_entries_total'' Counter [] []"
| "collector DefBuckets transferBytesTotal = desc ''nawst_transfer_bytes_total'' Counter [] []"
| "collector DefBuckets getMigrationFallbackTotal = desc ''nawst_get_migration_fallback_total'' Counter [] []"
| "collector DefBuckets staleWriteIgnoredTotal = desc ''nawst_stale_write_ignored_total'' Counter [] []"
| "collector DefBuckets storeApplyTotal = desc ''nawst_store_apply_total'' Counter [''op'', ''result''] []"
| "collector DefBuckets storeGetTotal = desc ''nawst_store_get_total'' Counter [''result''] []"
| "collector DefBuckets storeGetDurationSeconds = desc ''nawst_store_get_duration_seconds'' Histogram [] DefBuckets"
| "collector DefBuckets storeSnapshotEntries = desc ''nawst_store_snapshot_entries'' Histogram [] [1, 5, 10, 25, 50, 100, 250, 500, 1000, 2500, 5000]"
| "collector DefBuckets storeKeys = desc ''nawst_store_keys'' Gauge [] []"
| "collector DefBuckets storeTombstones = desc ''nawst_store_tombstones'' Gauge [] []"
| "collector DefBuckets storeValueBytes = desc ''nawst_store_value_bytes'' Gauge [] []"
| "collector DefBuckets storeVnodesWithData = desc ''nawst_store_vnodes_with_data'' Gauge [] []"
| "collector DefBuckets storeVnodesWithTombstones = desc ''nawst_store_vnodes_with_tombstones'' Gauge [] []"
| "collector DefBuckets rpcRequestsTotal = desc ''nawst_rpc_requests_total'' Counter [''method'', ''result''] []"
| "collector DefBuckets clientRequestsTotal = desc ''nawst_client_requests_total'' Counter [''method'', ''result''] []"
| "collector DefBuckets rpcDurationSeconds = desc ''nawst_rpc_request_duration_seconds'' Histogram [''method''] DefBuckets"
| "collector DefBuckets replicationQuorumTotal = desc ''nawst_replication_quorum_total'' Counter [''result''] []"
| "collector DefBuckets replicationAcks = desc ''nawst_replication_acks'' Histogram [] [1, 2, 3, 4, 5, 7, 9]"
| "collector DefBuckets replicationTargets = desc ''nawst_replication_targets'' Histogram [] [0, 1, 2, 3, 4, 5, 7, 9]"
| "collector DefBuckets localNodeCPUUsage = desc ''nawst_local_cpu_usage_ratio'' Gauge [] []"
| "collector DefBuckets localNodeMemUsage = desc ''nawst_local_mem_usage_ratio'' Gauge [] []"
| "collector DefBuckets localNodeNetUsage = desc ''nawst_local_net_usage_ratio'' Gauge [] []"
| "collector DefBuckets localNodeDiskUsage = desc ''nawst_local_disk_usage_ratio'' Gauge [] []"
| "collector DefBuckets localNodeAvgRTTMs = desc ''nawst_local_avg_rtt_ms'' Gauge [] []"
| "collector DefBuckets localNodeCPUCores = desc ''nawst_local_cpu_cores'' Gauge [] []"
| "collector DefBuckets localNodeMemGB = desc ''nawst_local_mem_gb'' Gauge [] []"
| "collector DefBuckets localNodeBandwidthMbps = desc ''nawst_local_bandwidth_mbps'' Gauge [] []"
| "collector DefBuckets localNodeDiskGB = desc ''nawst_local_disk_gb'' Gauge [] []"
| "collector DefBuckets clusterMembers = desc ''nawst_cluster_members'' Gauge [] []"

definition all_metrics :: "metric list" where
  "all_metrics =
     [placementEpochCurrent, placementApplyTotal, placementApplyDurationSeconds, migrationVNodesGainedTotal,
      migrationVNodesLostTotal, migrationVNodesReplicaAddedTotal, migrationVNodesReplicaChangedTotal,
      migrationActiveVNodes, transferAttemptsTotal, transferDurationSeconds, transferEntriesTotal,
      transferBytesTotal, getMigrationFallbackTotal, staleWriteIgnoredTotal, storeApplyTotal, storeGetTotal,
      storeGetDurationSeconds, storeSnapshotEntries, storeKeys, storeTombstones, storeValueBytes,
      storeVnodesWithData, storeVnodesWithTombstones, rpcRequestsTotal, clientRequestsTotal, rpcDurationSeconds,
      replicationQuorumTotal, replicationAcks, replicationTargets, localNodeCPUUsage, localNodeMemUsage,
      localNodeNetUsage, localNodeDiskUsage, localNodeAvgRTTMs, localNodeCPUCores, localNodeMemGB,
      localNodeBandwidthMbps, localNodeDiskGB, clusterMembers]"

text \<open>A call of a collector's method, with the label values if it is a vector.\<close>

datatype metric_call =
    Inc metric "string list" | Dec metric | Add metric f64 | SetTo metric f64 | Observe metric "string list" f64

section \<open>The functions\<close>

definition or_unknown :: "string \<Rightarrow> string" where
  "or_unknown label = (if label = [] then ''unknown'' else label)"

definition ObservePlacementApply :: "u64 \<Rightarrow> int \<Rightarrow> int \<Rightarrow> int \<Rightarrow> int \<Rightarrow> int \<Rightarrow> metric_call list" where
  "ObservePlacementApply epoch gained lost changedReplicas addedReplicas d =
     [SetTo placementEpochCurrent (of_go_int (uint epoch)), Inc placementApplyTotal [], Observe placementApplyDurationSeconds [] (Seconds d),
      Add migrationVNodesGainedTotal (of_go_int gained), Add migrationVNodesLostTotal (of_go_int lost),
      Add migrationVNodesReplicaChangedTotal (of_go_int changedReplicas), Add migrationVNodesReplicaAddedTotal (of_go_int addedReplicas)]"

definition IncMigrationActive :: "metric_call list" where
  "IncMigrationActive = [Inc migrationActiveVNodes []]"

definition DecMigrationActive :: "metric_call list" where
  "DecMigrationActive = [Dec migrationActiveVNodes]"

definition ObserveTransfer :: "string \<Rightarrow> int \<Rightarrow> int \<Rightarrow> int \<Rightarrow> metric_call list" where
  "ObserveTransfer result d entries nbytes =
     [Inc transferAttemptsTotal [or_unknown result], Observe transferDurationSeconds [] (Seconds d)]
     @ (if entries > 0 then [Add transferEntriesTotal (of_go_int entries)] else [])
     @ (if nbytes > 0 then [Add transferBytesTotal (of_go_int nbytes)] else [])"

definition IncGetMigrationFallback :: "metric_call list" where
  "IncGetMigrationFallback = [Inc getMigrationFallbackTotal []]"

definition IncStaleWriteIgnored :: "metric_call list" where
  "IncStaleWriteIgnored = [Inc staleWriteIgnoredTotal []]"

definition ObserveStoreApply :: "string \<Rightarrow> string \<Rightarrow> metric_call list" where
  "ObserveStoreApply op result = [Inc storeApplyTotal [or_unknown op, or_unknown result]]"

definition ObserveStoreGet :: "string \<Rightarrow> int \<Rightarrow> metric_call list" where
  "ObserveStoreGet result d = [Inc storeGetTotal [or_unknown result], Observe storeGetDurationSeconds [] (Seconds d)]"

definition ObserveStoreSnapshot :: "int \<Rightarrow> metric_call list" where
  "ObserveStoreSnapshot entries = (if entries \<ge> 0 then [Observe storeSnapshotEntries [] (of_go_int entries)] else [])"

definition SetStoreState :: "int \<Rightarrow> int \<Rightarrow> int \<Rightarrow> int \<Rightarrow> int \<Rightarrow> metric_call list" where
  "SetStoreState keys tombstones nbytes withData withTombstones =
     [SetTo storeKeys (of_go_int keys), SetTo storeTombstones (of_go_int tombstones), SetTo storeValueBytes (of_go_int nbytes),
      SetTo storeVnodesWithData (of_go_int withData), SetTo storeVnodesWithTombstones (of_go_int withTombstones)]"

definition ObserveRPC :: "string \<Rightarrow> string \<Rightarrow> int \<Rightarrow> metric_call list" where
  "ObserveRPC method result d =
     [Inc rpcRequestsTotal [or_unknown method, or_unknown result], Observe rpcDurationSeconds [or_unknown method] (Seconds d)]"

definition ObserveClientRequest :: "string \<Rightarrow> string \<Rightarrow> metric_call list" where
  "ObserveClientRequest method result = [Inc clientRequestsTotal [or_unknown method, or_unknown result]]"

definition ObserveReplicationQuorum :: "string \<Rightarrow> int \<Rightarrow> int \<Rightarrow> metric_call list" where
  "ObserveReplicationQuorum result acks targets =
     [Inc replicationQuorumTotal [or_unknown result], Observe replicationAcks [] (of_go_int acks),
      Observe replicationTargets [] (of_go_int targets)]"

definition ObserveLocalCapacity ::
  "f64 \<Rightarrow> f64 \<Rightarrow> f64 \<Rightarrow> f64 \<Rightarrow> f64 \<Rightarrow> int \<Rightarrow> int \<Rightarrow> int \<Rightarrow> int \<Rightarrow> metric_call list" where
  "ObserveLocalCapacity cpuUsage memUsage netUsage diskUsage avgRTT cpuCores memGB bandwidthMbps diskGB =
     [SetTo localNodeCPUUsage cpuUsage, SetTo localNodeMemUsage memUsage, SetTo localNodeNetUsage netUsage,
      SetTo localNodeDiskUsage diskUsage, SetTo localNodeAvgRTTMs avgRTT, SetTo localNodeCPUCores (of_go_int cpuCores),
      SetTo localNodeMemGB (of_go_int memGB), SetTo localNodeBandwidthMbps (of_go_int bandwidthMbps), SetTo localNodeDiskGB (of_go_int diskGB)]"

definition SetClusterMembers :: "int \<Rightarrow> metric_call list" where
  "SetClusterMembers n = [SetTo clusterMembers (of_go_int (if n < 0 then 0 else n))]"

section \<open>The instrumented store\<close>

definition updateStateMetricsLocked :: "Store \<Rightarrow> metric_call list" where
  "updateStateMetricsLocked s =
     SetStoreState (int (fcard (fmdom (storage s)))) (tombstoneCount s) (valueBytes s) (vnodesWithData s) (vnodesWithTombstones s)"

definition Apply_calls :: "Command \<Rightarrow> Store \<Rightarrow> metric_call list" where
  "Apply_calls cmd s =
     (if cmd_Version cmd \<noteq> 0 \<and> cmd_Version cmd < meta_Version (meta_get s (cmd_Key cmd))
      then IncStaleWriteIgnored @ ObserveStoreApply ''stale'' ''ignored''
      else if cmd_Op cmd = OpPut then ObserveStoreApply ''put'' ''applied'' @ updateStateMetricsLocked (snd (Apply cmd s))
      else if cmd_Op cmd = OpDelete then ObserveStoreApply ''delete'' ''applied'' @ updateStateMetricsLocked (snd (Apply cmd s))
      else ObserveStoreApply ''invalid'' ''rejected'')"

definition GetWithVersion_calls :: "int \<Rightarrow> Store \<Rightarrow> string \<Rightarrow> metric_call list" where
  "GetWithVersion_calls d s key =
     (case GetWithVersion s key of Inl _ \<Rightarrow> ObserveStoreGet ''miss'' d | Inr _ \<Rightarrow> ObserveStoreGet ''hit'' d)"

definition DeleteVNodeData_calls :: "u16 \<Rightarrow> Store \<Rightarrow> metric_call list" where
  "DeleteVNodeData_calls v s =
     (if fcard (idx_set (vNodeIdx s) v) = 0 \<and> fcard (idx_set (tombstoneIdx s) v) = 0 then []
      else updateStateMetricsLocked (DeleteVNodeData v s))"

section \<open>The instrumented handlers\<close>

text \<open>The label with which a handler's deferred function reports its result.\<close>

definition write_result :: "status + unit \<Rightarrow> string" where
  "write_result res = (case res of Inr _ \<Rightarrow> ''ok'' | Inl (NotResponsible _ _) \<Rightarrow> ''rejected'' | Inl _ \<Rightarrow> ''error'')"

definition get_result :: "status + bytes \<times> u64 \<Rightarrow> string" where
  "get_result res =
     (case res of Inr _ \<Rightarrow> ''ok'' | Inl NotFound \<Rightarrow> ''not_found'' | Inl (StaleRead _ _) \<Rightarrow> ''stale'' | Inl _ \<Rightarrow> ''error'')"

definition client_result :: "status + 'a \<Rightarrow> string" where
  "client_result res = (case res of Inr _ \<Rightarrow> ''ok'' | Inl _ \<Rightarrow> ''error'')"

definition Put_calls :: "int \<Rightarrow> status + unit \<Rightarrow> metric_call list" where
  "Put_calls d res = ObserveRPC ''put'' (write_result res) d @ ObserveClientRequest ''put'' (client_result res)"

definition GetCall_calls :: "int \<Rightarrow> status + bytes \<times> u64 \<Rightarrow> metric_call list" where
  "GetCall_calls d res = ObserveRPC ''get'' (get_result res) d @ ObserveClientRequest ''get'' (client_result res)"

definition Delete_calls :: "int \<Rightarrow> status + unit \<Rightarrow> metric_call list" where
  "Delete_calls d res = ObserveRPC ''delete'' (write_result res) d @ ObserveClientRequest ''delete'' (client_result res)"

definition Replicate_calls :: "int \<Rightarrow> status + unit \<Rightarrow> metric_call list" where
  "Replicate_calls d res = ObserveRPC ''replicate'' (client_result res) d"

definition ReplicateBatch_calls :: "int \<Rightarrow> status + unit \<Rightarrow> metric_call list" where
  "ReplicateBatch_calls d res = ObserveRPC ''replicate_batch'' (client_result res) d"

definition ReplicateStream_calls :: "int \<Rightarrow> stream_end \<Rightarrow> metric_call list" where
  "ReplicateStream_calls d res = ObserveRPC ''replicate_stream'' (if res = StreamOk then ''ok'' else ''error'') d"

section \<open>What the library requires\<close>

text \<open>
  The documented rules of the client library, which panics when they are broken: a vector gets as many label values as it has labels, a counter
  only grows, and a collector only has the methods of its kind.
\<close>

definition call_ok :: "rat list \<Rightarrow> metric_call \<Rightarrow> bool" where
  "call_ok B c =
     (case c of
        Inc m ls \<Rightarrow> md_Kind (collector B m) \<noteq> Histogram \<and> length ls = length (md_Labels (collector B m))
      | Dec m \<Rightarrow> md_Kind (collector B m) = Gauge \<and> md_Labels (collector B m) = []
      | Add m x \<Rightarrow> md_Kind (collector B m) = Counter \<and> md_Labels (collector B m) = [] \<and> fle (Fin 0) x
      | SetTo m x \<Rightarrow> md_Kind (collector B m) = Gauge \<and> md_Labels (collector B m) = []
      | Observe m ls x \<Rightarrow> md_Kind (collector B m) = Histogram \<and> length ls = length (md_Labels (collector B m)))"

text \<open>
  What the program reports: the instrumented operations, and the functions with the arguments their callers in
  \<^verbatim>\<open>src/cluster/replication.go\<close> give them, which are lengths and counts.
\<close>

inductive reported :: "metric_call list \<Rightarrow> bool" where
  r_apply: "reported (Apply_calls c s)"
| r_get: "reported (GetWithVersion_calls d s key)"
| r_snapshot: "reported (ObserveStoreSnapshot (int n))"
| r_drop: "reported (DeleteVNodeData_calls v s)"
| r_put_rpc: "reported (Put_calls d res)"
| r_get_rpc: "reported (GetCall_calls d got)"
| r_delete_rpc: "reported (Delete_calls d res)"
| r_replicate_rpc: "reported (Replicate_calls d res)"
| r_batch_rpc: "reported (ReplicateBatch_calls d res)"
| r_stream_rpc: "reported (ReplicateStream_calls d ended)"
| r_other_rpc: "reported (ObserveRPC method result d)"
| r_placement: "reported (ObservePlacementApply epoch (int gained) (int lost) (int changed) (int added) d)"
| r_migration: "reported calls \<Longrightarrow> reported (IncMigrationActive @ calls @ DecMigrationActive)"
| r_transfer: "reported (ObserveTransfer result d entries nbytes)"
| r_quorum: "reported (ObserveReplicationQuorum result acks targets)"
| r_capacity: "reported (ObserveLocalCapacity cpu mem net disk rtt cores memGB mbps diskGB)"
| r_members: "reported (SetClusterMembers n)"
| r_also_reported: "reported calls \<Longrightarrow> reported calls' \<Longrightarrow> reported (calls @ calls')"

lemma of_go_int_nonneg: "0 \<le> n \<Longrightarrow> fle (Fin 0) (of_go_int n)"
proof (cases "n = 0")
  case False
  assume "0 \<le> n"
  with False have "0 < (of_int n :: rat)" by simp
  then show ?thesis using rnd_nonneg [of "of_int n"] by (auto simp: of_go_int_def fl_def fl_pos_rnd fle_def feq_def)
qed (simp add: of_go_int_def fl_def)

lemmas observe_defs = ObservePlacementApply_def IncMigrationActive_def DecMigrationActive_def ObserveTransfer_def
  IncStaleWriteIgnored_def ObserveStoreApply_def ObserveStoreGet_def ObserveStoreSnapshot_def SetStoreState_def ObserveRPC_def
  ObserveClientRequest_def ObserveReplicationQuorum_def ObserveLocalCapacity_def SetClusterMembers_def updateStateMetricsLocked_def

lemmas calls_defs = Apply_calls_def GetWithVersion_calls_def DeleteVNodeData_calls_def Put_calls_def GetCall_calls_def Delete_calls_def
  Replicate_calls_def ReplicateBatch_calls_def ReplicateStream_calls_def

lemma reported_ok: "reported calls \<Longrightarrow> list_all (call_ok B) calls"
proof (induction rule: reported.induct)
  case (r_placement epoch gained lost changed added d)
  show ?case by (simp add: observe_defs call_ok_def desc_def of_go_int_nonneg)
next
  case (r_transfer result d entries nbytes)
  show ?case by (simp add: observe_defs call_ok_def desc_def of_go_int_nonneg)
qed (simp_all add: calls_defs observe_defs call_ok_def desc_def split: sum.split)

section \<open>What the metrics say\<close>

text \<open>The value of a gauge after some calls; it starts at zero.\<close>

definition gauge_step :: "metric \<Rightarrow> metric_call \<Rightarrow> f64 \<Rightarrow> f64" where
  "gauge_step m c x = (case c of SetTo m' y \<Rightarrow> if m' = m then y else x | _ \<Rightarrow> x)"

definition gauge :: "metric \<Rightarrow> metric_call list \<Rightarrow> f64" where
  "gauge m calls = fold (gauge_step m) calls (Fin 0)"

definition count_calls :: "metric_call \<Rightarrow> metric_call list \<Rightarrow> nat" where
  "count_calls c calls = length (filter (\<lambda>c'. c' = c) calls)"

definition counted_applies :: "metric_call list \<Rightarrow> nat" where
  "counted_applies calls = length (filter (\<lambda>c. \<exists>ls. c = Inc storeApplyTotal ls) calls)"

fun exec_calls :: "Command list \<Rightarrow> Store \<Rightarrow> metric_call list" where
  "exec_calls [] s = []"
| "exec_calls (c # cs) s = Apply_calls c s @ exec_calls cs (snd (Apply c s))"

definition gauges_match :: "metric_call list \<Rightarrow> Store \<Rightarrow> bool" where
  "gauges_match calls s \<longleftrightarrow>
     gauge storeKeys calls = of_go_int (int (card {k. live s k})) \<and> gauge storeTombstones calls = of_go_int (tombstoneCount s)
     \<and> gauge storeValueBytes calls = of_go_int (valueBytes s) \<and> gauge storeVnodesWithData calls = of_go_int (vnodesWithData s)
     \<and> gauge storeVnodesWithTombstones calls = of_go_int (vnodesWithTombstones s)"

lemma card_live: "fcard (fmdom (storage s)) = card {k. live s k}"
proof -
  have "fset (fmdom (storage s)) = {k. live s k}" by (auto simp: live_def fmlookup_dom_iff)
  then show ?thesis by (simp add: fcard.rep_eq)
qed

lemma gauges_match_update: "gauges_match (calls @ updateStateMetricsLocked s) s"
  by (simp add: gauges_match_def gauge_def gauge_step_def observe_defs card_live)

lemma Apply_calls_update:
  "snd (Apply c s) = s \<and> (\<forall>m. gauge m (calls @ Apply_calls c s) = gauge m calls)
   \<or> (\<exists>pre. Apply_calls c s = pre @ updateStateMetricsLocked (snd (Apply c s)))"
proof (cases "cmd_Version c \<noteq> 0 \<and> cmd_Version c < meta_Version (meta_get s (cmd_Key c)) \<or> cmd_Op c \<noteq> OpPut \<and> cmd_Op c \<noteq> OpDelete")
  case True
  then have "snd (Apply c s) = s" by (auto simp: Apply_def Let_def)
  moreover have "gauge m (calls @ Apply_calls c s) = gauge m calls" for m
    using True by (auto simp: gauge_def gauge_step_def Apply_calls_def IncStaleWriteIgnored_def ObserveStoreApply_def)
  ultimately show ?thesis by blast
next
  case False
  then show ?thesis by (auto simp: Apply_calls_def)
qed

lemma gauges_match_Apply:
  assumes "gauges_match calls s"
  shows "gauges_match (calls @ Apply_calls c s) (snd (Apply c s))"
  using Apply_calls_update [of c s calls]
proof (elim disjE exE conjE)
  fix pre
  assume "Apply_calls c s = pre @ updateStateMetricsLocked (snd (Apply c s))"
  then show ?thesis using gauges_match_update [of "calls @ pre"] by simp
qed (use assms in \<open>simp add: gauges_match_def\<close>)

lemma gauges_match_exec: "gauges_match calls s \<Longrightarrow> gauges_match (calls @ exec_calls cs s) (exec cs s)"
proof (induction cs arbitrary: calls s)
  case (Cons c cs)
  from Cons.IH [OF gauges_match_Apply [OF Cons.prems], of c] show ?case by (simp add: exec_def)
qed (simp add: exec_def)

lemma gauges_match_start: "gauges_match [] NewStore"
  by (simp add: gauges_match_def gauge_def NewStore_def live_def of_go_int_def fl_def)

lemma counted_exec: "counted_applies (exec_calls cs s) = length cs"
proof (induction cs arbitrary: s)
  case (Cons c cs)
  have "counted_applies (Apply_calls c s @ rest) = Suc (counted_applies rest)" for rest
    by (simp add: counted_applies_def Apply_calls_def observe_defs)
  with Cons show ?case by simp
qed (simp add: counted_applies_def)

lemma stale_exec: "count_calls (Inc staleWriteIgnoredTotal []) (exec_calls cs s) = count_calls (Inc storeApplyTotal [''stale'', ''ignored'']) (exec_calls cs s)"
proof (induction cs arbitrary: s)
  case (Cons c cs)
  have "count_calls (Inc staleWriteIgnoredTotal []) (Apply_calls c s) = count_calls (Inc storeApplyTotal [''stale'', ''ignored'']) (Apply_calls c s)"
    by (simp add: count_calls_def Apply_calls_def observe_defs or_unknown_def)
  with Cons show ?case by (simp add: count_calls_def)
qed (simp add: count_calls_def)

section \<open>Properties\<close>

text \<open>
  The metrics cannot bring the node down: the declared collectors have different names, so registering them does not panic, and every call the
  program makes obeys the rules of the library: the right number of label values, no negative amount added to a counter, only methods of the
  collector's kind.
\<close>

theorem metric_calls_valid:
  assumes "reported calls"
  shows "distinct (map (\<lambda>m. md_Name (collector B m)) all_metrics) \<and> m \<in> set all_metrics \<and> list_all (call_ok B) calls"
proof (intro conjI)
  show "distinct (map (\<lambda>m. md_Name (collector B m)) all_metrics)" by (simp add: all_metrics_def desc_def)
  show "m \<in> set all_metrics" by (cases m) (simp_all add: all_metrics_def)
  show "list_all (call_ok B) calls" by (rule reported_ok [OF assms])
qed

theorem metric_calls_valid_witness:
  "list_all (call_ok [1, 2]) (ObservePlacementApply 7 (int 3) (int 0) (int 1) (int 2) 1500 @ Apply_calls (put_cmd ''k'' [1] 3 9) NewStore)"
  using metric_calls_valid [of "ObservePlacementApply 7 (int 3) (int 0) (int 1) (int 2) 1500 @ Apply_calls (put_cmd ''k'' [1] 3 9) NewStore" "[1, 2]"]
  by (blast intro: reported.intros)

text \<open>
  C39. The store's metrics are true: after any commands, each of them is counted once by \<^verbatim>\<open>nawst_store_apply_total\<close>, the ignored stale writes as often as
  \<^verbatim>\<open>nawst_stale_write_ignored_total\<close> says, and the gauges show the number of keys, of tombstones and of bytes of the values in the store.
\<close>

theorem store_metrics_true:
  assumes "\<forall>c\<in>set cs. well_tagged vn c"
  shows "counted_applies (exec_calls cs NewStore) = length cs
    \<and> count_calls (Inc staleWriteIgnoredTotal []) (exec_calls cs NewStore)
      = count_calls (Inc storeApplyTotal [''stale'', ''ignored'']) (exec_calls cs NewStore)
    \<and> gauge storeKeys (exec_calls cs NewStore) = of_go_int (int (card {k. live (exec cs NewStore) k}))
    \<and> gauge storeTombstones (exec_calls cs NewStore) = of_go_int (int (card {k. dead (exec cs NewStore) k}))
    \<and> gauge storeValueBytes (exec_calls cs NewStore) = of_go_int (fm_sum (\<lambda>val. int (length val)) (storage (exec cs NewStore)))"
proof -
  have ok: "store_ok vn (exec cs NewStore)" unfolding exec_def by (rule kv.fold_ok [OF store_ok_NewStore assms])
  have "gauges_match (exec_calls cs NewStore) (exec cs NewStore)" using gauges_match_exec [OF gauges_match_start] by simp
  with ok show ?thesis by (simp add: counted_exec stale_exec gauges_match_def store_ok_def counts_ok_def bytes_ok_def)
qed

theorem store_metrics_true_witness:
  "gauge storeKeys (exec_calls [put_cmd ''a'' [1, 2] 7 5, put_cmd ''b'' [3] 7 6, put_cmd ''a'' [4] 7 3] NewStore)
     = of_go_int (int (card {k. live (exec [put_cmd ''a'' [1, 2] 7 5, put_cmd ''b'' [3] 7 6, put_cmd ''a'' [4] 7 3] NewStore) k}))"
  using store_metrics_true [of "[put_cmd ''a'' [1, 2] 7 5, put_cmd ''b'' [3] 7 6, put_cmd ''a'' [4] 7 3]" "\<lambda>_. 7"]
  by (simp add: cmd_eval)

end
