(* ===== verification/Cluster_Write.thy ===== *)
theory Cluster_Write
  imports Quorum
begin

text \<open>
  The RPC server of a node on its own replicator: \<^verbatim>\<open>src/cmd/server/main.go\<close> assigns the replicator to the field
  \<^verbatim>\<open>Server.Replicator\<close>, an interface of \<^verbatim>\<open>src/core/rpc.go\<close>. The locale states what the handlers rely on.
\<close>

section \<open>What the handlers rely on\<close>

text \<open>
  \<^verbatim>\<open>owns\<close> says which keys the node is the primary of, \<^verbatim>\<open>replicated\<close> what is known of a key once
  \<^verbatim>\<open>ReplicateToAll\<close> returned nil for it.
\<close>

locale replicator =
  fixes ri :: ReplicatorIface
    and owns :: "string \<Rightarrow> bool"
    and replicated :: "string \<Rightarrow> bool"
  assumes ownership: "fst (ri_CheckOwnership ri key) \<longleftrightarrow> owns key"
    and nil_replicated: "ri_ReplicateToAll ri op key val v ver = None \<Longrightarrow> replicated key"
begin

lemma write_call_ok:
  assumes "write_call ri le now op pbop key val sv = (Inr (), sv')" "op = OpPut \<or> op = OpDelete"
  shows "owns key \<and> replicated key
    \<and> sv_Store sv' = snd (Apply \<lparr>cmd_Op = op, cmd_Key = key, cmd_Value = val, cmd_VNodeID = ri_GetVNodeForKey ri key,
         cmd_Version = version_candidate (sv_versionCounter sv) now\<rparr> (sv_Store sv))"
proof -
  have own: "fst (ri_CheckOwnership ri key)" using assms(1) by (auto simp: write_call_def split: prod.splits if_splits)
  then have "ri_ReplicateToAll ri pbop key val (ri_GetVNodeForKey ri key) (version_candidate (sv_versionCounter sv) now) = None"
    using assms(1) by (auto simp: write_call_def NextVersion_eq Let_def split: prod.splits option.splits)
  with own show ?thesis
    using assms ownership nil_replicated
    by (auto simp: write_call_def NextVersion_eq send_to_loop_def sendRequest_def serve_def cmd_of_def cancelled_def Let_def op_defs
        split: prod.splits option.splits if_splits ctx.splits)
qed

lemma write_call_refused:
  assumes "\<not> owns key"
  shows "\<exists>owner. write_call ri le now op pbop key val sv = (Inl (ownershipError owner False), sv)"
  using assms ownership [of key] by (auto simp: write_call_def split: prod.splits)

end

section \<open>The replicator of a node\<close>

text \<open>
  The context of a write ends after two seconds, so the answers that the waiting loop sees end with the end of the context. The text of an error is a
  parameter. A panic ends the process before the handler could answer; it counts as a failed write here.
\<close>

definition write_env :: "quorum_env \<Rightarrow> quorum_env" where
  "write_env env = env\<lparr>qe_waits := qe_waits env @ [CtxDone]\<rparr>"

definition replicate_result :: "(quorum_error \<Rightarrow> string) \<Rightarrow> placement_panic + quorum_error option option \<times> 'a \<Rightarrow> string option" where
  "replicate_result text_of res =
     (case res of
        Inr (Some None, _) \<Rightarrow> None
      | Inr (Some (Some e), _) \<Rightarrow> Some (text_of e)
      | _ \<Rightarrow> Some [])"

definition node_iface :: "(quorum_error \<Rightarrow> string) \<Rightarrow> quorum_env \<Rightarrow> Replicator \<times> worker_table \<Rightarrow> ReplicatorIface" where
  "node_iface text_of env st =
     \<lparr>ri_ReplicateToAll = \<lambda>op key val v ver. replicate_result text_of (ReplicateToAll (write_env env) op key val v ver st),
      ri_CheckOwnership = CheckOwnership (qe_hash env) (fst st),
      ri_GetVNodeForKey = GetVNodeForKey (qe_hash env) (fst st)\<rparr>"

definition owns_key :: "quorum_env \<Rightarrow> Replicator \<Rightarrow> string \<Rightarrow> bool" where
  "owns_key env r key \<longleftrightarrow>
     (case rp_placement r of None \<Rightarrow> True | Some pl \<Rightarrow> fst (GetNodesForKey (qe_hash env) pl key) = rp_ID r)"

definition quorum_acked :: "quorum_env \<Rightarrow> Replicator \<Rightarrow> string \<Rightarrow> bool" where
  "quorum_acked env r key \<longleftrightarrow>
     (\<exists>ms. qe_members env = Some ms
        \<and> (quorum r ms \<le> 1
           \<or> (\<exists>targets r'. find_targets env ms key r = Inr (targets, r') \<and> targets \<noteq> []
                \<and> quorum r ms \<le> 1 + length (filter is_ack (qe_waits env)))))"

lemma find_targets_write_env [simp]: "find_targets (write_env env) ms key r = find_targets env ms key r"
  by (simp add: find_targets_def write_env_def Let_def split: sum.splits)

lemma quorum_small: "length ms \<le> 1 \<Longrightarrow> quorum r ms \<le> 1"
  by (simp add: quorum_def effectiveRF_def)

lemma ReplicateToAll_nil:
  assumes "ReplicateToAll (write_env env) op key val v ver st = Inr (Some None, st')"
  shows "quorum_acked env (fst st) key"
proof -
  obtain ms where ms: "qe_members env = Some ms"
    using assms by (auto simp: ReplicateToAll_def write_env_def split: option.splits)
  show ?thesis
  proof (cases "quorum (fst st) ms \<le> 1")
    case False
    then have big: "1 < length ms" using quorum_small [of ms "fst st"] by linarith
    then have "ms \<noteq> []" by auto
    have mem: "qe_members (write_env env) = Some ms" by (simp add: write_env_def ms)
    obtain targets r where ts: "find_targets env ms key (fst st) = Inr (targets, r)"
      using assms False \<open>ms \<noteq> []\<close> by (auto simp: ReplicateToAll_def mem Let_def split: sum.splits)
    have ne: "targets \<noteq> []" "quorum (fst st) ms \<le> 1 + length targets"
      using assms False \<open>ms \<noteq> []\<close> big by (auto simp: ReplicateToAll_def mem Let_def ts split: if_splits)
    have q: "1 < quorum (fst st) ms" using False by simp
    have "find_targets (write_env env) ms key (fst st) = Inr (targets, r)" by (simp add: ts)
    from ReplicateToAll_waits [OF mem q this ne, of op val v ver] obtain fe
      where "await_quorum (quorum (fst st) ms) 1 (length targets) fe (qe_waits env @ [CtxDone]) = Some None"
      using assms by (auto simp: write_env_def)
    from await_quorum_sound [OF this] have "quorum (fst st) ms \<le> 1 + length (filter is_ack (qe_waits env))"
      by (simp add: is_ack_def)
    then show ?thesis using ms ts ne(1) by (auto simp: quorum_acked_def)
  qed (use ms in \<open>auto simp: quorum_acked_def\<close>)
qed

interpretation node: replicator "node_iface text_of env st" "owns_key env (fst st)" "quorum_acked env (fst st)" for text_of env st
proof unfold_locales
  fix key
  show "fst (ri_CheckOwnership (node_iface text_of env st) key) \<longleftrightarrow> owns_key env (fst st) key"
    by (simp add: node_iface_def CheckOwnership_def owns_key_def split: option.splits prod.splits)
next
  fix op key val v ver
  assume "ri_ReplicateToAll (node_iface text_of env st) op key val v ver = None"
  then obtain st' where "ReplicateToAll (write_env env) op key val v ver st = Inr (Some None, st')"
    by (auto simp: node_iface_def replicate_result_def split: sum.splits prod.splits option.splits)
  then show "quorum_acked env (fst st) key" by (rule ReplicateToAll_nil)
qed

text \<open>Counting targets instead of answers.\<close>

lemma quorum_acked_card:
  assumes "quorum_acked env r key"
  shows "\<exists>ms. qe_members env = Some ms \<and> (quorum r ms \<le> 1 \<or>
    (\<exists>targets r'. find_targets env ms key r = Inr (targets, r') \<and> (answers_of targets (qe_waits env) \<longrightarrow>
       (\<exists>A\<subseteq>set targets. quorum r ms \<le> 1 + card A \<and> (\<forall>t\<in>A. Result t None \<in> set (qe_waits env))))))"
proof -
  let ?A = "{t. Result t None \<in> set (qe_waits env)}"
  have "?A \<subseteq> set targets \<and> card ?A = length (filter is_ack (qe_waits env))" if "answers_of targets (qe_waits env)" for targets
    using that acked_targets [of "qe_waits env"] acked_in_targets [of _ None "qe_waits env"] by (auto simp: answers_of_def)
  then show ?thesis using assms unfolding quorum_acked_def by (elim exE conjE disjE) (metis mem_Collect_eq)+
qed

text \<open>Since the context ends, the waiting loop always decides.\<close>

lemma await_quorum_ends: "CtxDone \<in> set evs \<Longrightarrow> \<exists>res. await_quorum req acks n fe evs = Some res"
  by (induction req acks n fe evs rule: await_quorum.induct) (auto simp: Let_def)

lemma ReplicateToAll_returns:
  assumes "ReplicateToAll (write_env env) op key val v ver st = Inr (res, st')"
  shows "res \<noteq> None"
  using assms await_quorum_ends [of "qe_waits env @ [CtxDone]"]
  by (auto simp: ReplicateToAll_def write_env_def Let_def split: option.splits if_splits sum.splits prod.splits)

text \<open>Three nodes, of which one has its queue full: the write succeeds.\<close>

lemma sample_put:
  "\<exists>sv'. Put (node_iface text_of sample_quorum (quorum_node, fmempty)) calm now ''k'' val sv = (Inr (), sv')"
proof -
  let ?st = "(quorum_node, fmempty)"
  have own: "ri_CheckOwnership (node_iface text_of sample_quorum ?st) ''k'' = (True, False, ''a'')"
    by (simp add: node_iface_def CheckOwnership_def quorum_node_def SetPlacement_def NewReplicator_def quorum_nodes)
  have mem: "qe_members (write_env sample_quorum) = Some sample_members" by (simp add: write_env_def sample_targets)
  have q: "1 < quorum (fst ?st) sample_members" by (simp add: sample_targets)
  have ts: "find_targets (write_env sample_quorum) sample_members ''k'' (fst ?st) = Inr ([''b'', ''c''], quorum_node)"
    by (simp add: sample_targets)
  have "replicate_result text_of (ReplicateToAll (write_env sample_quorum) PUT ''k'' val v ver ?st) = None" for v ver
    using ReplicateToAll_waits [OF mem q ts, of PUT val v ver]
    by (auto simp: sample_targets replicate_result_def write_env_def sample_quorum_def numeral_2_eq_2)
  then have "ri_ReplicateToAll (node_iface text_of sample_quorum ?st) PUT ''k'' val v ver = None" for v ver
    by (simp add: node_iface_def)
  moreover have "quiet calm" by (simp add: quiet_def calm_def)
  ultimately show ?thesis using Put_eq [OF _ own] by simp
qed

end
