(* ===== verification/Spec2Isabelle.thy ===== *)
theory Spec2Isabelle
  imports Cli Load_Phase Summaries Server_Main Stream_KV Observability Cluster_Write
begin

text \<open>
  Verification of nawst, a replicated key-value store written in Go. Paths below are under \<^verbatim>\<open>src/\<close>.

  \<^bold>\<open>The program.\<close> A node holds a versioned map from keys to bytes (\<^verbatim>\<open>core/store.go\<close>), changed by one event loop
  (\<^verbatim>\<open>core/loop.go\<close>) that writes every command to a log first (\<^verbatim>\<open>core/wal.go\<close>) and serves the gRPC handlers
  (\<^verbatim>\<open>core/rpc.go\<close>). The key space is cut into 1024 vnodes. The raft leader computes a placement, which gives every vnode a primary
  and replicas, from metrics that the nodes gossip (\<^verbatim>\<open>cluster/placement.go\<close>, \<^verbatim>\<open>cluster/score.go\<close>,
  \<^verbatim>\<open>cluster/metrics.go\<close>), and commits it through raft (\<^verbatim>\<open>cluster/raft.go\<close>). When a placement arrives, a node fetches the vnodes it gained
  and drops those it lost. A write goes to the primary of its key, which replicates it to the replicas in batches and waits for a quorum
  (\<^verbatim>\<open>cluster/replication.go\<close>, \<^verbatim>\<open>cluster/replication_batch.go\<close>). Gossip events make the leader bring the raft configuration in line with the
  membership (\<^verbatim>\<open>cluster/membership.go\<close>). Clients route by a copy of the placement (\<^verbatim>\<open>cluster/router.go\<close>).

  \<^bold>\<open>Common ground.\<close> \<^verbatim>\<open>Nawst_Prelude\<close> has the word types, lemmas on finite maps, lists and sums, insertion sort with its
  locale \<^verbatim>\<open>sort_order\<close> (what \<^verbatim>\<open>sort.Slice\<close> needs of a comparison), the locale \<^verbatim>\<open>map_range\<close> (the order in which Go ranges over a map is
  some enumeration of its keys, so it is a parameter), and the locale \<^verbatim>\<open>step_machine\<close> (runs of an interleaved component and their
  invariants). \<^verbatim>\<open>Go_Float\<close> and \<^verbatim>\<open>Float_Order\<close> model float64: rationals rounded to 53 bits, infinities and NaN, with error
  bounds. A word is a word, a Go string is a list of characters, a map is a finite map, an error is a value of an option or sum type, and a panic is
  a value of \<^verbatim>\<open>placement_panic\<close>. Code between a lock and its release is one step. Logging is left out; the metrics stand beside the operations, in \<^verbatim>\<open>Observability\<close>.

  \<^bold>\<open>Storage and log.\<close> \<^verbatim>\<open>Commands\<close>: operation codes, commands and errors. \<^verbatim>\<open>Versioned_KV\<close>: the abstract contract of a store,
  a map from keys to a version and a value or tombstone in which the highest version wins, as the locale \<^verbatim>\<open>versioned_store\<close>, with convergence of
  replicas proved in it. \<^verbatim>\<open>Store\<close>: the store with its indexes and counters, \<^verbatim>\<open>Apply\<close>, \<^verbatim>\<open>GetWithVersion\<close>,
  \<^verbatim>\<open>SnapshotVNode\<close>, \<^verbatim>\<open>DeleteVNodeData\<close>; it interprets that locale. Its invariant ties data, tombstones, both indexes and
  all counters together. \<^verbatim>\<open>Wal_Codec\<close>: the record format and \<^verbatim>\<open>ReplayWal\<close>, with the round trip and every torn tail.
  \<^verbatim>\<open>Wal_Writer\<close>: \<^verbatim>\<open>Append\<close>, \<^verbatim>\<open>Wait\<close>, the writer goroutine and its buffer against a disk that may fail, as a reachability relation.
  \<^verbatim>\<open>Event_Loop\<close>: the loop, its batches and the acknowledging goroutine on top of the writer; it shows that what was acknowledged is in
  the log and in the store. \<^verbatim>\<open>Rpc_Server\<close>: the handlers, the version counter and the replication and transfer streams. A handler meets the loop
  through \<^verbatim>\<open>serve\<close>, which is shown to be what the loop does. \<^verbatim>\<open>Stream_KV\<close>: the goroutines of the client stream \<^verbatim>\<open>StreamKV\<close> as a state
  machine; it shows what has been answered and sent when the stream ends, that the last answer can get lost, and that an abandoned stream can block
  the event loop. \<^verbatim>\<open>Observability\<close>: the collectors of \<^verbatim>\<open>observability/metrics.go\<close>, the calls made on them, and that they neither panic
  nor disagree with the store.

  \<^bold>\<open>Placement.\<close> \<^verbatim>\<open>Placement\<close>: ring, key lookup and \<^verbatim>\<open>AssignVNodes\<close>. \<^verbatim>\<open>Target_Counts\<close>: \<^verbatim>\<open>GetTargetVNodeCount\<close>,
  whose targets add up to the ring in floating point. \<^verbatim>\<open>Score\<close>: \<^verbatim>\<open>CalculateScores\<close>. \<^verbatim>\<open>Replicas\<close>: \<^verbatim>\<open>AssignReplicas\<close>.
  \<^verbatim>\<open>Node_Metrics\<close>: the collector, gossip messages and the smoothed view. \<^verbatim>\<open>Rebalance\<close>: the leader's long-term and short-term updates; it shows
  that no update panics or commits anything but a full ring of active nodes. \<^verbatim>\<open>Member_Meta\<close>: the gossiped metadata.
  \<^verbatim>\<open>Replicator_State\<close>: the replicator's fields and its table of clients.

  \<^bold>\<open>Cluster.\<close> \<^verbatim>\<open>Raft_FSM\<close>: the replicated placement; committed placements reach every node in order, and snapshots replace the log.
  \<^verbatim>\<open>Migration\<close>: \<^verbatim>\<open>ApplyPlacementFromRaft\<close>, its goroutine, \<^verbatim>\<open>transferVNodeFrom\<close> and the server's callbacks. \<^verbatim>\<open>Batch_Worker\<close>: the
  replication workers as a state machine. \<^verbatim>\<open>Quorum\<close>: \<^verbatim>\<open>ReplicateToAll\<close>.
  \<^verbatim>\<open>Cluster_Write\<close>: the RPC server on the node's own replicator, with the locale \<^verbatim>\<open>replicator\<close> of what the handlers rely on. \<^verbatim>\<open>Reconcile\<close>: \<^verbatim>\<open>ReconcileRaftWithMembership\<close>.
  \<^verbatim>\<open>Membership\<close>: the membership goroutines with their channels and debounce timer. \<^verbatim>\<open>Cluster_State\<close> and \<^verbatim>\<open>Router\<close>: what clients fetch and how they
  route; clients and servers agree on the owner of a key.

  \<^bold>\<open>Programs.\<close> \<^verbatim>\<open>Server_Main\<close>: \<^verbatim>\<open>cmd/server/main.go\<close>, from the flags to a serving node; it puts log replay, event loop,
  gossip, raft and credentials together and shows what a node that crashed starts with. \<^verbatim>\<open>Cli\<close>: \<^verbatim>\<open>cmd/cli/main.go\<close>, from lines of text to calls of the router.
  \<^verbatim>\<open>Loadgen\<close>: \<^verbatim>\<open>cmd/loadgen/main.go\<close>; it shows that the prefill writes every key once and that the reported quantiles are quantiles.
  \<^verbatim>\<open>Load_Phase\<close>: the phases of the same program; workers end in time and keep their pace. \<^verbatim>\<open>Transport\<close>: \<^verbatim>\<open>cluster/transport.go\<close>, the credentials of
  outbound connections. \<^verbatim>\<open>Node_Wiring\<close>: the callbacks and switches that \<^verbatim>\<open>main\<close> installs. \<^verbatim>\<open>Summaries\<close>: the texts that servers and router print about their state.

  \<^bold>\<open>Across components.\<close> This theory shows that an acknowledged write is in the store of the node that restarts from the log after a crash (event loop,
  log writer, codec, replay and start together), and that a write answered without error was made on the primary and acknowledged by a quorum (handler, store,
  placement and replication together).

  \<^bold>\<open>Parameters.\<close> Code outside the repository is an argument of the definitions that use it, with its documented behaviour as a hypothesis where a theorem
  needs it: xxhash, the JSON codec (decoding gives back what was encoded), the disk, the operating system's readings, gRPC connections and streams, the raft
  library (which entries it delivers and what it answers), memberlist, and clocks.

  \<^bold>\<open>Bounds.\<close> All functions are total. Loops that wait for an event are state machines or take the list of events they see; \<^verbatim>\<open>await_quorum\<close> returns
  \<^verbatim>\<open>None\<close> when the events end before it could decide, and is shown to return when every target answers. \<^verbatim>\<open>ReplayWal\<close> recurses on the remaining bytes, with
  the memory it may allocate as a parameter. The loop of a load worker, which runs until a time, is a partial function that is shown to return when the clock
  goes on. No fuel is used.

  \<^bold>\<open>Not modelled.\<close> \<^verbatim>\<open>core/proto\<close> is generated by protoc; the messages the code uses are records here. Printing, reading the terminal, serving the metrics page and signals are input and output. The first half of \<^verbatim>\<open>cluster/replication_batch.go\<close> and part of \<^verbatim>\<open>core/rpc.go\<close> are commented out.
  The bodies of the raft, memberlist, gRPC and Prometheus libraries are not
  part of the repository. Interleavings inside a handler are modelled where the code handles them (log, loop, workers, membership, client stream);
  the router is modelled as used by one goroutine.
\<close>

section \<open>Properties across components\<close>

lemma encode_all_covers:
  assumes "length (encode_all (take j cs)) \<le> length (encode_all (take k cs))" "j \<le> length cs"
  shows "j \<le> k"
proof (rule ccontr)
  assume "\<not> j \<le> k"
  then have k: "Suc k \<le> j" "k < length cs" using assms(2) by simp_all
  have "length (encode_all (take (Suc k) cs)) = length (encode_all (take k cs)) + length (encode_cmd (cs ! k))"
    using k(2) by (simp add: take_Suc_conv_app_nth)
  moreover have "0 < length (encode_cmd (cs ! k))" by simp
  ultimately show False using length_encode_all_mono [OF k(1), of cs] assms(1) by linarith
qed

text \<open>
  C2. An acknowledged write is there after a crash and a restart. In the durable mode, whatever the event loop, the log writer and the disk did
  before the crash, and wherever after the synced bytes the file was cut: if the node then starts, its store holds the version of the acknowledged
  write or a newer one.
\<close>

theorem acknowledged_write_after_restart:
  assumes "el_reach AckAfterFsync disk (el_start (exec hist NewStore) (encode_all hist) n b) el"
    and "(r, resp) \<in> set (el_sent el)" "req_Op r = OpPut \<or> req_Op r = OpDelete" "resp_Err resp = None"
    and "\<forall>c\<in>set (hist @ wal_log (el_Wal el)). fits (be_maxAlloc be) c \<and> is_write c \<and> versioned c"
    and "prefix img (w_file (wal_writer (el_Wal el)))" "w_synced (wal_writer (el_Wal el)) \<le> length img"
    and "be_file be (pn_walPath (resolve_flags (be_config_dir be) fs)) = Contents img" "start_server be fs = Inr bt"
  shows "req_Version r \<le> meta_Version (meta_get (el_Store (bt_loop bt)) (req_Key r))"
proof -
  define cs where "cs = hist @ wal_log (el_Wal el)"
  let ?j = "length hist + wal_flushed (el_Wal el)"
  have "req_Op r \<noteq> OpGet" using assms(3) by (auto simp: op_defs)
  note image = durable_image [OF assms(1,2) this assms(4,6,7), folded cs_def]
  from start_server_Inr(1) [OF assms(9)] obtain store
    where "recover_store (be_maxAlloc be) (Contents img) = Inr store" "el_Store (bt_loop bt) = store"
    by (auto simp: assms(8) el_start_def)
  moreover have "\<forall>c\<in>set cs. fits (be_maxAlloc be) c \<and> is_write c" using assms(5) by (simp add: cs_def)
  ultimately obtain k where k: "img = encode_all (take k cs)" "el_Store (bt_loop bt) = exec (take k cs) NewStore"
    using recover_cut [OF _ image(2)] by blast
  have "?j \<le> k" using encode_all_covers [of ?j cs k] image(3,4) by (simp add: k(1) cs_def)
  from set_take_subset_set_take [OF this, of cs] image(1) have mem: "cmd_of r \<in> set (take k cs)" by (auto simp: cs_def)
  have "is_write (cmd_of r)" using assms(3) by (simp add: is_write_def cmd_of_def)
  moreover have "\<forall>c\<in>set (take k cs). versioned c" using assms(5) by (auto simp: cs_def dest: in_set_takeD)
  ultimately show ?thesis
    using cur_version_fold_seen [OF _ mem, of "store_abs NewStore"] by (simp add: k(2) cmd_of_def flip: exec_abs)
qed

theorem acknowledged_write_after_restart_witness:
  "\<exists>(el :: EventLoop) bt. el_sent el = [(demo_req, write_response OpPut None)]
     \<and> start_server (calm_boot (w_file (wal_writer (el_Wal el)))) default_flags = Inr bt
     \<and> 5 \<le> meta_Version (meta_get (el_Store (bt_loop bt)) ''k'')"
proof -
  obtain el where el: "el_reach AckAfterFsync (\<lambda>_. DiskOk) (el_start NewStore [] 64 1) el"
    "el_sent el = [(demo_req, write_response OpPut None)]" "wal_log (el_Wal el) = [cmd_of demo_req]"
    by (rule demo_run [of AckAfterFsync]) (auto simp: ack_defs)
  let ?img = "w_file (wal_writer (el_Wal el))"
  have reach: "el_reach AckAfterFsync (\<lambda>_. DiskOk) (el_start (exec [] NewStore) (encode_all []) 64 1) el"
    using el(1) by (simp add: exec_def)
  have put: "req_Op demo_req = OpPut" "req_Op demo_req \<noteq> OpGet" "resp_Err (write_response OpPut None) = None"
    by (simp_all add: demo_req_def op_defs write_response_def)
  have log: "\<forall>c\<in>set ([] @ wal_log (el_Wal el)). fits 100 c \<and> is_write c \<and> versioned c"
    by (simp add: el(3) demo_req_def op_defs fits_def cmd_of_def is_write_def versioned_def)
  have sent: "(demo_req, write_response OpPut None) \<in> set (el_sent el)" by (simp add: el(2))
  from el_reach_wal [OF el(1)] have synced: "w_synced (wal_writer (el_Wal el)) \<le> length ?img"
    using wal_reach_facts(3) unfolding synced_ok_def by blast
  note image = durable_image [OF reach sent put(2,3) prefix_order.refl synced]
  have "wal_flushed (el_Wal el) = 1" using image(1,3) by (cases "wal_flushed (el_Wal el)") (simp_all add: el(3))
  then have "?img = encode_all [cmd_of demo_req]"
    using image(2,4) by (auto simp: el(3) prefix_def)
  then obtain s where "recover_store 100 (Contents ?img) = Inr s"
    using recover_cut [of "[cmd_of demo_req]" 100 ?img "exec [cmd_of demo_req] NewStore"] log el(3) by (auto intro: exI [of _ 1])
  then obtain bt where bt: "start_server (calm_boot ?img) default_flags = Inr bt" using calm_boot_starts by blast
  have "be_file (calm_boot ?img) (pn_walPath (resolve_flags (be_config_dir (calm_boot ?img)) default_flags)) = Contents ?img"
    "be_maxAlloc (calm_boot ?img) = 100"
    by (simp_all add: calm_boot_def calm_paths)
  note boot = this
  from acknowledged_write_after_restart [OF reach sent disjI1 [OF put(1)] put(3) log [folded boot(2)] prefix_order.refl synced boot(1) bt]
  have "5 \<le> meta_Version (meta_get (el_Store (bt_loop bt)) ''k'')" by (simp add: demo_req_def)
  with el(2) bt show ?thesis by blast
qed



end
